(* ===== verification/Prelude.thy ===== *)
theory Prelude
  imports Complex_Main "HOL-Library.AList" "HOL-Library.Multiset"
begin

section \<open>Prelude: errors, dictionaries and shared lemmas\<close>

text \<open>
  What every component of the development uses: the exceptions of the Python code as values,
  results and the binding of results, Python dictionaries as insertion-ordered association
  lists, the conversion of clock readings, and the generic list facts that carry the
  component proofs.

  Python's \<open>float\<close> is modelled by \<open>real\<close>: rounding is not modelled, and every clock value
  (\<open>time.time()\<close>, \<open>time.monotonic()\<close>) is an argument of the operation that reads it.
  Python's \<open>int\<close> is \<open>int\<close>; \<open>str\<close> is \<open>string\<close>, whose characters stand for the code
  points below 256.
\<close>

named_theorems dict_simps \<open>lookups and domains after updates of dictionaries\<close>
named_theorems window_simps \<open>counting entries of a log above a time\<close>

subsection \<open>Exceptions as values\<close>

text \<open>
  The exceptions the code raises or catches. The first three constructors are subclasses of
  redis-py's \<open>RedisError\<close>; \<open>HTTPException\<close> carries the status, the detail and the headers.
\<close>

datatype exn =
    NoScriptError
  | ResponseError string
  | RedisConnectionError
  | KeyError
  | ValueError
  | TypeError
  | AssertionError
  | IndexError
  | OverflowError
  | RuntimeError
  | DatabaseError
  | CommandError
  | UpstreamError
  | HTTPException int string "(string \<times> string) list"

fun is_redis_error :: "exn \<Rightarrow> bool" where
  "is_redis_error NoScriptError = True"
| "is_redis_error (ResponseError _) = True"
| "is_redis_error RedisConnectionError = True"
| "is_redis_error _ = False"

type_synonym 'a res = "exn + 'a"

definition res_bind :: "'a res \<Rightarrow> ('a \<Rightarrow> 'b res) \<Rightarrow> 'b res" where
  "res_bind m f = (case m of Inl e \<Rightarrow> Inl e | Inr x \<Rightarrow> f x)"

lemma res_bind_simps [simp]:
  "res_bind (Inl e) f = Inl e"
  "res_bind (Inr x) f = f x"
  by (simp_all add: res_bind_def)

lemma res_bind_Inr_iff: "res_bind m f = Inr y \<longleftrightarrow> (\<exists>x. m = Inr x \<and> f x = Inr y)"
  by (cases m) simp_all

lemma res_bind_assoc: "res_bind (res_bind m f) g = res_bind m (\<lambda>x. res_bind (f x) g)"
  by (cases m) simp_all

text \<open>A list comprehension whose element expression may raise.\<close>

fun res_map :: "('a \<Rightarrow> 'b res) \<Rightarrow> 'a list \<Rightarrow> 'b list res" where
  "res_map f [] = Inr []"
| "res_map f (x # xs) = res_bind (f x) (\<lambda>y. res_bind (res_map f xs) (\<lambda>ys. Inr (y # ys)))"

lemma res_map_total: "(\<And>x. x \<in> set xs \<Longrightarrow> f x = Inr (g x)) \<Longrightarrow> res_map f xs = Inr (map g xs)"
  by (induction xs) auto

text \<open>The rows a condition that may raise selects.\<close>

fun res_filter :: "('a \<Rightarrow> bool res) \<Rightarrow> 'a list \<Rightarrow> 'a list res" where
  "res_filter P [] = Inr []"
| "res_filter P (x # xs) =
     res_bind (P x) (\<lambda>b. res_bind (res_filter P xs) (\<lambda>ys. Inr (if b then x # ys else ys)))"

lemma res_filter_total: "(\<And>x. x \<in> set xs \<Longrightarrow> P x = Inr (Q x)) \<Longrightarrow> res_filter P xs = Inr (filter Q xs)"
  by (induction xs) auto

lemma res_filter_Inr: "res_filter P xs = Inr ys \<Longrightarrow> ys = filter (\<lambda>x. P x = Inr True) xs"
proof (induction xs arbitrary: ys)
  case (Cons x xs)
  then show ?case by (cases "P x") (auto simp: res_bind_Inr_iff)
qed simp

subsection \<open>Dictionaries\<close>

text \<open>
  A Python dictionary is an association list in insertion order: \<open>AList.update\<close> overwrites in
  place and appends a new key at the end, as \<open>d[k] = v\<close> does; \<open>AList.delete\<close> is
  \<open>d.pop(k, None)\<close>; \<open>map_of\<close> is \<open>d.get(k)\<close>.
\<close>

type_synonym ('k, 'v) dict = "('k \<times> 'v) list"

abbreviation dict_get :: "('k, 'v) dict \<Rightarrow> 'k \<Rightarrow> 'v option" where
  "dict_get \<equiv> map_of"

abbreviation dict_set :: "'k \<Rightarrow> 'v \<Rightarrow> ('k, 'v) dict \<Rightarrow> ('k, 'v) dict" where
  "dict_set \<equiv> AList.update"

abbreviation dict_pop :: "'k \<Rightarrow> ('k, 'v) dict \<Rightarrow> ('k, 'v) dict" where
  "dict_pop \<equiv> AList.delete"

abbreviation dict_wf :: "('k, 'v) dict \<Rightarrow> bool" where
  "dict_wf d \<equiv> distinct (map fst d)"

lemma dict_get_set [dict_simps]:
  "dict_get (dict_set k v d) k' = (if k' = k then Some v else dict_get d k')"
  by (simp add: update_conv')

lemma dict_get_pop [dict_simps]:
  "dict_get (dict_pop k d) k' = (if k' = k then None else dict_get d k')"
  by (simp add: delete_conv')

lemma dict_wf_set [simp]: "dict_wf d \<Longrightarrow> dict_wf (dict_set k v d)"
  by (rule distinct_update)

lemma dict_wf_pop [simp]: "dict_wf d \<Longrightarrow> dict_wf (dict_pop k d)"
  by (rule distinct_delete)

text \<open>Popping every key of a list, as a loop \<open>for k in ks: d.pop(k, None)\<close> does.\<close>

definition dict_pops :: "'k list \<Rightarrow> ('k, 'v) dict \<Rightarrow> ('k, 'v) dict" where
  "dict_pops ks d = fold dict_pop ks d"

lemma dict_get_pops [dict_simps]:
  "dict_get (dict_pops ks d) k = (if k \<in> set ks then None else dict_get d k)"
  unfolding dict_pops_def
  by (induction ks arbitrary: d) (auto simp: dict_simps)

lemma dom_dict_pops: "dom (dict_get (dict_pops ks d)) = dom (dict_get d) - set ks"
  by (auto simp: dict_simps split: if_splits)

lemma dict_wf_pops [simp]: "dict_wf d \<Longrightarrow> dict_wf (dict_pops ks d)"
  unfolding dict_pops_def
  by (induction ks arbitrary: d) auto

lemma dict_wf_get_iff: "dict_wf d \<Longrightarrow> (k, v) \<in> set d \<longleftrightarrow> dict_get d k = Some v"
  by (auto simp: map_of_eq_Some_iff)

text \<open>Dictionaries given by a list of keys and a function.\<close>

lemma dict_get_tabulate [dict_simps]:
  "dict_get (map (\<lambda>k. (k, f k)) ks) k = (if k \<in> set ks then Some (f k) else None)"
  by (induction ks) auto

lemma dict_set_tabulate:
  "distinct ks \<Longrightarrow> dict_set k v (map (\<lambda>k. (k, f k)) ks) =
     map (\<lambda>k'. (k', (f(k := v)) k')) (if k \<in> set ks then ks else ks @ [k])"
  by (induction ks) auto

text \<open>The keys of the items a comprehension \<open>[k for k, v in d.items() if ...]\<close> selects.\<close>

lemma in_selected_keys: "k \<in> fst ` set (filter (\<lambda>(k, v). P k v) d) \<longleftrightarrow> (\<exists>v. (k, v) \<in> set d \<and> P k v)"
  by force

subsection \<open>Clock readings\<close>

text \<open>\<open>int(x)\<close> of a float truncates towards zero.\<close>

definition py_int :: "real \<Rightarrow> int" where
  "py_int x = (if 0 \<le> x then \<lfloor>x\<rfloor> else \<lceil>x\<rceil>)"

lemma py_int_nonneg [simp]: "0 \<le> x \<Longrightarrow> 0 \<le> py_int x"
  by (simp add: py_int_def)

lemma py_int_mono: "x \<le> y \<Longrightarrow> py_int x \<le> py_int y"
proof (cases "0 \<le> x")
  case False
  assume "x \<le> y"
  show ?thesis
  proof (cases "0 \<le> y")
    case True
    have "\<lceil>x\<rceil> \<le> 0" using False by (simp add: ceiling_le_iff)
    moreover have "0 \<le> \<lfloor>y\<rfloor>" using True by simp
    ultimately have "\<lceil>x\<rceil> \<le> \<lfloor>y\<rfloor>" by linarith
    with False True show ?thesis by (simp add: py_int_def)
  next
    case False
    with \<open>x \<le> y\<close> \<open>\<not> 0 \<le> x\<close> show ?thesis by (simp add: py_int_def ceiling_mono)
  qed
qed (simp add: py_int_def floor_mono)

lemma py_int_of_int [simp]: "py_int (of_int n) = n"
  by (simp add: py_int_def)

text \<open>\<open>round(x)\<close>: to the nearest integer, ties to even.\<close>

definition round_half_even :: "real \<Rightarrow> int" where
  "round_half_even x = (let f = \<lfloor>x\<rfloor>; d = x - of_int f
     in if d < 1 / 2 \<or> (d = 1 / 2 \<and> even f) then f else f + 1)"

lemma round_half_even_le: "x \<le> of_int n \<Longrightarrow> round_half_even x \<le> n"
  unfolding round_half_even_def Let_def by (auto split: if_splits) linarith+

subsection \<open>Lists\<close>

text \<open>Keys that are joined with a separator take apart again when the first part is free of it.\<close>

lemma append_sep_eq:
  assumes "c \<notin> set x" "c \<notin> set y"
  shows "x @ c # u = y @ c # v \<longleftrightarrow> x = y \<and> u = v"
  using assms
proof (induction x arbitrary: y)
  case Nil
  then show ?case by (cases y) auto
next
  case (Cons a x)
  then show ?case by (cases y) auto
qed

lemma length_filter_mono:
  "(\<And>x. x \<in> set xs \<Longrightarrow> P x \<Longrightarrow> Q x) \<Longrightarrow> length (filter P xs) \<le> length (filter Q xs)"
  by (induction xs) auto

lemma length_filter_cong:
  "(\<And>x. x \<in> set xs \<Longrightarrow> P x = Q x) \<Longrightarrow> length (filter P xs) = length (filter Q xs)"
  by (metis filter_cong)

lemma filter_eq_Nil_iff: "filter P xs = [] \<longleftrightarrow> (\<forall>x \<in> set xs. \<not> P x)"
  by (simp add: filter_empty_conv)

lemma filter_singletonD: "filter P xs = [x] \<Longrightarrow> x \<in> set xs \<and> P x"
  using filter_set [of P xs] by (metis in_set_conv_decomp_first filter_set list.set_intros(1) mem_Collect_eq set_filter)

lemma filter_not_in_take: "distinct xs \<Longrightarrow> filter (\<lambda>i. i \<notin> set (take n xs)) xs = drop n xs"
proof -
  assume d: "distinct xs"
  have "filter (\<lambda>i. i \<notin> set (take n xs)) (take n xs) = []" by (simp add: filter_empty_conv)
  moreover have "filter (\<lambda>i. i \<notin> set (take n xs)) (drop n xs) = drop n xs"
    using set_take_disj_set_drop_if_distinct [OF d, of n n] by (intro filter_True) auto
  ultimately show ?thesis by (metis append_Nil append_take_drop_id filter_append)
qed

text \<open>The distinct elements of a list in order of first occurrence, and how often each occurs.\<close>

definition firsts :: "'a list \<Rightarrow> 'a list" where
  "firsts xs = rev (remdups (rev xs))"

lemma firsts_Nil [simp]: "firsts [] = []"
  by (simp add: firsts_def)

lemma firsts_snoc: "firsts (xs @ [x]) = (if x \<in> set xs then firsts xs else firsts xs @ [x])"
  by (simp add: firsts_def)

lemma set_firsts [simp]: "set (firsts xs) = set xs"
  by (simp add: firsts_def)

lemma distinct_firsts [simp]: "distinct (firsts xs)"
  by (simp add: firsts_def)

lemma firsts_filter: "firsts (filter P xs) = filter P (firsts xs)"
  by (simp add: firsts_def rev_filter remdups_filter)

definition tally :: "'a list \<Rightarrow> ('a, int) dict" where
  "tally xs = map (\<lambda>x. (x, int (count_list xs x))) (firsts xs)"

lemma dict_get_tally: "dict_get (tally xs) x = (if x \<in> set xs then Some (int (count_list xs x)) else None)"
  by (simp add: tally_def dict_simps)

lemma tally_snoc:
  "tally (xs @ [x]) = dict_set x ((case dict_get (tally xs) x of None \<Rightarrow> 0 | Some n \<Rightarrow> n) + 1) (tally xs)"
proof -
  have "dict_set x ((case dict_get (tally xs) x of None \<Rightarrow> 0 | Some n \<Rightarrow> n) + 1) (tally xs) =
      dict_set x (int (count_list (xs @ [x]) x)) (tally xs)"
    by (simp add: dict_get_tally count_list_0_iff add.commute)
  also have "\<dots> = tally (xs @ [x])"
    unfolding tally_def [of xs] dict_set_tabulate [OF distinct_firsts]
    by (auto simp: tally_def firsts_snoc)
  finally show ?thesis by simp
qed

end
