(* ===== verification/Py_Text.thy ===== *)
theory Py_Text
  imports Prelude
begin

section \<open>Python's text conversions\<close>

text \<open>
  The conversions between text and numbers that the event pipeline uses: \<open>str(n)\<close> and \<open>int(s)\<close>
  for integers, \<open>float(s)\<close>, \<open>str.lower\<close>. \<open>int\<close> and \<open>float\<close> strip white space, accept a sign and
  single underscores between digits, and raise \<open>ValueError\<close> (here \<open>None\<close>) on anything else;
  \<open>float\<close> also accepts \<open>inf\<close>, \<open>infinity\<close> and \<open>nan\<close> in any case. The interpreter's limit of
  4300 digits on integer conversions and the overflow of \<open>float\<close> to infinity are not modelled.
\<close>

text \<open>A Python float: a finite value, an infinity (\<open>PyInf True\<close> is the negative one), or not a number.\<close>

datatype pyfloat = Fin real | PyInf bool | NaN

subsection \<open>Characters\<close>

definition is_space :: "char \<Rightarrow> bool" where
  "is_space c = (let n = of_char c :: nat in (9 \<le> n \<and> n \<le> 13) \<or> (28 \<le> n \<and> n \<le> 32) \<or> n = 133 \<or> n = 160)"

definition digit_val :: "char \<Rightarrow> nat option" where
  "digit_val c = (let n = of_char c :: nat in if 48 \<le> n \<and> n \<le> 57 then Some (n - 48) else None)"

definition digit_char :: "nat \<Rightarrow> char" where
  "digit_char d = char_of (48 + d)"

text \<open>\<open>str.lower\<close> on the letters A to Z; the other code points below 256 that have a lower case
  (the Latin-1 capitals) follow the same offset.\<close>

definition lower_char :: "char \<Rightarrow> char" where
  "lower_char c = (let n = of_char c :: nat in
     if (65 \<le> n \<and> n \<le> 90) \<or> (192 \<le> n \<and> n \<le> 222 \<and> n \<noteq> 215) then char_of (n + 32) else c)"

definition py_lower :: "string \<Rightarrow> string" where
  "py_lower s = map lower_char s"

definition py_strip :: "string \<Rightarrow> string" where
  "py_strip s = rev (dropWhile is_space (rev (dropWhile is_space s)))"

lemma digit_val_char [simp]: "d < 10 \<Longrightarrow> digit_val (digit_char d) = Some d"
  by (simp add: digit_val_def digit_char_def)

lemma digit_char_not_space [simp]: "d < 10 \<Longrightarrow> \<not> is_space (digit_char d)"
  by (simp add: is_space_def digit_char_def)

lemma digit_char_not_sign:
  assumes "d < 10"
  shows "digit_char d \<noteq> CHR ''-''" "digit_char d \<noteq> CHR ''+''"
proof -
  have "of_char (digit_char d) = 48 + d" using assms by (simp add: digit_char_def)
  then show "digit_char d \<noteq> CHR ''-''" "digit_char d \<noteq> CHR ''+''" by auto
qed

subsection \<open>Integers\<close>

fun str_nat :: "nat \<Rightarrow> string" where
  "str_nat n = (if n < 10 then [digit_char n] else str_nat (n div 10) @ [digit_char (n mod 10)])"

declare str_nat.simps [simp del]

definition str_int :: "int \<Rightarrow> string" where
  "str_int n = (if n < 0 then CHR ''-'' # str_nat (nat (- n)) else str_nat (nat n))"

text \<open>Digits with single underscores between them; the flag says that a digit was just read.\<close>

fun digits_val :: "nat \<Rightarrow> bool \<Rightarrow> string \<Rightarrow> nat option" where
  "digits_val acc prev [] = (if prev then Some acc else None)"
| "digits_val acc prev (c # cs) =
     (case digit_val c of
        Some d \<Rightarrow> digits_val (10 * acc + d) True cs
      | None \<Rightarrow> if c = CHR ''_'' \<and> prev then digits_val acc False cs else None)"

definition split_sign :: "string \<Rightarrow> bool \<times> string" where
  "split_sign s = (case s of [] \<Rightarrow> (False, [])
     | c # cs \<Rightarrow> if c = CHR ''-'' then (True, cs) else if c = CHR ''+'' then (False, cs) else (False, c # cs))"

definition signed_digits :: "string \<Rightarrow> int option" where
  "signed_digits s = (case split_sign s of (neg, ds) \<Rightarrow>
     map_option (\<lambda>n. if neg then - int n else int n) (digits_val 0 False ds))"

definition int_of_str :: "string \<Rightarrow> int option" where
  "int_of_str s = signed_digits (py_strip s)"

lemma str_nat_not_space: "\<forall>c \<in> set (str_nat n). \<not> is_space c \<and> c \<noteq> CHR ''-'' \<and> c \<noteq> CHR ''+''"
proof (induction n rule: str_nat.induct)
  case (1 n)
  then show ?case
    by (subst str_nat.simps) (auto simp: digit_char_not_sign)
qed

lemma str_nat_nonempty [simp]: "str_nat n \<noteq> []"
  by (subst str_nat.simps) simp

lemma digits_val_str_nat:
  "digits_val acc prev (str_nat n @ cs) = digits_val (acc * 10 ^ length (str_nat n) + n) True cs"
proof (induction n arbitrary: acc prev cs rule: str_nat.induct)
  case (1 n)
  show ?case
  proof (cases "n < 10")
    case True
    then have "str_nat n = [digit_char n]" by (simp add: str_nat.simps [of n])
    with True show ?thesis by (simp add: ac_simps)
  next
    case False
    then have n: "str_nat n = str_nat (n div 10) @ [digit_char (n mod 10)]"
      by (simp add: str_nat.simps [of n])
    with 1 False show ?thesis by (simp add: n algebra_simps)
  qed
qed

lemma py_strip_id:
  assumes "s \<noteq> []" "\<not> is_space (hd s)" "\<not> is_space (last s)"
  shows "py_strip s = s"
proof -
  have "dropWhile is_space s = s" using assms by (cases s) auto
  moreover have "dropWhile is_space (rev s) = rev s"
    using assms by (cases s rule: rev_cases) auto
  ultimately show ?thesis by (simp add: py_strip_def)
qed

lemma py_strip_no_space: "\<forall>c \<in> set s. \<not> is_space c \<Longrightarrow> py_strip s = s"
proof (cases "s = []")
  case False
  then show "\<forall>c \<in> set s. \<not> is_space c \<Longrightarrow> py_strip s = s" by (intro py_strip_id) auto
qed (simp add: py_strip_def)

lemma split_sign_str_nat: "split_sign (str_nat n) = (False, str_nat n)"
  using str_nat_not_space [of n] by (auto simp: split_sign_def split: list.splits)

text \<open>Round trip: \<open>int(str(n)) == n\<close>.\<close>

lemma int_of_str_str_int [simp]: "int_of_str (str_int n) = Some n"
proof -
  have "py_strip (str_int n) = str_int n"
    using str_nat_not_space [of "nat n"] str_nat_not_space [of "nat (- n)"]
    by (intro py_strip_no_space) (auto simp: str_int_def is_space_def)
  moreover have "digits_val 0 False (str_nat m) = Some m" for m
    using digits_val_str_nat [of 0 False m "[]"] by simp
  ultimately show ?thesis
    by (auto simp: int_of_str_def signed_digits_def str_int_def split_sign_str_nat
          split_sign_def [of "CHR ''-'' # _"])
qed

subsection \<open>Floats\<close>

definition digit_or_underscore :: "char \<Rightarrow> bool" where
  "digit_or_underscore c \<longleftrightarrow> digit_val c \<noteq> None \<or> c = CHR ''_''"

text \<open>The integer or fraction part of a decimal literal; it may be empty.\<close>

definition float_part :: "string \<Rightarrow> nat option" where
  "float_part s = (if s = [] then Some 0 else digits_val 0 False s)"

definition exponent_part :: "string \<Rightarrow> int option" where
  "exponent_part s = (case s of [] \<Rightarrow> Some 0
     | c # cs \<Rightarrow> if lower_char c = CHR ''e'' then signed_digits cs else None)"

definition decimal_literal :: "string \<Rightarrow> real option" where
  "decimal_literal s =
     (let ip = takeWhile digit_or_underscore s;
          rest = dropWhile digit_or_underscore s;
          (fp, rest') = (case rest of
              c # cs \<Rightarrow> if c = CHR ''.'' then (takeWhile digit_or_underscore cs, dropWhile digit_or_underscore cs)
                        else ([], rest)
            | [] \<Rightarrow> ([], []));
          scale = length (filter (\<lambda>c. c \<noteq> CHR ''_'') fp)
      in if ip = [] \<and> fp = [] then None
         else case (float_part ip, float_part fp, exponent_part rest') of
           (Some i, Some f, Some e) \<Rightarrow> Some ((real i + real f / 10 ^ scale) * 10 powi e)
         | _ \<Rightarrow> None)"

definition float_of_str :: "string \<Rightarrow> pyfloat option" where
  "float_of_str s =
     (case split_sign (py_strip s) of (neg, t) \<Rightarrow>
        if py_lower t = ''inf'' \<or> py_lower t = ''infinity'' then Some (PyInf neg)
        else if py_lower t = ''nan'' then Some NaN
        else map_option (\<lambda>x. Fin (if neg then - x else x)) (decimal_literal t))"

end
