(* ===== verification/Aggregate.thy ===== *)
theory Aggregate
  imports Py_Text
begin

section \<open>Aggregation of request events\<close>

text \<open>
  \<open>consumers/analytics/aggregate.py\<close>: parsing the fields of a stream entry, truncating
  timestamps to the minute, nearest-rank percentiles, and collapsing a batch of events into one
  row per (minute, tenant, endpoint, method). A \<open>datetime\<close> is its number of seconds since the
  epoch. The loop over a batch is shown equal to a reference definition that groups the events
  by key.
\<close>

subsection \<open>Parsing\<close>

record parsed_event =
  pe_tenant_id :: string
  pe_endpoint :: string
  pe_method :: string
  pe_status_code :: int
  pe_latency_ms :: pyfloat
  pe_rate_limited :: bool
  pe_timestamp_ms :: int
  pe_traceparent :: string

type_synonym entry_fields = "(string, string) dict"

definition get_field :: "entry_fields \<Rightarrow> string \<Rightarrow> string res" where
  "get_field flds k = (case dict_get flds k of None \<Rightarrow> Inl KeyError | Some v \<Rightarrow> Inr v)"

definition int_field :: "entry_fields \<Rightarrow> string \<Rightarrow> int res" where
  "int_field flds k = res_bind (get_field flds k)
     (\<lambda>s. case int_of_str s of None \<Rightarrow> Inl ValueError | Some n \<Rightarrow> Inr n)"

definition float_field :: "entry_fields \<Rightarrow> string \<Rightarrow> pyfloat res" where
  "float_field flds k = res_bind (get_field flds k)
     (\<lambda>s. case float_of_str s of None \<Rightarrow> Inl ValueError | Some x \<Rightarrow> Inr x)"

definition parse_fields :: "entry_fields \<Rightarrow> parsed_event res" where
  "parse_fields flds =
     res_bind (get_field flds ''tenant_id'') (\<lambda>tenant_id.
     res_bind (get_field flds ''endpoint'') (\<lambda>endpoint.
     res_bind (get_field flds ''method'') (\<lambda>method.
     res_bind (int_field flds ''status_code'') (\<lambda>status_code.
     res_bind (float_field flds ''latency_ms'') (\<lambda>latency_ms.
     res_bind (int_field flds ''rate_limited'') (\<lambda>rate_limited.
     res_bind (int_field flds ''timestamp_ms'') (\<lambda>timestamp_ms.
     Inr \<lparr>pe_tenant_id = tenant_id, pe_endpoint = endpoint, pe_method = method,
          pe_status_code = status_code, pe_latency_ms = latency_ms,
          pe_rate_limited = (rate_limited \<noteq> 0), pe_timestamp_ms = timestamp_ms,
          pe_traceparent = (case dict_get flds ''traceparent'' of None \<Rightarrow> [] | Some v \<Rightarrow> v)\<rparr>)))))))"

text \<open>\<open>parse_event\<close> catches \<open>KeyError\<close> and \<open>ValueError\<close>, the only exceptions its body raises.\<close>

definition parse_event :: "entry_fields \<Rightarrow> parsed_event option" where
  "parse_event flds = (case parse_fields flds of Inl _ \<Rightarrow> None | Inr e \<Rightarrow> Some e)"

lemma parse_fields_raises: "parse_fields flds = Inl x \<Longrightarrow> x = KeyError \<or> x = ValueError"
  by (auto simp: parse_fields_def res_bind_def get_field_def int_field_def float_field_def
        split: sum.splits option.splits)

subsection \<open>Minutes\<close>

text \<open>
  \<open>datetime.fromtimestamp\<close> raises \<open>ValueError\<close> for a year outside 1 to 9999 and
  \<open>OverflowError\<close> beyond the platform's \<open>time_t\<close>.
\<close>

definition MIN_TIMESTAMP_MS :: int where
  "MIN_TIMESTAMP_MS = -62135596800000"

definition MAX_TIMESTAMP_MS :: int where
  "MAX_TIMESTAMP_MS = 253402300799999"

definition valid_timestamp :: "int \<Rightarrow> bool" where
  "valid_timestamp ts \<longleftrightarrow> MIN_TIMESTAMP_MS \<le> ts \<and> ts \<le> MAX_TIMESTAMP_MS"

definition minute_bucket :: "int \<Rightarrow> int res" where
  "minute_bucket timestamp_ms =
     (if valid_timestamp timestamp_ms then Inr (60 * (timestamp_ms div 60000))
      else if - (2 ^ 63) \<le> timestamp_ms div 1000 \<and> timestamp_ms div 1000 < 2 ^ 63 then Inl ValueError
      else Inl OverflowError)"

lemma minute_bucket_Inr: "minute_bucket ts = Inr b \<longleftrightarrow> valid_timestamp ts \<and> b = 60 * (ts div 60000)"
  by (auto simp: minute_bucket_def)

lemma minute_bucket_bounds:
  assumes "minute_bucket ts = Inr b"
  shows "60 dvd b" "b * 1000 \<le> ts" "ts < (b + 60) * 1000"
  using assms by (auto simp: minute_bucket_Inr)

subsection \<open>Percentiles\<close>

definition percentile :: "'a list \<Rightarrow> real \<Rightarrow> 'a res" where
  "percentile sorted_values p =
     (if sorted_values = [] then Inl AssertionError
      else let rank = \<lceil>p * real (length sorted_values)\<rceil>;
               i = nat (max 0 (rank - 1))
           in if i < length sorted_values then Inr (sorted_values ! i) else Inl IndexError)"

text \<open>
  The order of floats: negative infinity, the finite values, positive infinity, and NaN last.
  Python's \<open><\<close> agrees with it on values other than NaN.
\<close>

fun pf_rank :: "pyfloat \<Rightarrow> nat" where
  "pf_rank (PyInf True) = 0"
| "pf_rank (Fin _) = 1"
| "pf_rank (PyInf False) = 2"
| "pf_rank NaN = 3"

fun pf_val :: "pyfloat \<Rightarrow> real" where
  "pf_val (Fin x) = x"
| "pf_val _ = 0"

lemma pf_eq_iff: "x = y \<longleftrightarrow> pf_rank x = pf_rank y \<and> pf_val x = pf_val y"
  by (cases x rule: pf_rank.cases; cases y rule: pf_rank.cases) auto

instantiation pyfloat :: linorder
begin

definition less_eq_pyfloat :: "pyfloat \<Rightarrow> pyfloat \<Rightarrow> bool" where
  "x \<le> y \<longleftrightarrow> pf_rank x < pf_rank y \<or> (pf_rank x = pf_rank y \<and> pf_val x \<le> pf_val y)"

definition less_pyfloat :: "pyfloat \<Rightarrow> pyfloat \<Rightarrow> bool" where
  "x < y \<longleftrightarrow> pf_rank x < pf_rank y \<or> (pf_rank x = pf_rank y \<and> pf_val x < pf_val y)"

instance
  by standard (auto simp: less_eq_pyfloat_def less_pyfloat_def pf_eq_iff)

end

lemma pyfloat_le_Fin [simp]: "Fin x \<le> Fin y \<longleftrightarrow> x \<le> y"
  by (simp add: less_eq_pyfloat_def)

text \<open>
  \<open>sorted(xs)\<close>. Comparisons with NaN are all false, so the language leaves the order of a list
  that contains one open: \<open>nan_order\<close> is whatever the interpreter produces there.
\<close>

definition py_sorted :: "(pyfloat list \<Rightarrow> pyfloat list) \<Rightarrow> pyfloat list \<Rightarrow> pyfloat list" where
  "py_sorted nan_order xs = (if NaN \<in> set xs then nan_order xs else sort xs)"

subsection \<open>Rows\<close>

type_synonym metric_key = "int \<times> string \<times> string \<times> string"

record aggregated_row =
  ag_bucket :: int
  ag_tenant_id :: string
  ag_endpoint :: string
  ag_method :: string
  ag_total_requests :: int
  ag_status_2xx :: int
  ag_status_4xx :: int
  ag_status_5xx :: int
  ag_blocked_count :: int
  ag_latencies :: "pyfloat list"

definition new_row :: "metric_key \<Rightarrow> aggregated_row" where
  "new_row = (\<lambda>(bucket, tenant_id, endpoint, method).
     \<lparr>ag_bucket = bucket, ag_tenant_id = tenant_id, ag_endpoint = endpoint, ag_method = method,
      ag_total_requests = 0, ag_status_2xx = 0, ag_status_4xx = 0, ag_status_5xx = 0,
      ag_blocked_count = 0, ag_latencies = []\<rparr>)"

text \<open>The tuple \<open>as_tuple\<close> hands to the upsert; a missing percentile is SQL's \<open>NULL\<close>.\<close>

record upsert_row =
  up_key :: metric_key
  up_total_requests :: int
  up_status_2xx :: int
  up_status_4xx :: int
  up_status_5xx :: int
  up_blocked_count :: int
  up_p50 :: "pyfloat option"
  up_p99 :: "pyfloat option"

definition as_tuple :: "(pyfloat list \<Rightarrow> pyfloat list) \<Rightarrow> aggregated_row \<Rightarrow> upsert_row res" where
  "as_tuple nan_order row =
     (let lat = py_sorted nan_order (ag_latencies row);
          opt = (\<lambda>p. if lat = [] then Inr None else res_bind (percentile lat p) (\<lambda>x. Inr (Some x)))
      in res_bind (opt (50 / 100)) (\<lambda>p50.
         res_bind (opt (99 / 100)) (\<lambda>p99.
         Inr \<lparr>up_key = (ag_bucket row, ag_tenant_id row, ag_endpoint row, ag_method row),
              up_total_requests = ag_total_requests row, up_status_2xx = ag_status_2xx row,
              up_status_4xx = ag_status_4xx row, up_status_5xx = ag_status_5xx row,
              up_blocked_count = ag_blocked_count row, up_p50 = p50, up_p99 = p99\<rparr>)))"

text \<open>One event counted into its row: the body of the loop of \<open>aggregate_by_bucket\<close>.\<close>

definition count_event :: "parsed_event \<Rightarrow> aggregated_row \<Rightarrow> aggregated_row" where
  "count_event e row =
     (let row1 = row\<lparr>ag_total_requests := ag_total_requests row + 1\<rparr>;
          row2 = (if pe_rate_limited e then row1\<lparr>ag_blocked_count := ag_blocked_count row1 + 1\<rparr>
                  else row1\<lparr>ag_latencies := ag_latencies row1 @ [pe_latency_ms e]\<rparr>)
      in if 200 \<le> pe_status_code e \<and> pe_status_code e < 300
         then row2\<lparr>ag_status_2xx := ag_status_2xx row2 + 1\<rparr>
         else if 400 \<le> pe_status_code e \<and> pe_status_code e < 500
         then row2\<lparr>ag_status_4xx := ag_status_4xx row2 + 1\<rparr>
         else if pe_status_code e \<ge> 500
         then row2\<lparr>ag_status_5xx := ag_status_5xx row2 + 1\<rparr>
         else row2)"

fun aggregate_loop :: "parsed_event list \<Rightarrow> (metric_key, aggregated_row) dict \<Rightarrow>
    (metric_key, aggregated_row) dict res" where
  "aggregate_loop [] rows = Inr rows"
| "aggregate_loop (e # es) rows =
     (case minute_bucket (pe_timestamp_ms e) of
        Inl x \<Rightarrow> Inl x
      | Inr bucket \<Rightarrow>
          (let key = (bucket, pe_tenant_id e, pe_endpoint e, pe_method e);
               row = (case dict_get rows key of None \<Rightarrow> new_row key | Some row \<Rightarrow> row)
           in aggregate_loop es (dict_set key (count_event e row) rows)))"

definition aggregate_by_bucket :: "parsed_event list \<Rightarrow> aggregated_row list res" where
  "aggregate_by_bucket events = res_bind (aggregate_loop events []) (\<lambda>rows. Inr (map snd rows))"

subsection \<open>The loop equals grouping by key\<close>

definition event_key :: "parsed_event \<Rightarrow> metric_key" where
  "event_key e = (60 * (pe_timestamp_ms e div 60000), pe_tenant_id e, pe_endpoint e, pe_method e)"

definition status_in :: "int \<Rightarrow> int \<Rightarrow> parsed_event \<Rightarrow> bool" where
  "status_in lo hi e \<longleftrightarrow> lo \<le> pe_status_code e \<and> pe_status_code e < hi"

text \<open>The row that summarises a list of events under a key.\<close>

definition row_of :: "metric_key \<Rightarrow> parsed_event list \<Rightarrow> aggregated_row" where
  "row_of k es = (new_row k)\<lparr>
     ag_total_requests := int (length es),
     ag_status_2xx := int (length (filter (status_in 200 300) es)),
     ag_status_4xx := int (length (filter (status_in 400 500) es)),
     ag_status_5xx := int (length (filter (\<lambda>e. 500 \<le> pe_status_code e) es)),
     ag_blocked_count := int (length (filter pe_rate_limited es)),
     ag_latencies := map pe_latency_ms (filter (\<lambda>e. \<not> pe_rate_limited e) es)\<rparr>"

text \<open>The keys of a list of events, in order of first occurrence.\<close>

definition first_keys :: "parsed_event list \<Rightarrow> metric_key list" where
  "first_keys es = rev (remdups (rev (map event_key es)))"

definition grouped :: "parsed_event list \<Rightarrow> (metric_key, aggregated_row) dict" where
  "grouped es = map (\<lambda>k. (k, row_of k (filter (\<lambda>e. event_key e = k) es))) (first_keys es)"

lemma first_keys_Nil [simp]: "first_keys [] = []"
  by (simp add: first_keys_def)

lemma first_keys_snoc:
  "first_keys (es @ [e]) =
     (if event_key e \<in> set (first_keys es) then first_keys es else first_keys es @ [event_key e])"
  by (simp add: first_keys_def)

lemma set_first_keys [simp]: "set (first_keys es) = event_key ` set es"
  by (simp add: first_keys_def)

lemma distinct_first_keys [simp]: "distinct (first_keys es)"
  by (simp add: first_keys_def)

lemma new_row_simps [simp]:
  "ag_total_requests (new_row k) = 0" "ag_status_2xx (new_row k) = 0" "ag_status_4xx (new_row k) = 0"
  "ag_status_5xx (new_row k) = 0" "ag_blocked_count (new_row k) = 0" "ag_latencies (new_row k) = []"
  by (simp_all add: new_row_def split_beta)

lemma row_of_Nil: "row_of k [] = new_row k"
  by (simp add: row_of_def new_row_def split_beta)

lemma count_event_row_of: "count_event e (row_of k es) = row_of k (es @ [e])"
  by (simp add: count_event_def row_of_def status_in_def Let_def)

lemma aggregate_step:
  assumes "key = event_key e"
  shows "dict_set key (count_event e (case dict_get (grouped es) key of None \<Rightarrow> new_row key | Some row \<Rightarrow> row))
           (grouped es) = grouped (es @ [e])"
proof -
  let ?f = "\<lambda>k. row_of k (filter (\<lambda>e. event_key e = k) es)"
  have "(case dict_get (grouped es) key of None \<Rightarrow> new_row key | Some row \<Rightarrow> row) = ?f key"
  proof (cases "key \<in> set (first_keys es)")
    case False
    then have "filter (\<lambda>e. event_key e = key) es = []"
      by (auto simp: filter_empty_conv)
    with False show ?thesis unfolding grouped_def by (simp add: dict_simps row_of_Nil)
  qed (simp add: grouped_def dict_simps)
  then show ?thesis
    using assms
    by (auto simp: grouped_def dict_set_tabulate count_event_row_of first_keys_snoc)
qed

lemma aggregate_loop_grouped:
  "(\<forall>e \<in> set es. valid_timestamp (pe_timestamp_ms e)) \<Longrightarrow>
   aggregate_loop es (grouped done) = Inr (grouped (done @ es))"
proof (induction es arbitrary: "done")
  case (Cons e es)
  then have "aggregate_loop (e # es) (grouped done) = aggregate_loop es (grouped (done @ [e]))"
    by (simp add: minute_bucket_def Let_def event_key_def flip: aggregate_step)
  also have "\<dots> = Inr (grouped (done @ e # es))"
    using Cons.IH [of "done @ [e]"] Cons.prems by simp
  finally show ?case .
qed simp

lemma aggregate_loop_invalid:
  "aggregate_loop es rows = Inr rows' \<Longrightarrow> e \<in> set es \<Longrightarrow> valid_timestamp (pe_timestamp_ms e)"
  by (induction es arbitrary: rows)
     (auto simp: Let_def minute_bucket_Inr split: sum.splits)

lemma aggregate_by_bucket_iff:
  "aggregate_by_bucket es = Inr rows \<longleftrightarrow>
     (\<forall>e \<in> set es. valid_timestamp (pe_timestamp_ms e)) \<and>
     rows = map (\<lambda>k. row_of k (filter (\<lambda>e. event_key e = k) es)) (first_keys es)"
proof (cases "\<forall>e \<in> set es. valid_timestamp (pe_timestamp_ms e)")
  case True
  have "grouped [] = []" by (simp add: grouped_def)
  then have "aggregate_loop es [] = Inr (grouped es)"
    using aggregate_loop_grouped [OF True, of "[]"] by simp
  with True show ?thesis
    by (auto simp: aggregate_by_bucket_def grouped_def comp_def)
next
  case False
  then have "aggregate_loop es [] \<noteq> Inr rows'" for rows'
    using aggregate_loop_invalid by blast
  with False show ?thesis by (auto simp: aggregate_by_bucket_def res_bind_Inr_iff)
qed

text \<open>
  C25: \<open>aggregate_by_bucket\<close> returns exactly when every timestamp is one \<open>datetime\<close> can represent,
  and then its rows are, in order of first occurrence, one row per (minute, tenant, endpoint,
  method), each the summary of exactly the events with that key: their number, how many were
  2xx, 4xx, 5xx and rate limited, and the latencies of the others in order of arrival.
\<close>

theorem aggregate_by_bucket_groups:
  "aggregate_by_bucket es = Inr rows \<longleftrightarrow>
     (\<forall>e \<in> set es. valid_timestamp (pe_timestamp_ms e)) \<and>
     rows = map (\<lambda>k. row_of k (filter (\<lambda>e. event_key e = k) es)) (first_keys es)"
  by (rule aggregate_by_bucket_iff)

definition sample_event :: "int \<Rightarrow> int \<Rightarrow> bool \<Rightarrow> parsed_event" where
  "sample_event ts status blocked = \<lparr>pe_tenant_id = ''t1'', pe_endpoint = ''/proxy/get'', pe_method = ''GET'',
     pe_status_code = status, pe_latency_ms = Fin 10, pe_rate_limited = blocked, pe_timestamp_ms = ts,
     pe_traceparent = []\<rparr>"

theorem aggregate_by_bucket_groups_witness:
  "\<exists>r1 r2. aggregate_by_bucket [sample_event 1700000030000 200 False, sample_event 1700000090000 404 False,
      sample_event 1700000031000 429 True] = Inr [r1, r2] \<and>
     ag_total_requests r1 = 2 \<and> ag_blocked_count r1 = 1 \<and> ag_status_4xx r1 = 1 \<and> ag_total_requests r2 = 1"
  using aggregate_by_bucket_groups [of "[sample_event 1700000030000 200 False, sample_event 1700000090000 404 False,
      sample_event 1700000031000 429 True]"]
  by (simp add: sample_event_def valid_timestamp_def MIN_TIMESTAMP_MS_def MAX_TIMESTAMP_MS_def
        first_keys_def event_key_def row_of_def status_in_def)

subsection \<open>Percentiles are nearest-rank percentiles\<close>

lemma count_le_nth:
  assumes "sorted xs" "i < length xs"
  shows "Suc i \<le> length (filter (\<lambda>y. y \<le> xs ! i) xs)"
proof -
  have "filter (\<lambda>y. y \<le> xs ! i) (take (Suc i) xs) = take (Suc i) xs"
    using assms by (auto simp: filter_id_conv in_set_conv_nth sorted_iff_nth_mono)
  then have "length (filter (\<lambda>y. y \<le> xs ! i) (take (Suc i) xs)) = Suc i"
    using assms by simp
  moreover have "length (filter P (take n xs)) \<le> length (filter P xs)" for P n
    by (metis append_take_drop_id filter_append le_add1 length_append)
  ultimately show ?thesis by metis
qed

lemma count_less_nth:
  assumes "sorted xs" "i < length xs"
  shows "length (filter (\<lambda>y. y < xs ! i) xs) \<le> i"
proof -
  have "filter (\<lambda>y. y < xs ! i) (drop i xs) = []"
    using assms by (auto simp: filter_empty_conv in_set_conv_nth not_less sorted_iff_nth_mono)
  then have "filter (\<lambda>y. y < xs ! i) xs = filter (\<lambda>y. y < xs ! i) (take i xs)"
    by (metis append.right_neutral append_take_drop_id filter_append)
  then show ?thesis
    by (metis length_filter_le length_take min.bounded_iff)
qed

lemma percentile_rank:
  assumes "xs \<noteq> []" "0 < p" "p \<le> 1"
  obtains i where "percentile xs p = Inr (xs ! i)" "i < length xs"
    "real i < p * real (length xs)" "p * real (length xs) \<le> real (Suc i)"
proof -
  let ?n = "real (length xs)"
  let ?rank = "\<lceil>p * ?n\<rceil>"
  have pos: "0 < p * ?n" using assms by simp
  then have rank: "1 \<le> ?rank" by (metis ceiling_mono ceiling_one less_ceiling_iff linorder_not_le one_le_ceiling)
  have "p * ?n \<le> ?n" using assms by (simp add: mult_left_le_one_le)
  then have le: "?rank \<le> int (length xs)" by (simp add: ceiling_le_iff)
  define i where "i = nat (max 0 (?rank - 1))"
  have i: "int i = ?rank - 1" using rank by (simp add: i_def)
  with le have "i < length xs" by linarith
  moreover have "percentile xs p = Inr (xs ! i)"
    using assms(1) \<open>i < length xs\<close> by (simp add: percentile_def Let_def flip: i_def)
  moreover have "real i < p * ?n"
  proof -
    have "real_of_int (?rank - 1) < p * ?n" by linarith
    then show ?thesis using i by (metis of_int_of_nat_eq)
  qed
  moreover have "p * ?n \<le> real (Suc i)"
  proof -
    have "p * ?n \<le> real_of_int ?rank" by (rule le_of_int_ceiling)
    also have "\<dots> = real (Suc i)" using i by linarith
    finally show ?thesis .
  qed
  ultimately show thesis using that by blast
qed

text \<open>
  \<open>percentile\<close> is the nearest-rank percentile. For a non-empty sorted list and
  \<open>0 < p \<le> 1\<close> it returns (never raises) the least element \<open>x\<close> of the list such that at least
  a fraction \<open>p\<close> of the values is at most \<open>x\<close>: fewer than \<open>p * n\<close> values are below it.
\<close>

theorem percentile_nearest_rank:
  fixes xs :: "'a::linorder list"
  assumes "sorted xs" "xs \<noteq> []" "0 < p" "p \<le> 1"
  shows "\<exists>x \<in> set xs. percentile xs p = Inr x \<and>
           p * real (length xs) \<le> real (length (filter (\<lambda>y. y \<le> x) xs)) \<and>
           real (length (filter (\<lambda>y. y < x) xs)) < p * real (length xs)"
proof -
  obtain i where i: "percentile xs p = Inr (xs ! i)" "i < length xs"
    "real i < p * real (length xs)" "p * real (length xs) \<le> real (Suc i)"
    using percentile_rank [OF assms(2-)] .
  have "real (Suc i) \<le> real (length (filter (\<lambda>y. y \<le> xs ! i) xs))"
    "real (length (filter (\<lambda>y. y < xs ! i) xs)) \<le> real i"
    using count_le_nth [OF assms(1) i(2)] count_less_nth [OF assms(1) i(2)] by linarith+
  with i show ?thesis by (intro bexI [of _ "xs ! i"]) auto
qed

theorem percentile_nearest_rank_witness:
  "\<exists>x \<in> set [1, 2, 3, 4 :: real]. percentile [1, 2, 3, 4] (99 / 100) = Inr x \<and>
     99 / 100 * real (length [1, 2, 3, 4 :: real]) \<le> real (length (filter (\<lambda>y. y \<le> x) [1, 2, 3, 4])) \<and>
     real (length (filter (\<lambda>y. y < x) [1, 2, 3, 4])) < 99 / 100 * real (length [1, 2, 3, 4 :: real])"
  by (rule percentile_nearest_rank) simp_all

lemma percentile_mono:
  fixes xs :: "'a::linorder list"
  assumes "sorted xs" "xs \<noteq> []" "0 < p" "p \<le> q" "q \<le> 1"
    and "percentile xs p = Inr x" "percentile xs q = Inr y"
  shows "x \<le> y"
proof -
  from assms obtain i j where "x = xs ! i" "real i < p * real (length xs)"
    "y = xs ! j" "j < length xs" "q * real (length xs) \<le> real (Suc j)"
    by (metis Inr_inject dual_order.trans order_less_le_trans percentile_rank)
  moreover have "p * real (length xs) \<le> q * real (length xs)"
    using assms by (simp add: mult_right_mono)
  ultimately have "i \<le> j" by linarith
  with \<open>x = xs ! i\<close> \<open>y = xs ! j\<close> \<open>j < length xs\<close> assms(1) show ?thesis
    by (simp add: sorted_nth_mono)
qed

end
