(* ===== verification/Metrics_Table.thy ===== *)
theory Metrics_Table
  imports Aggregate
begin

section \<open>The metrics table and its upsert\<close>

text \<open>
  The table \<open>request_metrics\<close> and the statement \<open>UPSERT_SQL\<close> of
  \<open>consumers/analytics/worker.py\<close>: an insert whose conflict clause adds the counters of the new
  row to those of the stored row and merges the percentiles as a count-weighted average. The
  table is a map from its primary key; \<open>BIGINT\<close> counters are unbounded integers here.
\<close>

record metric =
  m_total_requests :: int
  m_status_2xx :: int
  m_status_4xx :: int
  m_status_5xx :: int
  m_blocked_count :: int
  m_p50_latency_ms :: "pyfloat option"
  m_p99_latency_ms :: "pyfloat option"

type_synonym metrics_table = "metric_key \<Rightarrow> metric option"

subsection \<open>The arithmetic of the conflict clause\<close>

text \<open>\<open>DOUBLE PRECISION\<close> arithmetic with an integer operand, and addition.\<close>

fun pf_times :: "pyfloat \<Rightarrow> int \<Rightarrow> pyfloat" where
  "pf_times (Fin x) n = Fin (x * real_of_int n)"
| "pf_times (PyInf neg) n = (if n = 0 then NaN else PyInf (neg \<noteq> (n < 0)))"
| "pf_times NaN n = NaN"

fun pf_add :: "pyfloat \<Rightarrow> pyfloat \<Rightarrow> pyfloat" where
  "pf_add (Fin x) (Fin y) = Fin (x + y)"
| "pf_add NaN _ = NaN"
| "pf_add _ NaN = NaN"
| "pf_add (PyInf a) (PyInf b) = (if a = b then PyInf a else NaN)"
| "pf_add (PyInf a) _ = PyInf a"
| "pf_add _ (PyInf b) = PyInf b"

fun pf_divide :: "pyfloat \<Rightarrow> int \<Rightarrow> pyfloat" where
  "pf_divide (Fin x) n = Fin (x / real_of_int n)"
| "pf_divide (PyInf neg) n = PyInf (neg \<noteq> (n < 0))"
| "pf_divide NaN n = NaN"

definition coalesce0 :: "pyfloat option \<Rightarrow> pyfloat" where
  "coalesce0 p = (case p of None \<Rightarrow> Fin 0 | Some x \<Rightarrow> x)"

text \<open>
  \<open>(COALESCE(old, 0) * n + COALESCE(new, 0) * m) / NULLIF(n + m, 0)\<close>, where \<open>n\<close> and \<open>m\<close> are the
  numbers of latency samples; dividing by \<open>NULL\<close> gives \<open>NULL\<close>.
\<close>

definition merge_percentile :: "pyfloat option \<Rightarrow> int \<Rightarrow> pyfloat option \<Rightarrow> int \<Rightarrow> pyfloat option" where
  "merge_percentile old n new m =
     (if n + m = 0 then None
      else Some (pf_divide (pf_add (pf_times (coalesce0 old) n) (pf_times (coalesce0 new) m)) (n + m)))"

definition upsert :: "upsert_row \<Rightarrow> metrics_table \<Rightarrow> metrics_table" where
  "upsert row tbl = tbl(up_key row \<mapsto>
     (case tbl (up_key row) of
        None \<Rightarrow> \<lparr>m_total_requests = up_total_requests row, m_status_2xx = up_status_2xx row,
                 m_status_4xx = up_status_4xx row, m_status_5xx = up_status_5xx row,
                 m_blocked_count = up_blocked_count row,
                 m_p50_latency_ms = up_p50 row, m_p99_latency_ms = up_p99 row\<rparr>
      | Some old \<Rightarrow>
          (let n = m_total_requests old - m_blocked_count old;
               m = up_total_requests row - up_blocked_count row
           in \<lparr>m_total_requests = m_total_requests old + up_total_requests row,
               m_status_2xx = m_status_2xx old + up_status_2xx row,
               m_status_4xx = m_status_4xx old + up_status_4xx row,
               m_status_5xx = m_status_5xx old + up_status_5xx row,
               m_blocked_count = m_blocked_count old + up_blocked_count row,
               m_p50_latency_ms = merge_percentile (m_p50_latency_ms old) n (up_p50 row) m,
               m_p99_latency_ms = merge_percentile (m_p99_latency_ms old) n (up_p99 row) m\<rparr>)))"

text \<open>\<open>executemany\<close> runs the statement for every row, in order, in one transaction.\<close>

definition upsert_many :: "upsert_row list \<Rightarrow> metrics_table \<Rightarrow> metrics_table" where
  "upsert_many rows tbl = fold upsert rows tbl"

subsection \<open>Counters add up\<close>

text \<open>The five counters of a stored row; an absent row counts nothing.\<close>

definition counters :: "metric option \<Rightarrow> int list" where
  "counters m = (case m of None \<Rightarrow> [0, 0, 0, 0, 0]
     | Some r \<Rightarrow> [m_total_requests r, m_status_2xx r, m_status_4xx r, m_status_5xx r, m_blocked_count r])"

text \<open>The five counts of the events with a given key.\<close>

definition event_counts :: "metric_key \<Rightarrow> parsed_event list \<Rightarrow> int list" where
  "event_counts k es = (let es' = filter (\<lambda>e. event_key e = k) es in
     [int (length es'), int (length (filter (status_in 200 300) es')),
      int (length (filter (status_in 400 500) es')),
      int (length (filter (\<lambda>e. 500 \<le> pe_status_code e) es')),
      int (length (filter pe_rate_limited es'))])"

definition row_counts :: "upsert_row \<Rightarrow> int list" where
  "row_counts row = [up_total_requests row, up_status_2xx row, up_status_4xx row, up_status_5xx row,
     up_blocked_count row]"

abbreviation add_counts :: "int list \<Rightarrow> int list \<Rightarrow> int list" where
  "add_counts \<equiv> map2 (+)"

lemma counters_upsert:
  "counters (upsert row tbl k) =
     (if k = up_key row then add_counts (counters (tbl k)) (row_counts row) else counters (tbl k))"
  by (auto simp: upsert_def counters_def row_counts_def Let_def split: option.splits)

lemma length_counters [simp]: "length (counters m) = 5"
  by (simp add: counters_def split: option.splits)

lemma add_counts_zero: "length xs = 5 \<Longrightarrow> add_counts xs [0, 0, 0, 0, 0] = xs"
  by (auto simp: numeral_eq_Suc length_Suc_conv)

lemma counters_upsert_many:
  assumes "distinct (map up_key rows)"
  shows "counters (upsert_many rows tbl k) =
     (case find (\<lambda>r. up_key r = k) rows of None \<Rightarrow> counters (tbl k)
      | Some r \<Rightarrow> add_counts (counters (tbl k)) (row_counts r))"
  using assms
proof (induction rows arbitrary: tbl)
  case (Cons r rows)
  have "find (\<lambda>r. up_key r = k) rows = None" if "up_key r = k"
    using Cons.prems that by (auto simp: find_None_iff) (metis image_eqI)
  with Cons show ?case
    by (auto simp: upsert_many_def counters_upsert split: option.splits)
qed (simp add: upsert_many_def)

subsection \<open>From events to the table\<close>

text \<open>The rows a batch of events is written as: \<open>[r.as_tuple() for r in rows]\<close>.\<close>

definition batch_rows :: "(pyfloat list \<Rightarrow> pyfloat list) \<Rightarrow> parsed_event list \<Rightarrow> upsert_row list res" where
  "batch_rows nan_order es = res_bind (aggregate_by_bucket es) (res_map (as_tuple nan_order))"

lemma percentile_total: "xs \<noteq> [] \<Longrightarrow> 0 < p \<Longrightarrow> p \<le> 1 \<Longrightarrow> \<exists>x. percentile xs p = Inr x"
  by (metis percentile_rank)

text \<open>What \<open>as_tuple\<close> makes of a row; it never raises.\<close>

definition tuple_ok :: "(pyfloat list \<Rightarrow> pyfloat list) \<Rightarrow> aggregated_row \<Rightarrow> upsert_row \<Rightarrow> bool" where
  "tuple_ok nan_order row up \<longleftrightarrow>
     up_key up = (ag_bucket row, ag_tenant_id row, ag_endpoint row, ag_method row) \<and>
     row_counts up = [ag_total_requests row, ag_status_2xx row, ag_status_4xx row, ag_status_5xx row,
       ag_blocked_count row] \<and>
     (up_p50 up = None \<longleftrightarrow> py_sorted nan_order (ag_latencies row) = []) \<and>
     (up_p99 up = None \<longleftrightarrow> py_sorted nan_order (ag_latencies row) = [])"

lemma as_tuple_total: "\<exists>up. as_tuple nan_order row = Inr up \<and> tuple_ok nan_order row up"
proof (cases "py_sorted nan_order (ag_latencies row) = []")
  case True
  then show ?thesis by (simp add: as_tuple_def row_counts_def tuple_ok_def Let_def)
next
  case False
  obtain x where "percentile (py_sorted nan_order (ag_latencies row)) (50 / 100) = Inr x"
    using percentile_total [OF False, of "50 / 100"] by auto
  moreover obtain y where "percentile (py_sorted nan_order (ag_latencies row)) (99 / 100) = Inr y"
    using percentile_total [OF False, of "99 / 100"] by auto
  ultimately show ?thesis using False by (simp add: as_tuple_def row_counts_def tuple_ok_def Let_def)
qed

text \<open>The tuple of a row, as a function.\<close>

definition tuple_of :: "(pyfloat list \<Rightarrow> pyfloat list) \<Rightarrow> aggregated_row \<Rightarrow> upsert_row" where
  "tuple_of nan_order row = projr (as_tuple nan_order row)"

lemma as_tuple_tuple_of: "as_tuple nan_order row = Inr (tuple_of nan_order row)"
  and tuple_of_ok: "tuple_ok nan_order row (tuple_of nan_order row)"
  using as_tuple_total [of nan_order row] by (auto simp: tuple_of_def)

lemma row_of_key [simp]:
  "(ag_bucket (row_of k es), ag_tenant_id (row_of k es), ag_endpoint (row_of k es), ag_method (row_of k es)) = k"
  by (cases k) (simp add: row_of_def new_row_def)

lemma batch_rows_Inr:
  "batch_rows nan_order es = Inr ups \<longleftrightarrow>
     (\<forall>e \<in> set es. valid_timestamp (pe_timestamp_ms e)) \<and>
     ups = map (\<lambda>k. tuple_of nan_order (row_of k (filter (\<lambda>e. event_key e = k) es))) (first_keys es)"
  by (auto simp: batch_rows_def res_bind_Inr_iff aggregate_by_bucket_iff res_map_total [OF as_tuple_tuple_of])

lemma tuple_of_key [simp]: "up_key (tuple_of nan_order (row_of k es)) = k"
  using tuple_of_ok [of nan_order "row_of k es"] by (simp add: tuple_ok_def)

lemma tuple_of_counts:
  "row_counts (tuple_of nan_order (row_of k (filter (\<lambda>e. event_key e = k) es))) = event_counts k es"
  using tuple_of_ok [of nan_order "row_of k (filter (\<lambda>e. event_key e = k) es)"]
  by (simp add: tuple_ok_def event_counts_def Let_def row_of_def)

lemma find_tabulated:
  "find (\<lambda>r. up_key r = k) (map (\<lambda>k. tuple_of nan_order (row_of k (f k))) ks) =
     (if k \<in> set ks then Some (tuple_of nan_order (row_of k (f k))) else None)"
  by (induction ks) auto

lemma event_counts_absent:
  "k \<notin> event_key ` set es \<Longrightarrow> event_counts k es = [0, 0, 0, 0, 0]"
proof -
  assume "k \<notin> event_key ` set es"
  then have "filter (\<lambda>e. event_key e = k) es = []" by (auto simp: filter_empty_conv)
  then show ?thesis by (simp add: event_counts_def)
qed

lemma counters_batch:
  assumes "batch_rows nan_order es = Inr ups"
  shows "counters (upsert_many ups tbl k) = add_counts (counters (tbl k)) (event_counts k es)"
proof -
  from assms have ups: "ups = map (\<lambda>k. tuple_of nan_order (row_of k (filter (\<lambda>e. event_key e = k) es))) (first_keys es)"
    by (simp add: batch_rows_Inr)
  then have "distinct (map up_key ups)" by (simp add: comp_def)
  then show ?thesis
    by (simp add: counters_upsert_many ups find_tabulated tuple_of_counts event_counts_absent add_counts_zero)
qed

lemma event_counts_append: "event_counts k (es1 @ es2) = add_counts (event_counts k es1) (event_counts k es2)"
  by (simp add: event_counts_def Let_def)

lemma add_counts_assoc: "add_counts (add_counts xs ys) zs = add_counts xs (add_counts ys zs)"
proof (induction xs arbitrary: ys zs)
  case (Cons x xs)
  then show ?case by (cases ys; cases zs) auto
qed simp

subsection \<open>Well-formed rows\<close>

text \<open>
  What the conflict clause relies on: \<open>total_requests - blocked_count\<close> is a number of samples,
  and a percentile is present exactly when there is a sample.
\<close>

definition metric_ok :: "metric \<Rightarrow> bool" where
  "metric_ok m \<longleftrightarrow>
     0 \<le> m_blocked_count m \<and> m_blocked_count m \<le> m_total_requests m \<and>
     0 \<le> m_status_2xx m \<and> 0 \<le> m_status_4xx m \<and> 0 \<le> m_status_5xx m \<and>
     m_status_2xx m + m_status_4xx m + m_status_5xx m \<le> m_total_requests m \<and>
     (m_p50_latency_ms m = None \<longleftrightarrow> m_total_requests m = m_blocked_count m) \<and>
     (m_p99_latency_ms m = None \<longleftrightarrow> m_total_requests m = m_blocked_count m)"

definition table_ok :: "metrics_table \<Rightarrow> bool" where
  "table_ok tbl \<longleftrightarrow> (\<forall>k m. tbl k = Some m \<longrightarrow> metric_ok m)"

definition upsert_row_ok :: "upsert_row \<Rightarrow> bool" where
  "upsert_row_ok r \<longleftrightarrow>
     0 \<le> up_blocked_count r \<and> up_blocked_count r \<le> up_total_requests r \<and>
     0 \<le> up_status_2xx r \<and> 0 \<le> up_status_4xx r \<and> 0 \<le> up_status_5xx r \<and>
     up_status_2xx r + up_status_4xx r + up_status_5xx r \<le> up_total_requests r \<and>
     (up_p50 r = None \<longleftrightarrow> up_total_requests r = up_blocked_count r) \<and>
     (up_p99 r = None \<longleftrightarrow> up_total_requests r = up_blocked_count r)"

lemma merge_percentile_None: "merge_percentile p n q m = None \<longleftrightarrow> n + m = 0"
  by (simp add: merge_percentile_def)

lemma upsert_ok: "table_ok tbl \<Longrightarrow> upsert_row_ok r \<Longrightarrow> table_ok (upsert r tbl)"
proof (cases "tbl (up_key r)")
  case None
  moreover assume "table_ok tbl" "upsert_row_ok r"
  ultimately show ?thesis by (auto simp: table_ok_def upsert_def metric_ok_def upsert_row_ok_def)
next
  case (Some old)
  moreover assume tbl: "table_ok tbl" and r: "upsert_row_ok r"
  ultimately have "metric_ok old" unfolding table_ok_def by blast
  with r have "metric_ok (the (upsert r tbl (up_key r)))"
    by (auto simp: upsert_def Some metric_ok_def upsert_row_ok_def Let_def merge_percentile_None)
  with tbl show ?thesis by (auto simp: table_ok_def upsert_def)
qed

lemma upsert_many_ok: "table_ok tbl \<Longrightarrow> (\<And>r. r \<in> set rows \<Longrightarrow> upsert_row_ok r) \<Longrightarrow> table_ok (upsert_many rows tbl)"
  unfolding upsert_many_def by (induction rows arbitrary: tbl) (simp_all add: upsert_ok)

lemma length_filter_partition:
  assumes "\<And>x. P x \<Longrightarrow> \<not> Q x" "\<And>x. P x \<Longrightarrow> \<not> R x" "\<And>x. Q x \<Longrightarrow> \<not> R x"
  shows "length (filter P xs) + length (filter Q xs) + length (filter R xs) \<le> length xs"
  using assms by (induction xs) fastforce+

text \<open>Python's \<open>sorted\<close> permutes its argument, NaN or not.\<close>

definition permuting :: "(pyfloat list \<Rightarrow> pyfloat list) \<Rightarrow> bool" where
  "permuting f \<longleftrightarrow> (\<forall>xs. mset (f xs) = mset xs)"

lemma py_sorted_Nil_iff: "permuting nan_order \<Longrightarrow> py_sorted nan_order xs = [] \<longleftrightarrow> xs = []"
  by (metis mset_sort mset_zero_iff permuting_def py_sorted_def)

lemma tuple_of_row_ok:
  assumes "permuting nan_order"
  shows "upsert_row_ok (tuple_of nan_order (row_of k es))"
proof -
  let ?t = "tuple_of nan_order (row_of k es)"
  have t: "up_total_requests ?t = int (length es)"
      "up_status_2xx ?t = int (length (filter (status_in 200 300) es))"
      "up_status_4xx ?t = int (length (filter (status_in 400 500) es))"
      "up_status_5xx ?t = int (length (filter (\<lambda>e. 500 \<le> pe_status_code e) es))"
      "up_blocked_count ?t = int (length (filter pe_rate_limited es))"
      "up_p50 ?t = None \<longleftrightarrow> (\<forall>e \<in> set es. pe_rate_limited e)"
      "up_p99 ?t = None \<longleftrightarrow> (\<forall>e \<in> set es. pe_rate_limited e)"
    using tuple_of_ok [of nan_order "row_of k es"]
    by (simp_all add: tuple_ok_def row_counts_def row_of_def py_sorted_Nil_iff [OF assms] filter_empty_conv)
  have all: "length es = length (filter pe_rate_limited es) \<longleftrightarrow> (\<forall>e \<in> set es. pe_rate_limited e)"
    by (metis filter_id_conv filter_True length_filter_less less_irrefl)
  have "length (filter (status_in 200 300) es) + length (filter (status_in 400 500) es)
      + length (filter (\<lambda>e. 500 \<le> pe_status_code e) es) \<le> length es"
    by (rule length_filter_partition) (auto simp: status_in_def)
  with all show ?thesis by (simp add: upsert_row_ok_def t)
qed

lemma batch_rows_ok:
  assumes "batch_rows nan_order es = Inr ups" "permuting nan_order" "r \<in> set ups"
  shows "upsert_row_ok r"
  using assms by (auto simp: batch_rows_Inr tuple_of_row_ok)

subsection \<open>Properties\<close>

text \<open>Two events for the witnesses, in one minute: a success and a blocked request.\<close>

definition ok_event :: parsed_event where
  "ok_event = sample_event 1700000030000 200 False"

definition blocked_event :: parsed_event where
  "blocked_event = sample_event 1700000031000 429 True"

lemma sample_rows:
  assumes "set es \<subseteq> {ok_event, blocked_event}"
  obtains ups where "batch_rows (\<lambda>xs. xs) es = Inr ups"
proof -
  have "\<forall>e \<in> set es. valid_timestamp (pe_timestamp_ms e)"
    using assms by (auto simp: ok_event_def blocked_event_def sample_event_def valid_timestamp_def
      MIN_TIMESTAMP_MS_def MAX_TIMESTAMP_MS_def)
  then show thesis using that by (simp add: batch_rows_Inr)
qed

text \<open>
  How events are split into batches is unobservable in the counters. Writing a batch and
  then another adds, for every key, exactly the number of its events, its 2xx, 4xx and 5xx and
  its rate-limited events of both batches to the stored counters, and leaves the same counters
  as writing both in one batch.
\<close>

theorem batches_add_up:
  assumes "batch_rows nan_order es1 = Inr ups1" "batch_rows nan_order es2 = Inr ups2"
    and "batch_rows nan_order (es1 @ es2) = Inr ups"
  shows "counters (upsert_many ups2 (upsert_many ups1 tbl) k) =
           add_counts (counters (tbl k)) (event_counts k (es1 @ es2)) \<and>
         counters (upsert_many ups2 (upsert_many ups1 tbl) k) = counters (upsert_many ups tbl k)"
  by (simp add: counters_batch [OF assms(1)] counters_batch [OF assms(2)] counters_batch [OF assms(3)]
        event_counts_append add_counts_assoc)

theorem batches_add_up_witness:
  "\<exists>u v. batch_rows (\<lambda>xs. xs) [ok_event] = Inr u \<and> batch_rows (\<lambda>xs. xs) [blocked_event] = Inr v \<and>
     counters (upsert_many v (upsert_many u Map.empty) (event_key ok_event)) = [2, 1, 1, 0, 1]"
proof -
  obtain u where u: "batch_rows (\<lambda>xs. xs) [ok_event] = Inr u"
    using sample_rows [of "[ok_event]"] by auto
  obtain v where v: "batch_rows (\<lambda>xs. xs) [blocked_event] = Inr v"
    using sample_rows [of "[blocked_event]"] by auto
  obtain w where w: "batch_rows (\<lambda>xs. xs) ([ok_event] @ [blocked_event]) = Inr w"
    using sample_rows [of "[ok_event] @ [blocked_event]"] by auto
  have "event_counts (event_key ok_event) ([ok_event] @ [blocked_event]) = [2, 1, 1, 0, 1]"
    by (simp add: event_counts_def event_key_def ok_event_def blocked_event_def sample_event_def status_in_def)
  with batches_add_up [OF u v w, of Map.empty "event_key ok_event"] u v show ?thesis
    by (auto simp: counters_def)
qed

text \<open>
  Writing a batch again counts it again: the upsert is an increment and not idempotent.
  After a batch has been written twice, the counters of every key hold every one of its events
  twice, so for the key of an event of the batch the table differs from the one after a single
  write.
\<close>

theorem replayed_batch_counts_twice:
  assumes "batch_rows nan_order es = Inr ups" "e \<in> set es"
  shows "counters (upsert_many ups (upsert_many ups tbl) k) =
           add_counts (counters (tbl k)) (add_counts (event_counts k es) (event_counts k es)) \<and>
         upsert_many ups (upsert_many ups tbl) (event_key e) \<noteq> upsert_many ups tbl (event_key e)"
proof
  show "counters (upsert_many ups (upsert_many ups tbl) k) =
           add_counts (counters (tbl k)) (add_counts (event_counts k es) (event_counts k es))"
    by (simp add: counters_batch [OF assms(1)] add_counts_assoc)
  have "filter (\<lambda>e'. event_key e' = event_key e) es \<noteq> []"
    using assms(2) by (auto simp: filter_empty_conv)
  then have "event_counts (event_key e) es ! 0 \<noteq> 0" by (simp add: event_counts_def Let_def)
  moreover have "counters (upsert_many ups (upsert_many ups tbl) (event_key e)) ! 0 =
      counters (upsert_many ups tbl (event_key e)) ! 0 + event_counts (event_key e) es ! 0"
    unfolding counters_batch [OF assms(1), where tbl = "upsert_many ups tbl"]
    by (simp add: event_counts_def Let_def)
  ultimately show "upsert_many ups (upsert_many ups tbl) (event_key e) \<noteq> upsert_many ups tbl (event_key e)"
    by force
qed

theorem replayed_batch_counts_twice_witness:
  "\<exists>u. batch_rows (\<lambda>xs. xs) [ok_event] = Inr u \<and>
     upsert_many u (upsert_many u Map.empty) (event_key ok_event) \<noteq> upsert_many u Map.empty (event_key ok_event)"
proof -
  obtain u where u: "batch_rows (\<lambda>xs. xs) [ok_event] = Inr u"
    using sample_rows [of "[ok_event]"] by auto
  with replayed_batch_counts_twice [OF u, of ok_event Map.empty] show ?thesis by auto
qed

text \<open>
  Every batch keeps the table well formed: blocked requests are at most the total, the
  status classes together at most the total, and a row has percentiles exactly when it has a
  request that was not blocked. This is the fact the conflict clause uses when it takes
  \<open>total_requests - blocked_count\<close> for the number of latency samples.
\<close>

theorem batch_keeps_table_ok:
  assumes "table_ok tbl" "permuting nan_order" "batch_rows nan_order es = Inr ups"
  shows "table_ok (upsert_many ups tbl)"
  using assms batch_rows_ok [OF assms(3,2)] by (intro upsert_many_ok) auto

theorem batch_keeps_table_ok_witness:
  "\<exists>u. batch_rows (\<lambda>xs. xs) [ok_event, blocked_event] = Inr u \<and> table_ok (upsert_many u Map.empty)"
proof -
  obtain u where u: "batch_rows (\<lambda>xs. xs) [ok_event, blocked_event] = Inr u"
    using sample_rows [of "[ok_event, blocked_event]"] by auto
  with batch_keeps_table_ok [of Map.empty "\<lambda>xs. xs", OF _ _ u] show ?thesis
    by (auto simp: table_ok_def permuting_def)
qed

text \<open>
  The merged percentile of two finite percentiles with at least one sample each is their
  sample-weighted average and lies between them; merging with a side that has no samples leaves
  the other side's percentile.
\<close>

theorem merge_percentile_weighted:
  assumes "0 < n" "0 < m"
  shows "\<exists>z. merge_percentile (Some (Fin x)) n (Some (Fin y)) m = Some (Fin z) \<and>
             z * real_of_int (n + m) = x * real_of_int n + y * real_of_int m \<and>
             min x y \<le> z \<and> z \<le> max x y \<and>
             merge_percentile None 0 (Some (Fin y)) m = Some (Fin y) \<and>
             merge_percentile (Some (Fin x)) n None 0 = Some (Fin x)"
proof -
  let ?n = "real_of_int n" and ?m = "real_of_int m"
  let ?z = "(x * ?n + y * ?m) / (?n + ?m)"
  have pos: "0 < ?n" "0 < ?m" using assms by simp_all
  then have "min x y * (?n + ?m) \<le> x * ?n + y * ?m" "x * ?n + y * ?m \<le> max x y * (?n + ?m)"
    by (simp_all add: distrib_left add_mono mult_right_mono)
  with pos have "min x y \<le> ?z" "?z \<le> max x y"
    by (simp_all add: pos_le_divide_eq pos_divide_le_eq)
  with assms pos show ?thesis
    by (intro exI [of _ ?z]) (auto simp: merge_percentile_def coalesce0_def)
qed

theorem merge_percentile_weighted_witness:
  "\<exists>z. merge_percentile (Some (Fin 10)) 3 (Some (Fin 20)) 1 = Some (Fin z) \<and>
             z * real_of_int (3 + 1) = 10 * real_of_int 3 + 20 * real_of_int 1 \<and>
             min 10 20 \<le> z \<and> z \<le> max 10 20 \<and>
             merge_percentile None 0 (Some (Fin 20)) 1 = Some (Fin 20) \<and>
             merge_percentile (Some (Fin 10)) 3 None 0 = Some (Fin 10)"
  by (rule merge_percentile_weighted) simp_all

end
