(* ===== verification/Redis_Stream.thy ===== *)
theory Redis_Stream
  imports Prelude
begin

section \<open>Redis streams with consumer groups, as an interface\<close>

text \<open>
  The stream commands the consumers use, as a record of operations over an abstract server
  state \<open>'r\<close>, and the locale \<open>redis_stream\<close> with their documented behaviour, for one stream and
  one group. An entry is delivered to a consumer by \<open>XREADGROUP >\<close> and is then in that
  consumer's pending entries list until it is acknowledged; \<open>XREADGROUP 0\<close> reads that list
  again; \<open>XAUTOCLAIM\<close> moves idle entries of other consumers to the caller. The fields of an
  entry never change, but the stream may be trimmed: a trimmed entry that is still pending is
  delivered with no fields, and \<open>XAUTOCLAIM\<close> drops it from the list.

  A command that fails at the client may or may not have taken effect on the server, so the
  laws about the server state hold whatever the result is. This is also how a process that is
  killed in the middle of a command appears.
\<close>

type_synonym stream_entry = "string \<times> (string, string) dict"

record 'r stream_ops =
  xgroup_create :: "string \<Rightarrow> string \<Rightarrow> 'r \<Rightarrow> unit res \<times> 'r"
  xreadgroup_new :: "string \<Rightarrow> string \<Rightarrow> string \<Rightarrow> nat \<Rightarrow> 'r \<Rightarrow> stream_entry list res \<times> 'r"
  xreadgroup_own :: "string \<Rightarrow> string \<Rightarrow> string \<Rightarrow> nat \<Rightarrow> 'r \<Rightarrow> stream_entry list res \<times> 'r"
  xautoclaim :: "string \<Rightarrow> string \<Rightarrow> string \<Rightarrow> int \<Rightarrow> string \<Rightarrow> nat \<Rightarrow> 'r \<Rightarrow> (string \<times> stream_entry list) res \<times> 'r"
  xack :: "string \<Rightarrow> string \<Rightarrow> string list \<Rightarrow> 'r \<Rightarrow> unit res \<times> 'r"
  xpending :: "string \<Rightarrow> string \<Rightarrow> 'r \<Rightarrow> int option res"

text \<open>
  \<open>content i\<close> are the fields under which the entry with id \<open>i\<close> was added, \<open>delivered r\<close> the ids
  the group has delivered so far, \<open>trimmed r\<close> the ids removed from the stream, \<open>pending r c\<close>
  the ids in the list of consumer \<open>c\<close>; \<open>serving r\<close> says that the server answers.
\<close>

definition as_delivered :: "(string \<Rightarrow> (string, string) dict) \<Rightarrow> string set \<Rightarrow> string \<Rightarrow> stream_entry" where
  "as_delivered content gone i = (i, if i \<in> gone then [] else content i)"

text \<open>The ids pending for any consumer.\<close>

definition unacked :: "(string \<Rightarrow> string list) \<Rightarrow> string set" where
  "unacked pend = (\<Union>c. set (pend c))"

locale redis_stream =
  fixes X :: "'r stream_ops"
    and stream group :: string
    and content :: "string \<Rightarrow> (string, string) dict"
    and delivered trimmed :: "'r \<Rightarrow> string set"
    and pending :: "'r \<Rightarrow> string \<Rightarrow> string list"
    and serving :: "'r \<Rightarrow> bool"
  assumes delivered_finite: "finite (delivered r)"
    and pending_distinct: "distinct (pending r c)"
    and pending_delivered: "set (pending r c) \<subseteq> delivered r"
    and create_views: "xgroup_create X stream group r = (u, r') \<Longrightarrow>
          delivered r' = delivered r \<and> trimmed r' = trimmed r \<and> pending r' = pending r"
    and new_views: "xreadgroup_new X group c stream n r = (msgs, r') \<Longrightarrow>
          \<exists>new. length new \<le> n \<and> distinct new \<and> set new \<inter> delivered r = {} \<and>
            delivered r' = delivered r \<union> set new \<and> trimmed r' = trimmed r \<and>
            pending r' = (pending r)(c := pending r c @ new) \<and>
            (\<forall>ms. msgs = Inr ms \<longrightarrow> ms = map (as_delivered content (trimmed r)) new)"
    and own_views: "xreadgroup_own X group c stream n r = (msgs, r') \<Longrightarrow>
          delivered r' = delivered r \<and> trimmed r' = trimmed r \<and> pending r' = pending r \<and>
          (\<forall>ms. msgs = Inr ms \<longrightarrow>
             ms = map (as_delivered content (trimmed r)) (take n (pending r c)))"
    and claim_views: "xautoclaim X stream group c idle cur n r = (cl, r') \<Longrightarrow>
          \<exists>claimed gone. length claimed \<le> n \<and> set claimed \<subseteq> unacked (pending r) \<and> gone \<subseteq> trimmed r \<and>
            delivered r' = delivered r \<and> trimmed r' = trimmed r \<and>
            (\<forall>c'. c' \<noteq> c \<longrightarrow> set (pending r' c') = set (pending r c') - set claimed - gone) \<and>
            set (pending r' c) = (set (pending r c) - gone) \<union> set claimed \<and> set claimed \<inter> gone = {} \<and>
            (\<forall>cur' ms. cl = Inr (cur', ms) \<longrightarrow>
               ms = map (as_delivered content (trimmed r)) claimed)"
    and ack_views: "xack X stream group ids r = (u, r') \<Longrightarrow>
          delivered r' = delivered r \<and> trimmed r' = trimmed r \<and>
          (pending r' = pending r \<or> pending r' = (\<lambda>c. filter (\<lambda>i. i \<notin> set ids) (pending r c))) \<and>
          (u = Inr () \<longrightarrow> pending r' = (\<lambda>c. filter (\<lambda>i. i \<notin> set ids) (pending r c)))"
    and create_serving: "serving r \<Longrightarrow> xgroup_create X stream group r = (u, r') \<Longrightarrow>
          (u = Inr () \<or> (\<exists>msg. u = Inl (ResponseError (''BUSYGROUP'' @ msg)))) \<and> serving r'"
    and new_serving: "serving r \<Longrightarrow> xreadgroup_new X group c stream n r = (msgs, r') \<Longrightarrow> \<not> isl msgs \<and> serving r'"
    and own_serving: "serving r \<Longrightarrow> xreadgroup_own X group c stream n r = (msgs, r') \<Longrightarrow> \<not> isl msgs \<and> serving r'"
    and claim_serving: "serving r \<Longrightarrow> xautoclaim X stream group c idle cur n r = (cl, r') \<Longrightarrow> \<not> isl cl \<and> serving r'"
    and ack_serving: "serving r \<Longrightarrow> xack X stream group ids r = (u, r') \<Longrightarrow> \<not> isl u \<and> serving r'"
begin

lemma unacked_delivered: "unacked (pending r) \<subseteq> delivered r"
  using pending_delivered by (auto simp: unacked_def)

lemma unacked_finite: "finite (unacked (pending r))"
  using delivered_finite unacked_delivered by (rule rev_finite_subset)

end

end
