(* ===== verification/Analytics_Worker.thy ===== *)
theory Analytics_Worker
  imports Metrics_Table Redis_Stream "HOL-Library.Sublist"
begin

section \<open>The analytics consumer\<close>

text \<open>
  \<open>consumers/analytics/worker.py\<close>: the process that drains the stream \<open>request_events\<close> into the
  table \<open>request_metrics\<close>. The world of the process is the pair of the Redis server and the
  database; every operation returns a result that may be an exception together with the next
  world, and an exception that reaches \<open>run\<close> ends the process. The two drain loops are partial
  functions: \<open>None\<close> is a loop that never ends, and the loops are shown to return.
\<close>

definition STREAM :: string where
  "STREAM = ''request_events''"

definition GROUP :: string where
  "GROUP = ''analytics-cg''"

definition BATCH_SIZE :: nat where
  "BATCH_SIZE = 1000"

lemma BATCH_SIZE_pos [simp]: "0 < BATCH_SIZE"
  by (simp add: BATCH_SIZE_def)

definition BATCH_MAX_WAIT_S :: real where
  "BATCH_MAX_WAIT_S = 5"

definition XAUTOCLAIM_IDLE_MS :: int where
  "XAUTOCLAIM_IDLE_MS = 30000"

definition ORPHAN_SWEEP_EVERY_S :: real where
  "ORPHAN_SWEEP_EVERY_S = 15"

subsection \<open>The database as an interface\<close>

text \<open>
  \<open>executemany\<close> of the upsert statement, in one transaction: it commits all rows or none. A
  failure at the client may hide a commit. \<open>table d\<close> is the committed table; the database
  accepts a batch when it is up and every key is storable (the tenant id is a UUID).
\<close>

record 'd db_ops =
  executemany :: "upsert_row list \<Rightarrow> 'd \<Rightarrow> unit res \<times> 'd"

locale metrics_db =
  fixes D :: "'d db_ops"
    and table :: "'d \<Rightarrow> metrics_table"
    and db_up :: "'d \<Rightarrow> bool"
    and storable :: "metric_key \<Rightarrow> bool"
  assumes many_table: "executemany D ups d = (x, d') \<Longrightarrow>
        table d' = table d \<and> isl x \<or> table d' = upsert_many ups (table d)"
    and many_up: "db_up d \<Longrightarrow> (\<forall>u \<in> set ups. storable (up_key u)) \<Longrightarrow> executemany D ups d = (x, d') \<Longrightarrow>
        \<not> isl x \<and> db_up d'"

subsection \<open>Operations\<close>

type_synonym nan_sort = "pyfloat list \<Rightarrow> pyfloat list"

definition ensure_consumer_group :: "'r stream_ops \<Rightarrow> 'r \<times> 'd \<Rightarrow> unit res \<times> ('r \<times> 'd)" where
  "ensure_consumer_group X = (\<lambda>(r, d).
     case xgroup_create X STREAM GROUP r of
       (Inr _, r') \<Rightarrow> (Inr (), (r', d))
     | (Inl (ResponseError msg), r') \<Rightarrow>
         (if \<not> sublist ''BUSYGROUP'' msg then Inl (ResponseError msg) else Inr (), (r', d))
     | (Inl e, r') \<Rightarrow> (Inl e, (r', d)))"

definition flush_batch :: "'r stream_ops \<Rightarrow> 'd db_ops \<Rightarrow> nan_sort \<Rightarrow> parsed_event list \<Rightarrow> string list \<Rightarrow>
    'r \<times> 'd \<Rightarrow> unit res \<times> ('r \<times> 'd)" where
  "flush_batch X D nan_order events msg_ids = (\<lambda>(r, d).
     case aggregate_by_bucket events of
       Inl e \<Rightarrow> (Inl e, (r, d))
     | Inr rows \<Rightarrow>
         (case (if rows = [] then (Inr (), d)
                else case res_map (as_tuple nan_order) rows of
                       Inl e \<Rightarrow> (Inl e, d)
                     | Inr ups \<Rightarrow> executemany D ups d) of
            (Inl e, d') \<Rightarrow> (Inl e, (r, d'))
          | (Inr _, d') \<Rightarrow>
              if msg_ids = [] then (Inr (), (r, d'))
              else (case xack X STREAM GROUP msg_ids r of
                      (Inl e, r') \<Rightarrow> (Inl e, (r', d'))
                    | (Inr _, r') \<Rightarrow> (Inr (), (r', d')))))"

text \<open>\<open>[e for _id, f in messages if (e := parse_event(f)) is not None]\<close>\<close>

definition parsed :: "stream_entry list \<Rightarrow> parsed_event list" where
  "parsed messages = List.map_filter (\<lambda>(_, f). parse_event f) messages"

partial_function (option) recover_loop :: "'r stream_ops \<Rightarrow> 'd db_ops \<Rightarrow> nan_sort \<Rightarrow> string \<Rightarrow>
    nat \<Rightarrow> 'r \<times> 'd \<Rightarrow> (nat res \<times> ('r \<times> 'd)) option" where
  "recover_loop X D nan_order consumer total_n w =
     (case xreadgroup_own X GROUP consumer STREAM BATCH_SIZE (fst w) of
        (Inl e, r') \<Rightarrow> Some (Inl e, (r', snd w))
      | (Inr messages, r') \<Rightarrow>
          if messages = [] then Some (Inr total_n, (r', snd w))
          else (case flush_batch X D nan_order (parsed messages) (map fst messages) (r', snd w) of
                  (Inl e, w') \<Rightarrow> Some (Inl e, w')
                | (Inr _, w') \<Rightarrow> recover_loop X D nan_order consumer (total_n + length messages) w'))"

definition recover_own_pending :: "'r stream_ops \<Rightarrow> 'd db_ops \<Rightarrow> nan_sort \<Rightarrow> string \<Rightarrow>
    'r \<times> 'd \<Rightarrow> (nat res \<times> ('r \<times> 'd)) option" where
  "recover_own_pending X D nan_order consumer w = recover_loop X D nan_order consumer 0 w"

partial_function (option) adopt_loop :: "'r stream_ops \<Rightarrow> 'd db_ops \<Rightarrow> nan_sort \<Rightarrow> string \<Rightarrow>
    string \<Rightarrow> nat \<Rightarrow> 'r \<times> 'd \<Rightarrow> (nat res \<times> ('r \<times> 'd)) option" where
  "adopt_loop X D nan_order consumer cursor total_n w =
     (case xautoclaim X STREAM GROUP consumer XAUTOCLAIM_IDLE_MS cursor 500 (fst w) of
        (Inl e, r') \<Rightarrow> Some (Inl e, (r', snd w))
      | (Inr (cursor', claimed), r') \<Rightarrow>
          (case (if claimed = [] then (Inr (), (r', snd w))
                 else flush_batch X D nan_order (parsed claimed) (map fst claimed) (r', snd w)) of
             (Inl e, w') \<Rightarrow> Some (Inl e, w')
           | (Inr _, w') \<Rightarrow>
               if cursor' = ''0-0'' \<or> claimed = [] then Some (Inr (total_n + length claimed), w')
               else adopt_loop X D nan_order consumer cursor' (total_n + length claimed) w'))"

definition adopt_orphaned_pending :: "'r stream_ops \<Rightarrow> 'd db_ops \<Rightarrow> nan_sort \<Rightarrow> string \<Rightarrow>
    'r \<times> 'd \<Rightarrow> (nat res \<times> ('r \<times> 'd)) option" where
  "adopt_orphaned_pending X D nan_order consumer w = adopt_loop X D nan_order consumer ''0-0'' 0 w"

subsection \<open>The main loop\<close>

text \<open>
  The local variables of \<open>run\<close> and the gauge it sets. An iteration reads the clock at most four
  times: at the age test of the batch, after a flush, at the sweep test and after a sweep.
\<close>

record loop_state =
  ls_batch :: "parsed_event list"
  ls_batch_ids :: "string list"
  ls_last_flush :: real
  ls_last_orphan_sweep :: real
  ls_consumer_lag :: "int option"

definition loop_start :: "real \<Rightarrow> real \<Rightarrow> loop_state" where
  "loop_start t0 t1 = \<lparr>ls_batch = [], ls_batch_ids = [], ls_last_flush = t0,
     ls_last_orphan_sweep = t1, ls_consumer_lag = None\<rparr>"

text \<open>The part of \<open>run\<close> before the loop.\<close>

definition startup :: "'r stream_ops \<Rightarrow> 'd db_ops \<Rightarrow> nan_sort \<Rightarrow> string \<Rightarrow>
    'r \<times> 'd \<Rightarrow> (unit res \<times> ('r \<times> 'd)) option" where
  "startup X D nan_order consumer w =
     (case ensure_consumer_group X w of
        (Inl e, w1) \<Rightarrow> Some (Inl e, w1)
      | (Inr _, w1) \<Rightarrow>
          (case recover_own_pending X D nan_order consumer w1 of
             None \<Rightarrow> None
           | Some (Inl e, w2) \<Rightarrow> Some (Inl e, w2)
           | Some (Inr _, w2) \<Rightarrow>
               (case adopt_orphaned_pending X D nan_order consumer w2 of
                  None \<Rightarrow> None
                | Some (Inl e, w3) \<Rightarrow> Some (Inl e, w3)
                | Some (Inr _, w3) \<Rightarrow> Some (Inr (), w3))))"

text \<open>Reading new entries into the batch: poison entries join \<open>batch_ids\<close> only.\<close>

definition read_new :: "'r stream_ops \<Rightarrow> string \<Rightarrow> loop_state \<Rightarrow> 'r \<times> 'd \<Rightarrow> loop_state res \<times> ('r \<times> 'd)" where
  "read_new X consumer st = (\<lambda>(r, d).
     case xreadgroup_new X GROUP consumer STREAM (max 1 (BATCH_SIZE - length (ls_batch st))) r of
       (Inl e, r') \<Rightarrow> (Inl e, (r', d))
     | (Inr messages, r') \<Rightarrow>
         (Inr (st\<lparr>ls_batch := ls_batch st @ parsed messages,
                  ls_batch_ids := ls_batch_ids st @ map fst messages\<rparr>), (r', d)))"

definition flush_due :: "real \<Rightarrow> loop_state \<Rightarrow> bool" where
  "flush_due now st \<longleftrightarrow> ls_batch_ids st \<noteq> [] \<and>
     (BATCH_SIZE \<le> length (ls_batch_ids st) \<or> now - ls_last_flush st \<ge> BATCH_MAX_WAIT_S)"

definition flush_if_due :: "'r stream_ops \<Rightarrow> 'd db_ops \<Rightarrow> nan_sort \<Rightarrow> real \<Rightarrow> real \<Rightarrow> loop_state \<Rightarrow>
    'r \<times> 'd \<Rightarrow> loop_state res \<times> ('r \<times> 'd)" where
  "flush_if_due X D nan_order t1 t2 st w =
     (if flush_due t1 st
      then (case flush_batch X D nan_order (ls_batch st) (ls_batch_ids st) w of
              (Inl e, w') \<Rightarrow> (Inl e, w')
            | (Inr _, w') \<Rightarrow> (Inr (st\<lparr>ls_batch := [], ls_batch_ids := [], ls_last_flush := t2\<rparr>), w'))
      else (Inr st, w))"

definition sweep_if_due :: "'r stream_ops \<Rightarrow> 'd db_ops \<Rightarrow> nan_sort \<Rightarrow> string \<Rightarrow> real \<Rightarrow> real \<Rightarrow> loop_state \<Rightarrow>
    'r \<times> 'd \<Rightarrow> (loop_state res \<times> ('r \<times> 'd)) option" where
  "sweep_if_due X D nan_order consumer t3 t4 st w =
     (if t3 - ls_last_orphan_sweep st \<ge> ORPHAN_SWEEP_EVERY_S
      then (case adopt_orphaned_pending X D nan_order consumer w of
              None \<Rightarrow> None
            | Some (Inl e, w') \<Rightarrow> Some (Inl e, w')
            | Some (Inr _, w') \<Rightarrow>
                (case xpending X STREAM GROUP (fst w') of
                   Inl e \<Rightarrow> Some (Inl e, w')
                 | Inr summary \<Rightarrow>
                     Some (Inr (st\<lparr>ls_consumer_lag := Some (case summary of None \<Rightarrow> 0 | Some n \<Rightarrow> n),
                                   ls_last_orphan_sweep := t4\<rparr>), w')))
      else Some (Inr st, w))"

definition run_iteration :: "'r stream_ops \<Rightarrow> 'd db_ops \<Rightarrow> nan_sort \<Rightarrow> string \<Rightarrow>
    real \<times> real \<times> real \<times> real \<Rightarrow> loop_state \<Rightarrow> 'r \<times> 'd \<Rightarrow> (loop_state res \<times> ('r \<times> 'd)) option" where
  "run_iteration X D nan_order consumer = (\<lambda>(t1, t2, t3, t4) st w.
     case read_new X consumer st w of
       (Inl e, w1) \<Rightarrow> Some (Inl e, w1)
     | (Inr st1, w1) \<Rightarrow>
         (case flush_if_due X D nan_order t1 t2 st1 w1 of
            (Inl e, w2) \<Rightarrow> Some (Inl e, w2)
          | (Inr st2, w2) \<Rightarrow> sweep_if_due X D nan_order consumer t3 t4 st2 w2))"

text \<open>
  The system: any number of consumer processes by name, each either not running or in its main
  loop. A process starts, iterates, dies of an exception or is killed; meanwhile the server and
  the database change by themselves (\<open>env\<close>, \<open>denv\<close>: entries are added and trimmed, time
  passes, connections come and go).
\<close>

record ('r, 'd) system =
  sys_redis :: 'r
  sys_db :: 'd
  sys_procs :: "string \<Rightarrow> loop_state option"

inductive analytics_system :: "'r stream_ops \<Rightarrow> 'd db_ops \<Rightarrow> nan_sort \<Rightarrow> ('r \<Rightarrow> 'r \<Rightarrow> bool) \<Rightarrow> ('d \<Rightarrow> 'd \<Rightarrow> bool) \<Rightarrow>
    'r \<Rightarrow> 'd \<Rightarrow> ('r, 'd) system \<Rightarrow> bool"
  for X D nan_order env denv r0 d0 where
  sys_init: "analytics_system X D nan_order env denv r0 d0 \<lparr>sys_redis = r0, sys_db = d0, sys_procs = (\<lambda>_. None)\<rparr>"
| sys_start: "analytics_system X D nan_order env denv r0 d0 s \<Longrightarrow> sys_procs s c = None \<Longrightarrow>
     startup X D nan_order c (sys_redis s, sys_db s) = Some (x, (r', d')) \<Longrightarrow>
     p = (case x of Inl _ \<Rightarrow> None | Inr _ \<Rightarrow> Some (loop_start t0 t1)) \<Longrightarrow>
     analytics_system X D nan_order env denv r0 d0
       \<lparr>sys_redis = r', sys_db = d', sys_procs = (sys_procs s)(c := p)\<rparr>"
| sys_iterate: "analytics_system X D nan_order env denv r0 d0 s \<Longrightarrow> sys_procs s c = Some st \<Longrightarrow>
     run_iteration X D nan_order c ts st (sys_redis s, sys_db s) = Some (x, (r', d')) \<Longrightarrow>
     p = (case x of Inl _ \<Rightarrow> None | Inr st' \<Rightarrow> Some st') \<Longrightarrow>
     analytics_system X D nan_order env denv r0 d0
       \<lparr>sys_redis = r', sys_db = d', sys_procs = (sys_procs s)(c := p)\<rparr>"
| sys_kill: "analytics_system X D nan_order env denv r0 d0 s \<Longrightarrow>
     analytics_system X D nan_order env denv r0 d0 (s\<lparr>sys_procs := (sys_procs s)(c := None)\<rparr>)"
| sys_env: "analytics_system X D nan_order env denv r0 d0 s \<Longrightarrow> env (sys_redis s) r' \<Longrightarrow>
     analytics_system X D nan_order env denv r0 d0 (s\<lparr>sys_redis := r'\<rparr>)"
| sys_denv: "analytics_system X D nan_order env denv r0 d0 s \<Longrightarrow> denv (sys_db s) d' \<Longrightarrow>
     analytics_system X D nan_order env denv r0 d0 (s\<lparr>sys_db := d'\<rparr>)"

end
