(* ===== verification/Stream_Ref.thy ===== *)
theory Stream_Ref
  imports Analytics_Worker
begin

section \<open>Reference stream server and database\<close>

text \<open>
  Small functional instances of the interfaces \<open>redis_stream\<close> and \<open>metrics_db\<close>, at which the
  witnesses apply the theorems about the consumers. Entries are numbered in the order they are
  added; the pending entries of the group are one list of entries with their owner, and every
  pending entry counts as idle. No component is defined over them.
\<close>

record ref_stream =
  rs_up :: bool
  rs_len :: nat
  rs_next :: nat
  rs_gone :: nat
  rs_pel :: "(nat \<times> string) list"

definition entry_id :: "nat \<Rightarrow> string" where
  "entry_id n = str_int (int n) @ ''-0''"

lemma entry_id_inj [simp]: "entry_id m = entry_id n \<longleftrightarrow> m = n"
proof
  assume "entry_id m = entry_id n"
  then have "int_of_str (str_int (int m)) = int_of_str (str_int (int n))" by (simp add: entry_id_def)
  then show "m = n" by simp
qed simp

lemma inj_entry_id: "inj_on entry_id A"
  by (simp add: inj_on_def)

definition rs_norm :: "ref_stream \<Rightarrow> (nat \<times> string) list" where
  "rs_norm r = filter (\<lambda>p. fst p < rs_next r) (AList.clearjunk (rs_pel r))"

definition rs_delivered :: "ref_stream \<Rightarrow> string set" where
  "rs_delivered r = entry_id ` {..<rs_next r}"

definition rs_trimmed :: "ref_stream \<Rightarrow> string set" where
  "rs_trimmed r = entry_id ` {..<rs_gone r}"

definition rs_pending :: "ref_stream \<Rightarrow> string \<Rightarrow> string list" where
  "rs_pending r c = map (entry_id \<circ> fst) (filter (\<lambda>p. snd p = c) (rs_norm r))"

definition rs_claim :: "string \<Rightarrow> nat \<Rightarrow> ref_stream \<Rightarrow> nat list" where
  "rs_claim c n r = take n (map fst (filter (\<lambda>p. snd p \<noteq> c) (rs_norm r)))"

definition ref_stream_ops :: "(string \<Rightarrow> (string, string) dict) \<Rightarrow> ref_stream stream_ops" where
  "ref_stream_ops content = \<lparr>
     xgroup_create = (\<lambda>_ _ r. (if rs_up r then Inl (ResponseError ''BUSYGROUP Consumer Group name already exists'')
        else Inl RedisConnectionError, r)),
     xreadgroup_new = (\<lambda>_ c _ n r. if \<not> rs_up r then (Inl RedisConnectionError, r)
        else let new = [rs_next r ..< min (rs_next r + n) (rs_len r)] in
          (Inr (map (as_delivered content (rs_trimmed r) \<circ> entry_id) new),
           r\<lparr>rs_next := rs_next r + length new, rs_pel := rs_norm r @ map (\<lambda>i. (i, c)) new\<rparr>)),
     xreadgroup_own = (\<lambda>_ c _ n r. if \<not> rs_up r then (Inl RedisConnectionError, r)
        else (Inr (map (as_delivered content (rs_trimmed r)) (take n (rs_pending r c))), r)),
     xautoclaim = (\<lambda>_ _ c _ _ n r. if \<not> rs_up r then (Inl RedisConnectionError, r)
        else let cl = rs_claim c n r in
          (Inr (if n < length (filter (\<lambda>p. snd p \<noteq> c) (rs_norm r)) then entry_id (last cl) else ''0-0'',
                map (as_delivered content (rs_trimmed r) \<circ> entry_id) cl),
           r\<lparr>rs_pel := map (\<lambda>(i, o'). (i, if i \<in> set cl then c else o')) (rs_norm r)\<rparr>)),
     xack = (\<lambda>_ _ ids r. if \<not> rs_up r then (Inl RedisConnectionError, r)
        else (Inr (), r\<lparr>rs_pel := filter (\<lambda>p. entry_id (fst p) \<notin> set ids) (rs_norm r)\<rparr>)),
     xpending = (\<lambda>_ _ r. if rs_up r then Inr (Some (int (length (rs_norm r)))) else Inl RedisConnectionError)\<rparr>"

lemma distinct_rs_norm: "distinct (map fst (rs_norm r))"
  unfolding rs_norm_def by (rule distinct_map_filter) (rule distinct_clearjunk)

lemma rs_norm_id: "distinct (map fst xs) \<Longrightarrow> \<forall>p \<in> set xs. fst p < n \<Longrightarrow>
    rs_norm (r\<lparr>rs_next := n, rs_pel := xs\<rparr>) = xs"
  by (simp add: rs_norm_def distinct_clearjunk_id)

lemma rs_norm_id': "distinct (map fst xs) \<Longrightarrow> \<forall>p \<in> set xs. fst p < rs_next r \<Longrightarrow>
    rs_norm (r\<lparr>rs_pel := xs\<rparr>) = xs"
  by (simp add: rs_norm_def distinct_clearjunk_id)

lemma rs_norm_less: "p \<in> set (rs_norm r) \<Longrightarrow> fst p < rs_next r"
  by (simp add: rs_norm_def)

lemma rs_pending_new:
  assumes "new = [rs_next r ..< m]"
  shows "rs_pending (r\<lparr>rs_next := rs_next r + length new, rs_pel := rs_norm r @ map (\<lambda>i. (i, c)) new\<rparr>) =
    (rs_pending r)(c := rs_pending r c @ map entry_id new)"
proof -
  have "rs_norm (r\<lparr>rs_next := rs_next r + length new, rs_pel := rs_norm r @ map (\<lambda>i. (i, c)) new\<rparr>) =
      rs_norm r @ map (\<lambda>i. (i, c)) new"
    using assms distinct_rs_norm [of r]
    by (intro rs_norm_id) (auto simp: comp_def dest!: rs_norm_less)
  then show ?thesis by (auto simp: rs_pending_def filter_map comp_def fun_eq_iff)
qed

lemma rs_pending_ack:
  "rs_pending (r\<lparr>rs_pel := filter (\<lambda>p. entry_id (fst p) \<notin> set ids) (rs_norm r)\<rparr>) =
    (\<lambda>c. filter (\<lambda>i. i \<notin> set ids) (rs_pending r c))"
proof -
  have "rs_norm (r\<lparr>rs_pel := filter (\<lambda>p. entry_id (fst p) \<notin> set ids) (rs_norm r)\<rparr>) =
      filter (\<lambda>p. entry_id (fst p) \<notin> set ids) (rs_norm r)"
    using distinct_rs_norm [of r] rs_norm_less [of _ r] by (intro rs_norm_id') (auto intro: distinct_map_filter)
  then show ?thesis by (auto simp: rs_pending_def filter_map comp_def fun_eq_iff conj_commute)
qed

lemma set_rs_pending: "set (rs_pending r c) = {entry_id i |i. (i, c) \<in> set (rs_norm r)}"
  by (force simp: rs_pending_def)

lemma unacked_rs: "unacked (rs_pending r) = entry_id ` fst ` set (rs_norm r)"
  by (force simp: unacked_def set_rs_pending)

lemma rs_claim_owned: "i \<in> set (rs_claim c n r) \<Longrightarrow> \<exists>c'. c' \<noteq> c \<and> (i, c') \<in> set (rs_norm r)"
  unfolding rs_claim_def by (auto dest!: in_set_takeD) blast

lemma rs_norm_claim:
  "rs_norm (r\<lparr>rs_pel := map (\<lambda>(i, o'). (i, if i \<in> set cl then c else o')) (rs_norm r)\<rparr>) =
     map (\<lambda>(i, o'). (i, if i \<in> set cl then c else o')) (rs_norm r)"
  using distinct_rs_norm [of r] rs_norm_less [of _ r]
  by (intro rs_norm_id') (auto simp: comp_def split_beta)

lemma set_rs_pending_claim:
  assumes "cl = rs_claim c n r"
  shows "set (rs_pending (r\<lparr>rs_pel := map (\<lambda>(i, o'). (i, if i \<in> set cl then c else o')) (rs_norm r)\<rparr>) c') =
     (if c' = c then set (rs_pending r c) \<union> entry_id ` set cl else set (rs_pending r c') - entry_id ` set cl)"
proof -
  have mem: "(i, x) \<in> set (map (\<lambda>(i, o'). (i, if i \<in> set cl then c else o')) (rs_norm r)) \<longleftrightarrow>
      (\<exists>o'. (i, o') \<in> set (rs_norm r) \<and> x = (if i \<in> set cl then c else o'))" for i x
    by force
  have "\<exists>o'. (i, o') \<in> set (rs_norm r)" if "i \<in> set cl" for i
    using rs_claim_owned that assms by blast
  then show ?thesis unfolding set_rs_pending rs_norm_claim mem by (auto split: if_splits)
qed

text \<open>The two commands that hand out entries keep the stream's contract.\<close>

lemma ref_new_views:
  assumes "xreadgroup_new (ref_stream_ops content) g c s n r = (msgs, r')"
  shows "\<exists>new. length new \<le> n \<and> distinct new \<and> set new \<inter> rs_delivered r = {} \<and>
      rs_delivered r' = rs_delivered r \<union> set new \<and> rs_trimmed r' = rs_trimmed r \<and>
      rs_pending r' = (rs_pending r)(c := rs_pending r c @ new) \<and>
      (\<forall>ms. msgs = Inr ms \<longrightarrow> ms = map (as_delivered content (rs_trimmed r)) new)"
proof (cases "rs_up r")
  case True
  let ?new = "[rs_next r ..< min (rs_next r + n) (rs_len r)]"
  have r': "r' = r\<lparr>rs_next := rs_next r + length ?new, rs_pel := rs_norm r @ map (\<lambda>i. (i, c)) ?new\<rparr>"
    and msgs: "msgs = Inr (map (as_delivered content (rs_trimmed r)) (map entry_id ?new))"
    using assms True by (simp_all add: ref_stream_ops_def Let_def)
  have "{..<rs_next r + length ?new} = {..<rs_next r} \<union> set ?new" by auto
  then have "rs_delivered r' = rs_delivered r \<union> set (map entry_id ?new)"
    by (simp add: r' rs_delivered_def image_Un)
  moreover have "rs_pending r' = (rs_pending r)(c := rs_pending r c @ map entry_id ?new)"
    unfolding r' by (rule rs_pending_new [OF refl])
  moreover have "rs_trimmed r' = rs_trimmed r" by (simp add: r' rs_trimmed_def)
  ultimately show ?thesis
    by (intro exI [of _ "map entry_id ?new"]) (auto simp: msgs rs_delivered_def distinct_map inj_entry_id)
qed (use assms in \<open>auto simp: ref_stream_ops_def intro!: exI [of _ "[]"]\<close>)

lemma ref_claim_views:
  assumes "xautoclaim (ref_stream_ops content) s g c idle cur n r = (cl, r')"
  shows "\<exists>claimed gone. length claimed \<le> n \<and> set claimed \<subseteq> unacked (rs_pending r) \<and> gone \<subseteq> rs_trimmed r \<and>
      rs_delivered r' = rs_delivered r \<and> rs_trimmed r' = rs_trimmed r \<and>
      (\<forall>c'. c' \<noteq> c \<longrightarrow> set (rs_pending r' c') = set (rs_pending r c') - set claimed - gone) \<and>
      set (rs_pending r' c) = (set (rs_pending r c) - gone) \<union> set claimed \<and> set claimed \<inter> gone = {} \<and>
      (\<forall>cur' ms. cl = Inr (cur', ms) \<longrightarrow> ms = map (as_delivered content (rs_trimmed r)) claimed)"
proof (cases "rs_up r")
  case True
  let ?cl = "rs_claim c n r"
  have r': "r' = r\<lparr>rs_pel := map (\<lambda>(i, o'). (i, if i \<in> set ?cl then c else o')) (rs_norm r)\<rparr>"
    and ms: "\<And>cur' ms. cl = Inr (cur', ms) \<Longrightarrow> ms = map (as_delivered content (rs_trimmed r)) (map entry_id ?cl)"
    using assms True by (auto simp: ref_stream_ops_def Let_def)
  have "set (map entry_id ?cl) \<subseteq> unacked (rs_pending r)"
    using rs_claim_owned by (force simp: unacked_rs)
  moreover have "length ?cl \<le> n" by (simp add: rs_claim_def)
  moreover have "rs_delivered r' = rs_delivered r" "rs_trimmed r' = rs_trimmed r"
    by (simp_all add: r' rs_delivered_def rs_trimmed_def)
  ultimately show ?thesis using ms
    by (intro exI [of _ "map entry_id ?cl"] exI [of _ "{}"]) (simp add: r' set_rs_pending_claim)
qed (use assms in \<open>auto simp: ref_stream_ops_def intro!: exI [of _ "[]"] exI [of _ "{}"]\<close>)

interpretation ref_stream: redis_stream "ref_stream_ops content" stream group content
  rs_delivered rs_trimmed rs_pending rs_up for content stream group
proof
  fix r c
  show "finite (rs_delivered r)" by (simp add: rs_delivered_def)
  show "distinct (rs_pending r c)"
    using distinct_rs_norm [of r] unfolding rs_pending_def
    by (auto simp: distinct_map inj_on_def dest: distinct_filter)
  show "set (rs_pending r c) \<subseteq> rs_delivered r"
    using rs_norm_less by (fastforce simp: set_rs_pending rs_delivered_def)
next
  fix r u r'
  assume "xgroup_create (ref_stream_ops content) stream group r = (u, r')"
  then show "rs_delivered r' = rs_delivered r \<and> rs_trimmed r' = rs_trimmed r \<and> rs_pending r' = rs_pending r"
    by (simp add: ref_stream_ops_def)
next
  fix c n r msgs r'
  assume "xreadgroup_own (ref_stream_ops content) group c stream n r = (msgs, r')"
  then show "rs_delivered r' = rs_delivered r \<and> rs_trimmed r' = rs_trimmed r \<and> rs_pending r' = rs_pending r \<and>
      (\<forall>ms. msgs = Inr ms \<longrightarrow> ms = map (as_delivered content (rs_trimmed r)) (take n (rs_pending r c)))"
    by (auto simp: ref_stream_ops_def split: if_splits)
next
  fix ids r u r'
  assume "xack (ref_stream_ops content) stream group ids r = (u, r')"
  then show "rs_delivered r' = rs_delivered r \<and> rs_trimmed r' = rs_trimmed r \<and>
      (rs_pending r' = rs_pending r \<or> rs_pending r' = (\<lambda>c. filter (\<lambda>i. i \<notin> set ids) (rs_pending r c))) \<and>
      (u = Inr () \<longrightarrow> rs_pending r' = (\<lambda>c. filter (\<lambda>i. i \<notin> set ids) (rs_pending r c)))"
    by (auto simp: ref_stream_ops_def rs_pending_ack rs_delivered_def rs_trimmed_def split: if_splits)
qed (erule ref_new_views | erule ref_claim_views | auto simp: ref_stream_ops_def Let_def split: if_splits; fail)+

subsection \<open>The database\<close>

record ref_db =
  rd_up :: bool
  rd_table :: metrics_table

definition ref_db_ops :: "ref_db db_ops" where
  "ref_db_ops = \<lparr>executemany = (\<lambda>ups d. if rd_up d then (Inr (), d\<lparr>rd_table := upsert_many ups (rd_table d)\<rparr>)
     else (Inl DatabaseError, d))\<rparr>"

interpretation ref_db: metrics_db ref_db_ops rd_table rd_up "\<lambda>_. True"
  by unfold_locales (auto simp: ref_db_ops_def split: if_splits)

end
