(* ===== verification/Analytics_Delivery.thy ===== *)
theory Analytics_Delivery
  imports Stream_Ref
begin

section \<open>Delivery guarantees of the analytics consumer\<close>

text \<open>
  What write-then-acknowledge buys. The ledger of a run is the list of stream ids whose events
  have been written; the invariant of the system says that the table holds exactly the events of
  the ledger and that every acknowledged entry that was not trimmed is on it. It is preserved by
  every operation on every branch, exceptions included, so it survives any number of crashes
  and any interleaving of consumers. The drain loops are shown to return, and to wedge on an
  entry whose timestamp no \<open>datetime\<close> can represent.
\<close>

subsection \<open>Events of entries\<close>

definition events_of :: "(string \<Rightarrow> entry_fields) \<Rightarrow> string list \<Rightarrow> parsed_event list" where
  "events_of content ids = List.map_filter (\<lambda>i. parse_event (content i)) ids"

lemma parse_event_Nil [simp]: "parse_event [] = None"
  by (simp add: parse_event_def parse_fields_def get_field_def)

lemma events_of_simps [simp]:
  "events_of content [] = []" "events_of content (xs @ ys) = events_of content xs @ events_of content ys"
  by (simp_all add: events_of_def map_filter_def)

lemma parsed_delivered:
  "parsed (map (as_delivered content gone) ids) = events_of content (filter (\<lambda>i. i \<notin> gone) ids)"
  by (induction ids) (auto simp: parsed_def events_of_def as_delivered_def map_filter_def)

lemma parsed_length: "length (parsed ms) \<le> length ms"
  by (simp add: parsed_def map_filter_def)

lemma fst_as_delivered [simp]: "fst (as_delivered content gone i) = i"
  by (simp add: as_delivered_def)

lemma map_fst_as_delivered [simp]: "map (fst \<circ> as_delivered content gone) ids = ids"
  by (rule map_idI) simp

lemma in_events_of: "e \<in> set (events_of content ids) \<longleftrightarrow> (\<exists>i \<in> set ids. parse_event (content i) = Some e)"
  by (force simp: events_of_def map_filter_def)

subsection \<open>The outcomes of a flush\<close>

definition committed :: "nan_sort \<Rightarrow> parsed_event list \<Rightarrow> metrics_table \<Rightarrow> metrics_table \<Rightarrow> bool" where
  "committed nan_order es tbl tbl' \<longleftrightarrow> (\<exists>ups. batch_rows nan_order es = Inr ups \<and> tbl' = upsert_many ups tbl)"

lemma committed_counters:
  "committed nan_order es tbl tbl' \<Longrightarrow> counters (tbl' k) = add_counts (counters (tbl k)) (event_counts k es)"
  by (auto simp: committed_def counters_batch)

text \<open>Entries whose events the table can hold.\<close>

definition flushable :: "(string \<Rightarrow> entry_fields) \<Rightarrow> (metric_key \<Rightarrow> bool) \<Rightarrow> string set \<Rightarrow> bool" where
  "flushable content storable ids \<longleftrightarrow> (\<forall>i \<in> ids. \<forall>e. parse_event (content i) = Some e \<longrightarrow>
     valid_timestamp (pe_timestamp_ms e) \<and> storable (event_key e))"

lemma flushable_mono: "flushable content storable ids \<Longrightarrow> ids' \<subseteq> ids \<Longrightarrow> flushable content storable ids'"
  by (auto simp: flushable_def)

locale analytics_env = redis_stream X STREAM GROUP content delivered trimmed pending serving +
    metrics_db D table db_up storable
  for X :: "'r stream_ops" and content delivered trimmed pending serving
    and D :: "'d db_ops" and table db_up storable +
  fixes nan_order :: nan_sort
begin

lemma flush_outcomes:
  assumes "flush_batch X D nan_order es ids (r, d) = (x, (r', d'))"
  shows "(isl x \<and> r' = r \<and> (table d' = table d \<or> committed nan_order es (table d) (table d'))) \<or>
         (committed nan_order es (table d) (table d') \<and>
            (ids = [] \<and> r' = r \<and> x = Inr () \<or> (\<exists>y. xack X STREAM GROUP ids r = (y, r') \<and> (isl x \<longleftrightarrow> isl y))))"
proof (cases "aggregate_by_bucket es")
  case (Inl e)
  with assms show ?thesis by (auto simp: flush_batch_def)
next
  case (Inr rows)
  let ?db = "if rows = [] then (Inr (), d) else case res_map (as_tuple nan_order) rows of
      Inl e \<Rightarrow> (Inl e, d) | Inr ups \<Rightarrow> executemany D ups d"
  obtain y d1 where db: "?db = (y, d1)" by (metis surj_pair)
  have "table d1 = table d \<and> isl y \<or> committed nan_order es (table d) (table d1)"
  proof (cases "rows = []")
    case True
    with Inr db show ?thesis by (auto simp: committed_def batch_rows_def upsert_many_def)
  next
    case False
    with db many_table show ?thesis
      by (auto simp: committed_def batch_rows_def Inr split: sum.splits)
  qed
  with assms db Inr show ?thesis
    by (auto simp: flush_batch_def split: sum.splits if_splits prod.splits)
qed

text \<open>
  The ledger, relative to a starting table and the ids acknowledged before: the table holds the
  events of the ids in \<open>W\<close>, and an id that is delivered, no longer pending and not trimmed is in
  \<open>W\<close>.
\<close>

definition ledger :: "metrics_table \<Rightarrow> string set \<Rightarrow> 'r \<times> 'd \<Rightarrow> string list \<Rightarrow> bool" where
  "ledger tbl\<^sub>0 old w W \<longleftrightarrow>
     (\<forall>k. counters (table (snd w) k) = add_counts (counters (tbl\<^sub>0 k)) (event_counts k (events_of content W))) \<and>
     delivered (fst w) - unacked (pending (fst w)) - trimmed (fst w) - old \<subseteq> set W \<and>
     set W \<subseteq> delivered (fst w)"

text \<open>What every operation does to the world: ids are only added, and a ledger goes on to exist.\<close>

definition keeps :: "'r \<times> 'd \<Rightarrow> 'r \<times> 'd \<Rightarrow> bool" where
  "keeps w w' \<longleftrightarrow> delivered (fst w) \<subseteq> delivered (fst w') \<and> trimmed (fst w) \<subseteq> trimmed (fst w') \<and>
     (\<forall>tbl\<^sub>0 old. Ex (ledger tbl\<^sub>0 old w) \<longrightarrow> Ex (ledger tbl\<^sub>0 old w'))"

lemma keepsI:
  assumes "delivered (fst w) \<subseteq> delivered (fst w')" "trimmed (fst w) \<subseteq> trimmed (fst w')"
    and "\<And>tbl\<^sub>0 old W. ledger tbl\<^sub>0 old w W \<Longrightarrow> \<exists>W'. ledger tbl\<^sub>0 old w' W'"
  shows "keeps w w'"
  using assms unfolding keeps_def by blast

lemma keeps_refl [simp]: "keeps w w"
  by (simp add: keeps_def)

lemma keeps_trans: "keeps w w' \<Longrightarrow> keeps w' w'' \<Longrightarrow> keeps w w''"
  by (auto simp: keeps_def)

text \<open>A batch held in memory: the events of ids that cover everything to be acknowledged.\<close>

definition held :: "'r \<Rightarrow> parsed_event list \<Rightarrow> string list \<Rightarrow> bool" where
  "held r es ids \<longleftrightarrow> (\<exists>V. es = events_of content V \<and> set ids \<subseteq> set V \<union> trimmed r \<and> set V \<subseteq> delivered r)"

lemma held_keeps: "keeps w w' \<Longrightarrow> held (fst w) es ids \<Longrightarrow> held (fst w') es ids"
  by (fastforce simp: keeps_def held_def)

lemma held_Nil [simp]: "held r [] []"
  by (auto simp: held_def intro!: exI [of _ "[]"])

lemma held_append: "held r es ids \<Longrightarrow> held r es' ids' \<Longrightarrow> held r (es @ es') (ids @ ids')"
proof -
  assume "held r es ids" "held r es' ids'"
  then obtain V V' where "es = events_of content V" "es' = events_of content V'"
      "set ids \<subseteq> set V \<union> trimmed r" "set ids' \<subseteq> set V' \<union> trimmed r" "set V \<subseteq> delivered r" "set V' \<subseteq> delivered r"
    by (auto simp: held_def)
  then show ?thesis unfolding held_def by (intro exI [of _ "V @ V'"]) auto
qed

lemma held_delivered:
  "set ids \<subseteq> delivered r \<Longrightarrow> held r (parsed (map (as_delivered content (trimmed r)) ids)) ids"
  unfolding held_def parsed_delivered by (intro exI [of _ "filter (\<lambda>i. i \<notin> trimmed r) ids"]) auto

lemma keeps_same_views:
  assumes "delivered r \<subseteq> delivered r'" "trimmed r \<subseteq> trimmed r'" "table d' = table d"
    and "delivered r' - unacked (pending r') - trimmed r' \<subseteq> delivered r - unacked (pending r) - trimmed r"
  shows "keeps (r, d) (r', d')"
proof -
  have "ledger tbl\<^sub>0 old (r', d') W" if "ledger tbl\<^sub>0 old (r, d) W" for tbl\<^sub>0 old W
    using that assms(1,2,4) unfolding ledger_def fst_conv snd_conv assms(3) by blast
  then show ?thesis using assms(1,2) by (intro keepsI) auto
qed

lemma ack_unacked:
  assumes "xack X STREAM GROUP ids r = (y, r')"
  shows "delivered r' = delivered r" "trimmed r' = trimmed r" "unacked (pending r) \<subseteq> unacked (pending r') \<union> set ids"
  using ack_views [OF assms] by (auto simp: unacked_def)

lemma flush_keeps:
  assumes "flush_batch X D nan_order es ids (r, d) = (x, (r', d'))" "held r es ids"
  shows "keeps (r, d) (r', d')"
proof -
  from assms(2) obtain V where V: "es = events_of content V" "set ids \<subseteq> set V \<union> trimmed r" "set V \<subseteq> delivered r"
    by (auto simp: held_def)
  have commit: "keeps (r, d) (r'', d')"
    if c: "committed nan_order es (table d) (table d')" and "delivered r'' = delivered r"
      "trimmed r'' = trimmed r" "unacked (pending r) \<subseteq> unacked (pending r'') \<union> set ids" for r''
  proof -
    have "ledger tbl\<^sub>0 old (r'', d') (W @ V)" if "ledger tbl\<^sub>0 old (r, d) W" for tbl\<^sub>0 old W
      using that V \<open>delivered r'' = _\<close> \<open>trimmed r'' = _\<close> \<open>unacked (pending r) \<subseteq> _\<close>
      by (auto simp: ledger_def committed_counters [OF c] event_counts_append add_counts_assoc)
    then show ?thesis using that(2,3) by (intro keepsI) auto
  qed
  from flush_outcomes [OF assms(1)] show ?thesis
  proof (elim disjE conjE exE)
    assume "r' = r" "table d' = table d"
    then show ?thesis by (intro keeps_same_views) auto
  next
    fix y assume "committed nan_order es (table d) (table d')" "xack X STREAM GROUP ids r = (y, r')"
    then show ?thesis by (intro commit) (simp_all add: ack_unacked)
  qed (auto intro: commit)
qed

text \<open>The reads and claims leave a batch that is safe to flush.\<close>

lemma own_keeps:
  assumes "xreadgroup_own X GROUP c STREAM n r = (x, r')"
  shows "keeps (r, d) (r', d)" "x = Inr ms \<Longrightarrow> held r' (parsed ms) (map fst ms)"
proof -
  note v = own_views [OF assms]
  then show "keeps (r, d) (r', d)" by (intro keeps_same_views) auto
  assume "x = Inr ms"
  with v have "ms = map (as_delivered content (trimmed r')) (take n (pending r' c))" by simp
  moreover have "set (take n (pending r' c)) \<subseteq> delivered r'"
    by (rule order.trans [OF set_take_subset pending_delivered])
  ultimately show "held r' (parsed ms) (map fst ms)" using held_delivered by simp
qed

lemma new_keeps:
  assumes "xreadgroup_new X GROUP c STREAM n r = (x, r')"
  shows "keeps (r, d) (r', d)" "x = Inr ms \<Longrightarrow> held r' (parsed ms) (map fst ms) \<and> length ms \<le> n"
proof -
  obtain new where new: "length new \<le> n" "delivered r' = delivered r \<union> set new" "trimmed r' = trimmed r"
      "pending r' = (pending r)(c := pending r c @ new)"
      "\<And>ms. x = Inr ms \<Longrightarrow> ms = map (as_delivered content (trimmed r)) new"
    using new_views [OF assms] by auto
  have "unacked (pending r') = unacked (pending r) \<union> set new"
    by (force simp: unacked_def new(4) split: if_splits)
  with new show "keeps (r, d) (r', d)" by (intro keeps_same_views) auto
  assume "x = Inr ms"
  with new have ms: "ms = map (as_delivered content (trimmed r')) new" by simp
  with held_delivered [of new r'] new(1,2) show "held r' (parsed ms) (map fst ms) \<and> length ms \<le> n" by simp
qed

lemma claim_keeps:
  assumes "xautoclaim X STREAM GROUP c idle cur n r = (x, r')"
  shows "keeps (r, d) (r', d)" "x = Inr (cur', ms) \<Longrightarrow> held r' (parsed ms) (map fst ms)"
proof -
  obtain cl gone where cl: "set cl \<subseteq> unacked (pending r)" "gone \<subseteq> trimmed r"
      "delivered r' = delivered r" "trimmed r' = trimmed r"
      "\<And>c'. c' \<noteq> c \<Longrightarrow> set (pending r' c') = set (pending r c') - set cl - gone"
      "set (pending r' c) = (set (pending r c) - gone) \<union> set cl"
      "\<And>cur' ms. x = Inr (cur', ms) \<Longrightarrow> ms = map (as_delivered content (trimmed r)) cl"
    using claim_views [OF assms] by auto
  have "i \<in> unacked (pending r') \<union> gone" if "i \<in> set (pending r c')" for i c'
  proof (cases "i \<in> set cl \<union> gone")
    case False
    with that cl(5) [of c'] cl(6) have "i \<in> set (pending r' c')" by (cases "c' = c") auto
    then show ?thesis by (auto simp: unacked_def)
  qed (use cl(6) in \<open>auto simp: unacked_def\<close>)
  then have "unacked (pending r) \<subseteq> unacked (pending r') \<union> gone"
    unfolding unacked_def [of "pending r"] by blast
  with cl(2-4) show "keeps (r, d) (r', d)" by (intro keeps_same_views) auto
  assume "x = Inr (cur', ms)"
  with cl(4,7) have "ms = map (as_delivered content (trimmed r')) cl" by simp
  moreover have "set cl \<subseteq> delivered r'" using cl(1,3) unacked_delivered by blast
  ultimately show "held r' (parsed ms) (map fst ms)" using held_delivered by simp
qed

lemma recover_loop_keeps:
  assumes "recover_loop X D nan_order c n w = Some y"
  shows "keeps w (snd y)"
proof -
  have "X' = X \<and> D' = D \<and> no = nan_order \<longrightarrow> keeps w (snd y)"
    if "recover_loop X' D' no c n w = Some y" for X' D' no c n w y
  proof (rule recover_loop.raw_induct [OF _ that], goal_cases)
    case (1 loop X' D' no c n w y)
    have IH: "keeps w (snd y)" if "loop X D nan_order c n w = Some y" for c n w y
      using 1(1) [OF that] by simp
    show ?case
    proof (intro impI, elim conjE)
      assume eqs: "X' = X" "D' = D" "no = nan_order"
      note step = 1(2) [unfolded eqs]
      obtain x r1 where rd: "xreadgroup_own X GROUP c STREAM BATCH_SIZE (fst w) = (x, r1)" by (metis surj_pair)
      note k1 = own_keeps(1) [OF rd, of "snd w"]
      show "keeps w (snd y)"
      proof (cases x)
        case (Inr ms)
        obtain z r2 d2 where fl: "flush_batch X D nan_order (parsed ms) (map fst ms) (r1, snd w) = (z, (r2, d2))"
          by (metis surj_pair)
        have "keeps w (r2, d2)"
          using keeps_trans [OF k1 flush_keeps [OF fl own_keeps(2) [OF rd Inr]]] by simp
        with step rd fl Inr k1 show ?thesis
          by (auto split: if_splits sum.splits dest!: IH intro: keeps_trans)
      qed (use step rd k1 in auto)
    qed
  qed
  with assms show ?thesis by blast
qed

lemma adopt_loop_keeps:
  assumes "adopt_loop X D nan_order c cur n w = Some y"
  shows "keeps w (snd y)"
proof -
  have "X' = X \<and> D' = D \<and> no = nan_order \<longrightarrow> keeps w (snd y)"
    if "adopt_loop X' D' no c cur n w = Some y" for X' D' no c cur n w y
  proof (rule adopt_loop.raw_induct [OF _ that], goal_cases)
    case (1 loop X' D' no c cur n w y)
    have IH: "keeps w (snd y)" if "loop X D nan_order c cur n w = Some y" for c cur n w y
      using 1(1) [OF that] by simp
    show ?case
    proof (intro impI, elim conjE)
      assume eqs: "X' = X" "D' = D" "no = nan_order"
      note step = 1(2) [unfolded eqs]
      obtain x r1 where rd: "xautoclaim X STREAM GROUP c XAUTOCLAIM_IDLE_MS cur 500 (fst w) = (x, r1)" by (metis surj_pair)
      note k1 = claim_keeps(1) [OF rd, of "snd w"]
      show "keeps w (snd y)"
      proof (cases x)
        case (Inr p)
        obtain cur' ms where p: "p = (cur', ms)" by (metis surj_pair)
        obtain z r2 d2 where fl: "flush_batch X D nan_order (parsed ms) (map fst ms) (r1, snd w) = (z, (r2, d2))"
          by (metis surj_pair)
        have "keeps w (r2, d2)"
          using keeps_trans [OF k1 flush_keeps [OF fl claim_keeps(2) [OF rd]]] Inr p by simp
        with step rd fl Inr p k1 show ?thesis
          by (auto split: if_splits sum.splits dest!: IH intro: keeps_trans)
      qed (use step rd k1 in auto)
    qed
  qed
  with assms show ?thesis by blast
qed

lemma recover_keeps: "recover_own_pending X D nan_order c w = Some (x, w') \<Longrightarrow> keeps w w'"
  using recover_loop_keeps [of c 0 w] by (auto simp: recover_own_pending_def)

lemma adopt_keeps: "adopt_orphaned_pending X D nan_order c w = Some (x, w') \<Longrightarrow> keeps w w'"
  using adopt_loop_keeps [of c "''0-0''" 0 w] by (auto simp: adopt_orphaned_pending_def)

lemma ensure_keeps: "ensure_consumer_group X w = (x, w') \<Longrightarrow> keeps w w'"
proof -
  assume a: "ensure_consumer_group X w = (x, w')"
  obtain y r1 where c: "xgroup_create X STREAM GROUP (fst w) = (y, r1)" by (metis surj_pair)
  have "keeps (fst w, snd w) (r1, snd w)" using create_views [OF c] by (intro keeps_same_views) auto
  moreover have "w' = (r1, snd w)"
    using a c by (auto simp: ensure_consumer_group_def split_beta split: sum.splits exn.splits)
  ultimately show ?thesis by simp
qed

lemma startup_keeps: "startup X D nan_order c w = Some (x, w') \<Longrightarrow> keeps w w'"
  by (auto simp: startup_def split: sum.splits option.splits prod.splits
      dest!: ensure_keeps recover_keeps adopt_keeps elim: keeps_trans)

lemma read_new_keeps:
  assumes "read_new X c st w = (x, w')"
  shows "keeps w w'"
    "x = Inr st' \<Longrightarrow> held (fst w) (ls_batch st) (ls_batch_ids st) \<Longrightarrow> held (fst w') (ls_batch st') (ls_batch_ids st')"
proof -
  obtain y r1 where rd: "xreadgroup_new X GROUP c STREAM (max 1 (BATCH_SIZE - length (ls_batch st))) (fst w) = (y, r1)"
    by (metis surj_pair)
  have w': "w' = (r1, snd w)" using assms rd by (auto simp: read_new_def split_beta split: sum.splits)
  show k: "keeps w w'" using new_keeps(1) [OF rd, of "snd w"] w' by simp
  assume "x = Inr st'" and h: "held (fst w) (ls_batch st) (ls_batch_ids st)"
  then obtain ms where ms: "y = Inr ms" "st' = st\<lparr>ls_batch := ls_batch st @ parsed ms, ls_batch_ids := ls_batch_ids st @ map fst ms\<rparr>"
    using assms rd by (auto simp: read_new_def split_beta split: sum.splits)
  with held_append [OF held_keeps [OF k h]] new_keeps(2) [OF rd ms(1)] w'
  show "held (fst w') (ls_batch st') (ls_batch_ids st')" by simp
qed

lemma flush_if_due_keeps:
  assumes "flush_if_due X D nan_order t1 t2 st w = (x, w')" "held (fst w) (ls_batch st) (ls_batch_ids st)"
  shows "keeps w w' \<and> (\<forall>st'. x = Inr st' \<longrightarrow> held (fst w') (ls_batch st') (ls_batch_ids st'))"
proof -
  obtain y r1 d1 where fl: "flush_batch X D nan_order (ls_batch st) (ls_batch_ids st) (fst w, snd w) = (y, (r1, d1))"
    by (metis surj_pair)
  from flush_keeps [OF fl assms(2)] fl assms show ?thesis
    by (auto simp: flush_if_due_def split: if_splits sum.splits)
qed

lemma sweep_keeps:
  assumes "sweep_if_due X D nan_order c t3 t4 st w = Some (x, w')" "held (fst w) (ls_batch st) (ls_batch_ids st)"
  shows "keeps w w' \<and> (\<forall>st'. x = Inr st' \<longrightarrow> held (fst w') (ls_batch st') (ls_batch_ids st'))"
  using assms
  by (auto simp: sweep_if_due_def split: if_splits sum.splits option.splits prod.splits
      dest!: adopt_keeps intro: held_keeps)

lemma iteration_keeps:
  assumes "run_iteration X D nan_order c ts st w = Some (x, w')" "held (fst w) (ls_batch st) (ls_batch_ids st)"
  shows "keeps w w' \<and> (\<forall>st'. x = Inr st' \<longrightarrow> held (fst w') (ls_batch st') (ls_batch_ids st'))"
proof -
  obtain t1 t2 t3 t4 where ts: "ts = (t1, t2, t3, t4)" by (metis prod_cases4)
  obtain y w1 where rd: "read_new X c st w = (y, w1)" by (metis surj_pair)
  note k1 = read_new_keeps(1) [OF rd]
  show ?thesis
  proof (cases y)
    case (Inr st1)
    obtain z w2 where fl: "flush_if_due X D nan_order t1 t2 st1 w1 = (z, w2)" by (metis surj_pair)
    note k2 = flush_if_due_keeps [OF fl read_new_keeps(2) [OF rd Inr assms(2)]]
    show ?thesis
    proof (cases z)
      case Inl
      with k1 k2 rd fl Inr assms(1) ts show ?thesis by (auto simp: run_iteration_def intro: keeps_trans)
    next
      case [simp]: (Inr st2)
      have "sweep_if_due X D nan_order c t3 t4 st2 w2 = Some (x, w')"
        using rd fl \<open>y = Inr st1\<close> assms(1) ts by (simp add: run_iteration_def)
      from sweep_keeps [OF this] k1 k2 show ?thesis by (auto intro: keeps_trans)
    qed
  qed (use k1 rd assms(1) ts in \<open>auto simp: run_iteration_def\<close>)
qed

text \<open>
  Progress: with a server and a database that answer, a flush of events that the table can hold
  goes through, and the drain loops return.
\<close>

definition event_ok :: "parsed_event \<Rightarrow> bool" where
  "event_ok e \<longleftrightarrow> valid_timestamp (pe_timestamp_ms e) \<and> storable (event_key e)"

lemma batch_rows_storable:
  assumes "\<And>e. e \<in> set es \<Longrightarrow> event_ok e"
  shows "\<exists>ups. batch_rows nan_order es = Inr ups \<and> (\<forall>u \<in> set ups. storable (up_key u))"
  using assms by (auto simp: batch_rows_Inr event_ok_def)

lemma flush_succeeds:
  assumes "serving r" "db_up d" "\<And>e. e \<in> set es \<Longrightarrow> event_ok e"
  shows "\<exists>r' d'. flush_batch X D nan_order es ids (r, d) = (Inr (), (r', d')) \<and> serving r' \<and> db_up d' \<and>
    committed nan_order es (table d) (table d') \<and> delivered r' = delivered r \<and> trimmed r' = trimmed r \<and>
    pending r' = (\<lambda>c. filter (\<lambda>i. i \<notin> set ids) (pending r c))"
proof -
  obtain ups where ups: "batch_rows nan_order es = Inr ups" "\<forall>u \<in> set ups. storable (up_key u)"
    using batch_rows_storable assms(3) by metis
  then obtain rows where rows: "aggregate_by_bucket es = Inr rows" "res_map (as_tuple nan_order) rows = Inr ups"
    by (auto simp: batch_rows_def res_bind_Inr_iff)
  obtain x d1 where many: "executemany D ups d = (x, d1)" by (metis surj_pair)
  have x: "x = Inr ()" "db_up d1" "table d1 = upsert_many ups (table d)"
    using many_up [OF assms(2) ups(2) many] many_table [OF many] by (cases x; auto)+
  define d' where "d' = (if rows = [] then d else d1)"
  have d': "db_up d'" "committed nan_order es (table d) (table d')"
    using x assms(2) rows ups by (auto simp: d'_def committed_def upsert_many_def)
  obtain y r1 where ack: "xack X STREAM GROUP ids r = (y, r1)" by (metis surj_pair)
  have y: "y = Inr ()" "serving r1" using ack_serving [OF assms(1) ack] by (cases y; simp)+
  define r' where "r' = (if ids = [] then r else r1)"
  have "flush_batch X D nan_order es ids (r, d) = (Inr (), (r', d'))"
    using rows many x(1) ack y(1) by (auto simp: flush_batch_def r'_def d'_def)
  moreover have "serving r'" "delivered r' = delivered r" "trimmed r' = trimmed r"
      "pending r' = (\<lambda>c. filter (\<lambda>i. i \<notin> set ids) (pending r c))"
    using ack_views [OF ack] y assms(1) by (auto simp: r'_def)
  ultimately show ?thesis using d' by blast
qed

lemma parsed_ok:
  assumes "flushable content storable (set ids - trimmed r)"
  shows "e \<in> set (parsed (map (as_delivered content (trimmed r)) ids)) \<Longrightarrow> event_ok e"
  using assms by (auto simp: parsed_delivered in_events_of flushable_def event_ok_def)

text \<open>One round of each recovery loop, while Redis and the database answer.\<close>

lemma recover_round:
  assumes "serving r" "db_up d" "flushable content storable (set (pending r c) - trimmed r)" "pending r c \<noteq> []"
  shows "\<exists>r2 d2. recover_loop X D nan_order c n (r, d) =
      recover_loop X D nan_order c (n + length (take BATCH_SIZE (pending r c))) (r2, d2) \<and> serving r2 \<and> db_up d2 \<and>
    committed nan_order (events_of content (filter (\<lambda>i. i \<notin> trimmed r) (take BATCH_SIZE (pending r c)))) (table d) (table d2) \<and>
    trimmed r2 = trimmed r \<and> delivered r2 = delivered r \<and>
    pending r2 = (\<lambda>c'. filter (\<lambda>i. i \<notin> set (take BATCH_SIZE (pending r c))) (pending r c'))"
proof -
  obtain x r1 where rd: "xreadgroup_own X GROUP c STREAM BATCH_SIZE r = (x, r1)" by (metis surj_pair)
  let ?ids = "take BATCH_SIZE (pending r c)" and ?ms = "map (as_delivered content (trimmed r)) (take BATCH_SIZE (pending r c))"
  have x: "x = Inr ?ms" "serving r1" and r1: "trimmed r1 = trimmed r" "pending r1 = pending r" "delivered r1 = delivered r"
    using own_serving [OF assms(1) rd] own_views [OF rd] by (cases x; auto)+
  have "flushable content storable (set ?ids - trimmed r)"
    using set_take_subset [of BATCH_SIZE "pending r c"] by (intro flushable_mono [OF assms(3)]) auto
  then have "event_ok e" if "e \<in> set (parsed ?ms)" for e using parsed_ok that by blast
  with flush_succeeds [OF x(2) assms(2), of "parsed ?ms" ?ids] r1 obtain r2 d2 where
      fl: "flush_batch X D nan_order (parsed ?ms) ?ids (r1, d) = (Inr (), (r2, d2))"
        "serving r2" "db_up d2" "committed nan_order (parsed ?ms) (table d) (table d2)"
        "trimmed r2 = trimmed r" "pending r2 = (\<lambda>c'. filter (\<lambda>i. i \<notin> set ?ids) (pending r c'))" "delivered r2 = delivered r"
    by auto
  have "recover_loop X D nan_order c n (r, d) = recover_loop X D nan_order c (n + length ?ids) (r2, d2)"
    using rd x(1) fl(1) assms(4) by (subst recover_loop.simps) (auto simp: BATCH_SIZE_def)
  with fl show ?thesis unfolding parsed_delivered by blast
qed

lemma recover_loop_returns:
  assumes "serving r" "db_up d"
    and "flushable content storable (set (pending r c) - trimmed r)"
  shows "\<exists>r' d'. recover_loop X D nan_order c n (r, d) = Some (Inr (n + length (pending r c)), (r', d')) \<and>
    serving r' \<and> db_up d' \<and> pending r' c = [] \<and> trimmed r' = trimmed r \<and> delivered r' = delivered r \<and>
    unacked (pending r') \<subseteq> unacked (pending r) - set (pending r c) \<and>
    (\<forall>k. counters (table d' k) = add_counts (counters (table d k))
       (event_counts k (events_of content (filter (\<lambda>i. i \<notin> trimmed r) (pending r c)))))"
  using assms
proof (induction "length (pending r c)" arbitrary: r d n rule: less_induct)
  case less
  show ?case
  proof (cases "pending r c = []")
    case True
    obtain x r1 where rd: "xreadgroup_own X GROUP c STREAM BATCH_SIZE r = (x, r1)" by (metis surj_pair)
    with own_serving [OF less(2) rd] own_views [OF rd] less(3) True show ?thesis
      by (cases x; subst recover_loop.simps) (auto simp: add_counts_zero event_counts_absent)
  next
    case False
    let ?ids = "take BATCH_SIZE (pending r c)" and ?ev = "\<lambda>ids. events_of content (filter (\<lambda>i. i \<notin> trimmed r) ids)"
    obtain r2 d2 where rd: "recover_loop X D nan_order c n (r, d) = recover_loop X D nan_order c (n + length ?ids) (r2, d2)"
        "serving r2" "db_up d2" "committed nan_order (?ev ?ids) (table d) (table d2)" "trimmed r2 = trimmed r"
        "delivered r2 = delivered r" "pending r2 = (\<lambda>c'. filter (\<lambda>i. i \<notin> set ?ids) (pending r c'))"
      using recover_round [OF less(2-4) False] by blast
    have p2: "pending r2 c = drop BATCH_SIZE (pending r c)"
      by (simp add: rd(7) filter_not_in_take pending_distinct)
    then have split: "pending r c = ?ids @ pending r2 c" by simp
    have "length (pending r2 c) < length (pending r c)" using False by (simp add: p2 BATCH_SIZE_def)
    moreover have "flushable content storable (set (pending r2 c) - trimmed r2)"
      by (rule flushable_mono [OF less(4)]) (auto simp: rd(5,7))
    ultimately obtain r' d' where IH:
        "recover_loop X D nan_order c (n + length ?ids) (r2, d2) = Some (Inr (n + length ?ids + length (pending r2 c)), (r', d'))"
        "serving r'" "db_up d'" "pending r' c = []" "trimmed r' = trimmed r" "delivered r' = delivered r"
        "unacked (pending r') \<subseteq> unacked (pending r2) - set (pending r2 c)"
        "\<And>k. counters (table d' k) = add_counts (counters (table d2 k)) (event_counts k (?ev (pending r2 c)))"
      using less(1) [of r2 d2 "n + length ?ids"] rd(2,3,5,6) by fastforce
    have "unacked (pending r2) \<subseteq> unacked (pending r) - set ?ids" by (auto simp: unacked_def rd(7))
    moreover have "set (pending r c) = set ?ids \<union> set (pending r2 c)" by (metis split set_append)
    ultimately have "unacked (pending r') \<subseteq> unacked (pending r) - set (pending r c)" using IH(7) by blast
    moreover have "?ev (pending r c) = ?ev ?ids @ ?ev (pending r2 c)"
      by (metis split events_of_simps(2) filter_append)
    moreover have "length ?ids + length (pending r2 c) = length (pending r c)" by (metis split length_append)
    ultimately show ?thesis using rd(1) IH(1-6,8)
      by (simp add: committed_counters [OF rd(4)] event_counts_append add_counts_assoc add.assoc)
  qed
qed

lemma claim_unacked:
  assumes "xautoclaim X STREAM GROUP c idle cur m r = (Inr (cur', ms), r1)"
  shows "\<exists>cl. set cl \<subseteq> unacked (pending r) \<and> unacked (pending r1) \<subseteq> unacked (pending r) \<and>
    trimmed r1 = trimmed r \<and> delivered r1 = delivered r \<and> ms = map (as_delivered content (trimmed r)) cl"
proof -
  obtain cl gone where cl: "set cl \<subseteq> unacked (pending r)" "trimmed r1 = trimmed r" "delivered r1 = delivered r"
      "\<And>c'. c' \<noteq> c \<Longrightarrow> set (pending r1 c') = set (pending r c') - set cl - gone"
      "set (pending r1 c) = (set (pending r c) - gone) \<union> set cl" "ms = map (as_delivered content (trimmed r)) cl"
    using claim_views [OF assms] by auto
  have "unacked (pending r1) \<subseteq> unacked (pending r)"
  proof
    fix i assume "i \<in> unacked (pending r1)"
    then obtain c' where "i \<in> set (pending r1 c')" by (auto simp: unacked_def)
    with cl(1) cl(4) [of c'] cl(5) show "i \<in> unacked (pending r)" by (cases "c' = c") (auto simp: unacked_def)
  qed
  with cl show ?thesis by blast
qed

lemma adopt_round:
  assumes "serving r" "db_up d" "flushable content storable (unacked (pending r) - trimmed r)"
  shows "\<exists>cl cur' r2 d2. set cl \<subseteq> unacked (pending r) \<and> serving r2 \<and> db_up d2 \<and> trimmed r2 = trimmed r \<and>
    delivered r2 = delivered r \<and> unacked (pending r2) \<subseteq> unacked (pending r) - set cl \<and>
    adopt_loop X D nan_order c cur n (r, d) =
      (if cl = [] \<or> cur' = ''0-0'' then Some (Inr (n + length cl), (r2, d2)) else adopt_loop X D nan_order c cur' (n + length cl) (r2, d2))"
proof -
  obtain x r1 where rd: "xautoclaim X STREAM GROUP c XAUTOCLAIM_IDLE_MS cur 500 r = (x, r1)" by (metis surj_pair)
  obtain cur' ms where x: "x = Inr (cur', ms)" and up: "serving r1"
    using claim_serving [OF assms(1) rd] by (cases x) auto
  from claim_unacked rd x obtain cl where cl: "set cl \<subseteq> unacked (pending r)" "unacked (pending r1) \<subseteq> unacked (pending r)"
      "trimmed r1 = trimmed r" "delivered r1 = delivered r" "ms = map (as_delivered content (trimmed r)) cl" by blast
  show ?thesis
  proof (cases "cl = []")
    case True
    with rd x up assms(2) cl show ?thesis
      by (intro exI [of _ "[]"] exI [of _ cur'] exI [of _ r1] exI [of _ d]) (subst adopt_loop.simps, simp)
  next
    case False
    have "flushable content storable (set cl - trimmed r)" using cl(1) by (intro flushable_mono [OF assms(3)]) auto
    then have ok: "event_ok e" if "e \<in> set (parsed ms)" for e using parsed_ok [of cl r e] cl(5) that by blast
    obtain r2 d2 where fl: "flush_batch X D nan_order (parsed ms) (map fst ms) (r1, d) = (Inr (), (r2, d2))"
        "serving r2" "db_up d2" "trimmed r2 = trimmed r" "delivered r2 = delivered r"
        "pending r2 = (\<lambda>c'. filter (\<lambda>i. i \<notin> set cl) (pending r1 c'))"
      using flush_succeeds [OF up assms(2), of "parsed ms" "map fst ms"] ok cl(3-5) by auto
    have "unacked (pending r2) = unacked (pending r1) - set cl" by (auto simp: unacked_def fl(6))
    moreover have "adopt_loop X D nan_order c cur n (r, d) =
        (if cur' = ''0-0'' then Some (Inr (n + length cl), (r2, d2)) else adopt_loop X D nan_order c cur' (n + length cl) (r2, d2))"
      using False rd x fl(1) cl(5) by (subst adopt_loop.simps) auto
    ultimately show ?thesis using False fl(2-5) cl(1,2) 
      by (intro exI [of _ cl] exI [of _ cur'] exI [of _ r2] exI [of _ d2]) auto
  qed
qed

lemma adopt_loop_returns:
  assumes "serving r" "db_up d"
    and "flushable content storable (unacked (pending r) - trimmed r)"
  shows "\<exists>m r' d'. adopt_loop X D nan_order c cur n (r, d) = Some (Inr m, (r', d')) \<and> n \<le> m \<and> serving r' \<and> db_up d' \<and>
    trimmed r' = trimmed r \<and> delivered r' = delivered r \<and> unacked (pending r') \<subseteq> unacked (pending r)"
  using assms
proof (induction "card (unacked (pending r))" arbitrary: r d n cur rule: less_induct)
  case less
  obtain cl cur' r2 d2 where rd: "set cl \<subseteq> unacked (pending r)" "serving r2" "db_up d2" "trimmed r2 = trimmed r"
      "delivered r2 = delivered r" "unacked (pending r2) \<subseteq> unacked (pending r) - set cl"
      "adopt_loop X D nan_order c cur n (r, d) =
        (if cl = [] \<or> cur' = ''0-0'' then Some (Inr (n + length cl), (r2, d2)) else adopt_loop X D nan_order c cur' (n + length cl) (r2, d2))"
    using adopt_round [OF less(2-4)] by blast
  show ?case
  proof (cases "cl = [] \<or> cur' = ''0-0''")
    case False
    then have "unacked (pending r2) \<subset> unacked (pending r)" using rd(1,6) hd_in_set [of cl] by blast
    then have "card (unacked (pending r2)) < card (unacked (pending r))"
      by (rule psubset_card_mono [OF unacked_finite])
    moreover have "flushable content storable (unacked (pending r2) - trimmed r2)"
      using rd(6) by (intro flushable_mono [OF less(4)]) (auto simp: rd(4))
    ultimately obtain m r' d' where "adopt_loop X D nan_order c cur' (n + length cl) (r2, d2) = Some (Inr m, (r', d'))"
        "n + length cl \<le> m" "serving r'" "db_up d'" "trimmed r' = trimmed r2" "delivered r' = delivered r2"
        "unacked (pending r') \<subseteq> unacked (pending r2)"
      using less(1) [of r2 d2 cur' "n + length cl"] rd(2,3) by blast
    with False rd(4-7) show ?thesis by auto
  qed (use rd in auto)
qed

lemma ensure_succeeds:
  assumes "serving r"
  shows "\<exists>r'. ensure_consumer_group X (r, d) = (Inr (), (r', d)) \<and> serving r' \<and>
    delivered r' = delivered r \<and> trimmed r' = trimmed r \<and> pending r' = pending r"
proof -
  obtain x r' where c: "xgroup_create X STREAM GROUP r = (x, r')" by (metis surj_pair)
  have "sublist ''BUSYGROUP'' (''BUSYGROUP'' @ msg)" for msg by simp
  with create_serving [OF assms c] create_views [OF c] c show ?thesis
    by (auto simp: ensure_consumer_group_def)
qed

lemma startup_returns:
  assumes "serving r" "db_up d"
    and "flushable content storable (unacked (pending r) - trimmed r)"
  shows "\<exists>r' d'. startup X D nan_order c (r, d) = Some (Inr (), (r', d')) \<and> serving r' \<and> db_up d' \<and>
    trimmed r' = trimmed r \<and> delivered r' = delivered r \<and>
    unacked (pending r') \<subseteq> unacked (pending r) - set (pending r c)"
proof -
  obtain r1 where r1: "ensure_consumer_group X (r, d) = (Inr (), (r1, d))" "serving r1"
      "delivered r1 = delivered r" "trimmed r1 = trimmed r" "pending r1 = pending r"
    using ensure_succeeds [OF assms(1), of d] by (elim exE conjE) (rule that)
  have "flushable content storable (set (pending r1 c) - trimmed r1)"
    using r1(4,5) by (intro flushable_mono [OF assms(3)]) (auto simp: unacked_def)
  from recover_loop_returns [where n = 0, OF r1(2) assms(2) this]
  obtain r2 d2 where r2: "recover_loop X D nan_order c 0 (r1, d) = Some (Inr (0 + length (pending r1 c)), (r2, d2))"
      "serving r2" "db_up d2" "trimmed r2 = trimmed r1" "delivered r2 = delivered r1"
      "unacked (pending r2) \<subseteq> unacked (pending r1) - set (pending r1 c)"
    by blast
  have "flushable content storable (unacked (pending r2) - trimmed r2)"
    using r1(4,5) r2(4,6) by (intro flushable_mono [OF assms(3)]) auto
  from adopt_loop_returns [where n = 0 and cur = "''0-0''", OF r2(2,3) this]
  obtain m r3 d3 where r3: "adopt_loop X D nan_order c ''0-0'' 0 (r2, d2) = Some (Inr m, (r3, d3))" "serving r3" "db_up d3"
      "trimmed r3 = trimmed r2" "delivered r3 = delivered r2" "unacked (pending r3) \<subseteq> unacked (pending r2)"
    by blast
  have "startup X D nan_order c (r, d) = Some (Inr (), (r3, d3))"
    using r1(1) r2(1) r3(1) by (simp add: startup_def recover_own_pending_def adopt_orphaned_pending_def)
  then show ?thesis using r1(3-5) r2(4-6) r3(2-6) by auto
qed

text \<open>
  No progress: an entry among the first \<open>BATCH_SIZE\<close> pending ones that parses but carries a
  timestamp outside the range of \<open>datetime\<close> makes the flush raise before anything is written
  or acknowledged.
\<close>

lemma flush_invalid:
  assumes "e \<in> set es" "\<not> valid_timestamp (pe_timestamp_ms e)"
  shows "\<exists>x. flush_batch X D nan_order es ids w = (Inl x, w)"
proof -
  have "\<not> (\<exists>rows. aggregate_by_bucket es = Inr rows)"
    using assms aggregate_by_bucket_iff by blast
  then obtain x where "aggregate_by_bucket es = Inl x" by (cases "aggregate_by_bucket es") auto
  then show ?thesis by (simp add: flush_batch_def split_beta)
qed

lemma recover_loop_wedged:
  assumes "i \<in> set (take BATCH_SIZE (pending r c))" "i \<notin> trimmed r"
    and "parse_event (content i) = Some e" "\<not> valid_timestamp (pe_timestamp_ms e)"
  shows "\<exists>x r'. recover_loop X D nan_order c n (r, d) = Some (Inl x, (r', d)) \<and>
     pending r' = pending r \<and> delivered r' = delivered r \<and> trimmed r' = trimmed r"
proof -
  obtain x r1 where rd: "xreadgroup_own X GROUP c STREAM BATCH_SIZE r = (x, r1)" by (metis surj_pair)
  note v = own_views [OF rd]
  show ?thesis
  proof (cases x)
    case (Inr ms)
    have "e \<in> set (parsed ms)" "ms \<noteq> []"
      using v Inr assms(1-3) by (auto simp: parsed_delivered in_events_of)
    with flush_invalid [OF this(1) assms(4), of "map fst ms" "(r1, d)"] rd Inr v show ?thesis
      by (subst recover_loop.simps) auto
  qed (use rd v in \<open>subst recover_loop.simps; auto\<close>)
qed

lemma startup_wedged:
  assumes "i \<in> set (take BATCH_SIZE (pending r c))" "i \<notin> trimmed r"
    and "parse_event (content i) = Some e" "\<not> valid_timestamp (pe_timestamp_ms e)"
  shows "\<exists>x r'. startup X D nan_order c (r, d) = Some (Inl x, (r', d)) \<and>
     pending r' = pending r \<and> delivered r' = delivered r \<and> trimmed r' = trimmed r"
proof -
  obtain y w1 where en: "ensure_consumer_group X (r, d) = (y, w1)" by (metis surj_pair)
  obtain z r1 where c: "xgroup_create X STREAM GROUP r = (z, r1)" by (metis surj_pair)
  have w1: "w1 = (r1, d)"
    using en c by (auto simp: ensure_consumer_group_def split: sum.splits exn.splits)
  have v: "delivered r1 = delivered r" "trimmed r1 = trimmed r" "pending r1 = pending r"
    using create_views [OF c] by auto
  show ?thesis
  proof (cases y)
    case Inl
    with en w1 v show ?thesis by (simp add: startup_def)
  next
    case Inr
    obtain x r' where "recover_loop X D nan_order c 0 (r1, d) = Some (Inl x, (r', d))"
        "pending r' = pending r1" "delivered r' = delivered r1" "trimmed r' = trimmed r1"
      using recover_loop_wedged [of i r1 c e 0 d] assms v by auto
    with Inr en w1 v show ?thesis by (simp add: startup_def recover_own_pending_def)
  qed
qed

text \<open>Bounds on the batch: fewer than \<open>BATCH_SIZE\<close> ids are carried from one iteration to the next.\<close>

definition batch_bounded :: "loop_state \<Rightarrow> bool" where
  "batch_bounded st \<longleftrightarrow> length (ls_batch_ids st) < BATCH_SIZE \<and> length (ls_batch st) \<le> length (ls_batch_ids st)"

lemma read_new_bound:
  assumes "read_new X c st w = (Inr st', w')" "batch_bounded st"
  shows "length (ls_batch st') \<le> BATCH_SIZE \<and> length (ls_batch_ids st') < 2 * BATCH_SIZE \<and>
    length (ls_batch st') \<le> length (ls_batch_ids st')"
proof -
  obtain y r1 where rd: "xreadgroup_new X GROUP c STREAM (max 1 (BATCH_SIZE - length (ls_batch st))) (fst w) = (y, r1)"
    by (metis surj_pair)
  then obtain ms where "y = Inr ms" and st': "ls_batch st' = ls_batch st @ parsed ms"
      "ls_batch_ids st' = ls_batch_ids st @ map fst ms"
    using assms(1) by (auto simp: read_new_def split_beta split: sum.splits)
  then have "length ms \<le> max 1 (BATCH_SIZE - length (ls_batch st))" using new_keeps(2) [OF rd] by blast
  with assms(2) parsed_length [of ms] show ?thesis by (auto simp: batch_bounded_def st' BATCH_SIZE_def)
qed

lemma iteration_bound:
  assumes "run_iteration X D nan_order c ts st w = Some (Inr st', w')" "batch_bounded st"
  shows "batch_bounded st'"
proof -
  obtain t1 t2 t3 t4 where ts: "ts = (t1, t2, t3, t4)" by (metis prod_cases4)
  obtain st1 w1 where rd: "read_new X c st w = (Inr st1, w1)"
    using assms(1) ts by (auto simp: run_iteration_def split: prod.splits sum.splits)
  obtain st2 w2 where fl: "flush_if_due X D nan_order t1 t2 st1 w1 = (Inr st2, w2)"
    and sw: "sweep_if_due X D nan_order c t3 t4 st2 w2 = Some (Inr st', w')"
    using assms(1) ts rd by (auto simp: run_iteration_def split: prod.splits sum.splits)
  have "batch_bounded st2"
    using fl read_new_bound [OF rd assms(2)]
    by (auto simp: flush_if_due_def flush_due_def batch_bounded_def BATCH_SIZE_def split: if_splits prod.splits sum.splits)
  then show ?thesis
    using sw by (auto simp: sweep_if_due_def batch_bounded_def split: if_splits prod.splits sum.splits option.splits)
qed

end

subsection \<open>The system never loses an acknowledged event\<close>

text \<open>What the server and the database may do by themselves.\<close>

locale analytics_world = analytics_env +
  fixes env :: "'a \<Rightarrow> 'a \<Rightarrow> bool" and denv :: "'b \<Rightarrow> 'b \<Rightarrow> bool"
  assumes env_views: "env r r' \<Longrightarrow> delivered r' = delivered r \<and> pending r' = pending r \<and> trimmed r \<subseteq> trimmed r'"
    and denv_table: "denv d d' \<Longrightarrow> table d' = table d"
begin

definition system_ok :: "metrics_table \<Rightarrow> string set \<Rightarrow> ('a, 'b) system \<Rightarrow> bool" where
  "system_ok tbl\<^sub>0 old s \<longleftrightarrow> (\<exists>W. ledger tbl\<^sub>0 old (sys_redis s, sys_db s) W) \<and>
     (\<forall>c st. sys_procs s c = Some st \<longrightarrow> held (sys_redis s) (ls_batch st) (ls_batch_ids st))"

lemma system_ok_step:
  assumes "system_ok tbl\<^sub>0 old s" "keeps (sys_redis s, sys_db s) (r', d')"
    and "\<And>st. p = Some st \<Longrightarrow> held r' (ls_batch st) (ls_batch_ids st)"
  shows "system_ok tbl\<^sub>0 old \<lparr>sys_redis = r', sys_db = d', sys_procs = (sys_procs s)(c := p)\<rparr>"
  using assms held_keeps [OF assms(2)] by (auto simp: system_ok_def keeps_def)

lemma ledger_start:
  assumes "old = delivered r - unacked (pending r)"
  shows "ledger (table d) old (r, d) []"
proof -
  have "add_counts (counters m) (event_counts k []) = counters m" for m k
    by (simp add: add_counts_zero event_counts_absent)
  with assms show ?thesis by (auto simp: ledger_def)
qed

lemma system_reach_ok:
  assumes "analytics_system X D nan_order env denv r\<^sub>0 d\<^sub>0 s"
  shows "system_ok (table d\<^sub>0) (delivered r\<^sub>0 - unacked (pending r\<^sub>0)) s"
  using assms
proof (induction rule: analytics_system.induct)
  case sys_init
  then show ?case using ledger_start by (auto simp: system_ok_def)
next
  case (sys_start s c x r' d' p t0 t1)
  then show ?case
    by (intro system_ok_step [OF _ startup_keeps]) (auto simp: loop_start_def split: sum.splits)
next
  case (sys_iterate s c st ts x r' d' p)
  then have "held (fst (sys_redis s, sys_db s)) (ls_batch st) (ls_batch_ids st)" by (auto simp: system_ok_def)
  from iteration_keeps [OF sys_iterate(3) this] sys_iterate(4,5) show ?case
    by (intro system_ok_step) (auto split: sum.splits)
next
  case (sys_kill s c)
  then show ?case by (auto simp: system_ok_def)
next
  case (sys_env s r')
  have "keeps (sys_redis s, sys_db s) (r', sys_db s)"
    using env_views [OF sys_env(2)] by (intro keeps_same_views) auto
  with sys_env(3) held_keeps [OF this] show ?case by (auto simp: system_ok_def keeps_def)
next
  case (sys_denv s d')
  have "keeps (sys_redis s, sys_db s) (sys_redis s, d')"
    using denv_table [OF sys_denv(2)] by (intro keeps_same_views) auto
  with sys_denv(3) show ?case by (auto simp: system_ok_def keeps_def)
qed

end

end
