(* ===== verification/Analytics_Properties.thy ===== *)
theory Analytics_Properties
  imports Analytics_Delivery
begin

section \<open>Properties of the analytics consumer\<close>

text \<open>
  The theorems of \<open>Analytics_Delivery\<close> with their hypotheses written out, each applied to the
  reference server and database.
\<close>

subsection \<open>A concrete run\<close>

definition sample_fields :: entry_fields where
  "sample_fields = [(''tenant_id'', ''t1''), (''endpoint'', ''/proxy/get''), (''method'', ''GET''),
     (''status_code'', str_int 200), (''latency_ms'', ''10''), (''rate_limited'', str_int 0),
     (''timestamp_ms'', str_int 1700000030000)]"

lemma float_of_ten: "float_of_str ''10'' = Some (Fin 10)"
  by (simp add: float_of_str_def py_strip_def is_space_def split_sign_def py_lower_def lower_char_def
      decimal_literal_def digit_or_underscore_def digit_val_def float_part_def exponent_part_def)

lemma parse_sample: "parse_event sample_fields = Some (sample_event 1700000030000 200 False)"
  by (simp add: parse_event_def parse_fields_def get_field_def int_field_def float_field_def sample_fields_def
      sample_event_def float_of_ten)

definition one_pending :: ref_stream where
  "one_pending = \<lparr>rs_up = True, rs_len = 1, rs_next = 1, rs_gone = 0, rs_pel = [(0, ''c1'')]\<rparr>"

definition empty_db :: ref_db where
  "empty_db = \<lparr>rd_up = True, rd_table = Map.empty\<rparr>"

abbreviation sample_ops :: "ref_stream stream_ops" where
  "sample_ops \<equiv> ref_stream_ops (\<lambda>_. sample_fields)"

lemma one_pending_simps [simp]:
  "rs_pending one_pending c = (if c = ''c1'' then [entry_id 0] else [])"
  "rs_trimmed one_pending = {}" "rs_up one_pending" "rd_up empty_db" "rs_delivered one_pending = {entry_id 0}"
  by (auto simp: rs_pending_def rs_norm_def rs_trimmed_def rs_delivered_def one_pending_def empty_db_def)

lemma one_pending_unacked [simp]: "unacked (rs_pending one_pending) = {entry_id 0}"
  by (auto simp: unacked_def split: if_splits)

lemma analytics_envI:
  "redis_stream X STREAM GROUP content delivered trimmed pending serving \<Longrightarrow> metrics_db D table db_up storable \<Longrightarrow>
   analytics_env X content delivered trimmed pending serving D table db_up storable"
  by (rule analytics_env.intro)

interpretation ref_env: analytics_env "ref_stream_ops content" content rs_delivered rs_trimmed rs_pending rs_up
  ref_db_ops rd_table rd_up "\<lambda>_. True" nan_order for content nan_order
  by unfold_locales

text \<open>Both reference servers may become unreachable and reachable again.\<close>

interpretation ref_system: analytics_world "ref_stream_ops content" content rs_delivered rs_trimmed rs_pending rs_up
  ref_db_ops rd_table rd_up "\<lambda>_. True" nan_order "\<lambda>r r'. \<exists>b. r' = r\<lparr>rs_up := b\<rparr>" "\<lambda>d d'. \<exists>b. d' = d\<lparr>rd_up := b\<rparr>"
  for content nan_order
  by unfold_locales (auto simp: fun_eq_iff rs_norm_def rs_delivered_def rs_pending_def rs_trimmed_def)

lemma sample_ok: "ref_env.event_ok ok_event"
  by (simp add: ref_env.event_ok_def ok_event_def sample_event_def valid_timestamp_def MIN_TIMESTAMP_MS_def
      MAX_TIMESTAMP_MS_def)

lemma sample_flushable: "flushable (\<lambda>_. sample_fields) (\<lambda>_. True) ids"
  using sample_ok by (auto simp: flushable_def parse_sample ok_event_def [symmetric] ref_env.event_ok_def)

lemmas ref_laws = ref_stream.redis_stream_axioms ref_db.metrics_db_axioms

lemma sample_counts:
  "event_counts (event_key ok_event) (events_of (\<lambda>_. sample_fields) [entry_id 0]) = [1, 1, 0, 0, 0]"
  by (simp add: events_of_def map_filter_def parse_sample event_counts_def ok_event_def event_key_def
      sample_event_def status_in_def)

lemma empty_db_counters [simp]: "counters (rd_table empty_db k) = [0, 0, 0, 0, 0]"
  by (simp add: empty_db_def counters_def)

subsection \<open>Delivery\<close>

text \<open>
  C3: No acknowledged event is lost. Whatever consumers start, iterate, die of exceptions, are
  killed and restart, in any order, with commands that fail before or after taking effect: at
  every moment the counters of the table are the initial ones plus the events of a list of
  delivered entries, and every entry that has been acknowledged since the start and was not
  trimmed from the stream is on that list (at least once). An entry that is not on the list is
  still pending and will be delivered again.
\<close>

theorem analytics_at_least_once:
  assumes "redis_stream X STREAM GROUP content delivered trimmed pending serving"
    and "metrics_db D table db_up storable"
    and "\<And>r r'. env r r' \<Longrightarrow> delivered r' = delivered r \<and> pending r' = pending r \<and> trimmed r \<subseteq> trimmed r'"
    and "\<And>d d'. denv d d' \<Longrightarrow> table d' = table d"
    and "analytics_system X D nan_order env denv r\<^sub>0 d\<^sub>0 s"
  shows "\<exists>W. (\<forall>k. counters (table (sys_db s) k) =
             add_counts (counters (table d\<^sub>0 k)) (event_counts k (events_of content W))) \<and>
           set W \<subseteq> delivered (sys_redis s) \<and>
           delivered (sys_redis s) - unacked (pending (sys_redis s)) - trimmed (sys_redis s)
             - (delivered r\<^sub>0 - unacked (pending r\<^sub>0)) \<subseteq> set W"
proof -
  have env: "analytics_env X content delivered trimmed pending serving D table db_up storable"
    by (rule analytics_envI [OF assms(1,2)])
  then have "analytics_world X content delivered trimmed pending serving D table db_up storable env denv"
    using assms(3,4) by (simp add: analytics_world_def analytics_world_axioms_def)
  from analytics_world.system_reach_ok [OF this assms(5)] show ?thesis
    by (auto simp: analytics_world.system_ok_def [OF \<open>analytics_world _ _ _ _ _ _ _ _ _ _ _ _\<close>]
        analytics_env.ledger_def [OF env])
qed

theorem analytics_at_least_once_witness:
  "\<exists>s. analytics_system sample_ops ref_db_ops (\<lambda>xs. xs) (=) (=) one_pending empty_db s \<and>
     rs_pending (sys_redis s) ''c1'' = [] \<and>
     (\<exists>W. entry_id 0 \<in> set W \<and> (\<forall>k. counters (rd_table (sys_db s) k) =
        add_counts [0, 0, 0, 0, 0] (event_counts k (events_of (\<lambda>_. sample_fields) W))))"
proof -
  obtain r' d' where st: "startup sample_ops ref_db_ops (\<lambda>xs. xs) ''c1'' (one_pending, empty_db) = Some (Inr (), (r', d'))"
      and r': "rs_delivered r' = {entry_id 0}" "unacked (rs_pending r') = {}" "rs_trimmed r' = {}"
    using ref_env.startup_returns [OF _ _ sample_flushable, of one_pending empty_db "\<lambda>xs. xs" "''c1''"] by auto
  let ?s = "\<lparr>sys_redis = r', sys_db = d', sys_procs = (\<lambda>_. None)(''c1'' \<mapsto> loop_start 0 0)\<rparr>"
  have reach: "analytics_system sample_ops ref_db_ops (\<lambda>xs. xs) (=) (=) one_pending empty_db ?s"
    by (rule analytics_system.sys_start [OF analytics_system.sys_init, where c = "''c1''" and x = "Inr ()" and
        p = "Some (loop_start 0 0)" and ?t0.0 = 0 and ?t1.0 = 0, simplified]) (rule st)
  obtain W where "entry_id 0 \<in> set W" "\<And>k. counters (rd_table d' k) =
      add_counts [0, 0, 0, 0, 0] (event_counts k (events_of (\<lambda>_. sample_fields) W))"
    using analytics_at_least_once [OF ref_laws _ _ reach] r' by auto
  moreover have "rs_pending r' ''c1'' = []" using r'(2) by (auto simp: unacked_def)
  ultimately show ?thesis using reach by (intro exI [of _ ?s]) auto
qed

text \<open>
  C10: A batch is acknowledged only after it is written. Whatever \<open>flush_batch\<close> returns, the
  table is either unchanged or holds the whole batch; if any entry has left the pending lists
  the batch is in the table; and if it returns normally the batch is in the table and exactly
  the given ids have left the pending lists.
\<close>

theorem flush_writes_before_ack:
  assumes "redis_stream X STREAM GROUP content delivered trimmed pending serving"
    and "metrics_db D table db_up storable"
    and "flush_batch X D nan_order es ids (r, d) = (x, (r', d'))"
  shows "(table d' = table d \<or> committed nan_order es (table d) (table d')) \<and>
    (pending r' \<noteq> pending r \<longrightarrow> committed nan_order es (table d) (table d')) \<and>
    (x = Inr () \<longrightarrow> committed nan_order es (table d) (table d') \<and>
       pending r' = (\<lambda>c. filter (\<lambda>i. i \<notin> set ids) (pending r c)))"
  using analytics_env.flush_outcomes [OF analytics_envI [OF assms(1,2)] assms(3)]
proof (elim disjE conjE exE)
  fix y assume c: "committed nan_order es (table d) (table d')" and "xack X STREAM GROUP ids r = (y, r')" "isl x \<longleftrightarrow> isl y"
  from redis_stream.ack_views [OF assms(1) this(2)] this(3) have "x = Inr () \<longrightarrow> pending r' = (\<lambda>c. filter (\<lambda>i. i \<notin> set ids) (pending r c))"
    by (cases y) auto
  with c show ?thesis by simp
qed auto

theorem flush_writes_before_ack_witness:
  "\<exists>r' d'. flush_batch sample_ops ref_db_ops (\<lambda>xs. xs) [ok_event] [entry_id 0] (one_pending, empty_db) = (Inr (), (r', d')) \<and>
     committed (\<lambda>xs. xs) [ok_event] Map.empty (rd_table d') \<and> rs_pending r' ''c1'' = []"
proof -
  obtain r' d' where "flush_batch sample_ops ref_db_ops (\<lambda>xs. xs) [ok_event] [entry_id 0] (one_pending, empty_db) = (Inr (), (r', d'))"
    using ref_env.flush_succeeds [of one_pending empty_db "[ok_event]" "\<lambda>_. sample_fields" "\<lambda>xs. xs" "[entry_id 0]"] sample_ok
    by auto
  with flush_writes_before_ack [OF ref_laws this] show ?thesis by (simp add: empty_db_def)
qed

subsection \<open>Progress\<close>

text \<open>
  C28: A restart drains what the previous run left behind. With a server and a database that
  answer and pending entries whose events the table can hold, \<open>recover_own_pending\<close> returns,
  reports the number of entries it recovered, leaves the consumer's pending list empty, and has
  added every event of the list to the counters exactly once.
\<close>

theorem recover_own_pending_drains:
  assumes "redis_stream X STREAM GROUP content delivered trimmed pending serving"
    and "metrics_db D table db_up storable" and "serving r" "db_up d"
    and "flushable content storable (set (pending r c) - trimmed r)"
  shows "\<exists>r' d'. recover_own_pending X D nan_order c (r, d) = Some (Inr (length (pending r c)), (r', d')) \<and>
    pending r' c = [] \<and>
    (\<forall>k. counters (table d' k) = add_counts (counters (table d k))
       (event_counts k (events_of content (filter (\<lambda>i. i \<notin> trimmed r) (pending r c)))))"
  using analytics_env.recover_loop_returns [where n = 0, OF analytics_envI [OF assms(1,2)] assms(3-5)]
  unfolding recover_own_pending_def add_0 by blast

theorem recover_own_pending_drains_witness:
  "\<exists>r' d'. recover_own_pending sample_ops ref_db_ops (\<lambda>xs. xs) ''c1'' (one_pending, empty_db) = Some (Inr 1, (r', d')) \<and>
     rs_pending r' ''c1'' = [] \<and> counters (rd_table d' (event_key ok_event)) = [1, 1, 0, 0, 0]"
proof -
  obtain r' d' where "recover_own_pending sample_ops ref_db_ops (\<lambda>xs. xs) ''c1'' (one_pending, empty_db) = Some (Inr 1, (r', d'))"
      "rs_pending r' ''c1'' = []"
      "\<And>k. counters (rd_table d' k) = add_counts (counters (rd_table empty_db k))
         (event_counts k (events_of (\<lambda>_. sample_fields) [entry_id 0]))"
    using recover_own_pending_drains [OF ref_laws _ _ sample_flushable, of one_pending empty_db "\<lambda>xs. xs" "''c1''"]
    by auto
  moreover from this(3) [of "event_key ok_event"] have "counters (rd_table d' (event_key ok_event)) = [1, 1, 0, 0, 0]"
    by (simp add: sample_counts)
  ultimately show ?thesis by blast
qed

text \<open>
  C29: A consumer starts. Under the same conditions, for the entries pending for any consumer,
  the whole startup (creating the group, recovering the own pending list, adopting orphaned
  entries) returns normally, and nothing that was pending for the consumer is pending any more.
\<close>

theorem startup_reaches_main_loop:
  assumes "redis_stream X STREAM GROUP content delivered trimmed pending serving"
    and "metrics_db D table db_up storable" and "serving r" "db_up d"
    and "flushable content storable (unacked (pending r) - trimmed r)"
  shows "\<exists>r' d'. startup X D nan_order c (r, d) = Some (Inr (), (r', d')) \<and> delivered r' = delivered r \<and>
    unacked (pending r') \<subseteq> unacked (pending r) - set (pending r c)"
  using analytics_env.startup_returns [OF analytics_envI [OF assms(1,2)] assms(3-5)] by blast

theorem startup_reaches_main_loop_witness:
  "\<exists>r' d'. startup sample_ops ref_db_ops (\<lambda>xs. xs) ''c1'' (one_pending, empty_db) = Some (Inr (), (r', d')) \<and>
     unacked (rs_pending r') = {}"
  using startup_reaches_main_loop [OF ref_laws _ _ sample_flushable, of one_pending empty_db "\<lambda>xs. xs" "''c1''"] by auto

text \<open>
  C32: An unrepresentable timestamp wedges the consumer. If one of the first \<open>BATCH_SIZE\<close> entries
  pending for a consumer parses but carries a timestamp that \<open>datetime\<close> cannot represent, every
  start of the consumer ends in an exception, with the database untouched and the pending list
  exactly as it was, so the next start meets the same entry again.
\<close>

theorem unrepresentable_timestamp_wedges:
  assumes "redis_stream X STREAM GROUP content delivered trimmed pending serving"
    and "metrics_db D table db_up storable"
    and "i \<in> set (take BATCH_SIZE (pending r c))" "i \<notin> trimmed r"
    and "parse_event (content i) = Some e" "\<not> valid_timestamp (pe_timestamp_ms e)"
  shows "\<exists>x r'. startup X D nan_order c (r, d) = Some (Inl x, (r', d)) \<and>
     pending r' = pending r \<and> delivered r' = delivered r \<and> trimmed r' = trimmed r"
  by (rule analytics_env.startup_wedged [OF analytics_envI [OF assms(1,2)] assms(3-)])

text \<open>The sample entry with a timestamp in the year 33658 (microseconds for milliseconds).\<close>

definition late_fields :: entry_fields where
  "late_fields = AList.update ''timestamp_ms'' (str_int 1000000000000000) sample_fields"

lemma parse_late: "parse_event late_fields = Some (sample_event 1000000000000000 200 False)"
  by (simp add: parse_event_def parse_fields_def get_field_def int_field_def float_field_def late_fields_def
      sample_fields_def sample_event_def float_of_ten)

theorem unrepresentable_timestamp_wedges_witness:
  "\<exists>x r'. startup (ref_stream_ops (\<lambda>_. late_fields)) ref_db_ops (\<lambda>xs. xs) ''c1'' (one_pending, empty_db) =
       Some (Inl x, (r', empty_db)) \<and> rs_pending r' ''c1'' = [entry_id 0]"
  using unrepresentable_timestamp_wedges [OF ref_laws, of "entry_id 0" one_pending "''c1''" "\<lambda>_. late_fields"
      "sample_event 1000000000000000 200 False" "\<lambda>xs. xs" empty_db]
  by (auto simp: parse_late BATCH_SIZE_def sample_event_def valid_timestamp_def MAX_TIMESTAMP_MS_def)

subsection \<open>Bounds\<close>

text \<open>
  C33: The batch in memory is bounded. An iteration that starts with fewer than \<open>BATCH_SIZE\<close> ids
  and no more events than ids ends the same way; in between, after reading, it holds at most
  \<open>BATCH_SIZE\<close> events and fewer than twice \<open>BATCH_SIZE\<close> ids, so a transaction writes at most
  \<open>BATCH_SIZE\<close> events however large the backlog is.
\<close>

theorem batch_stays_bounded:
  assumes "redis_stream X STREAM GROUP content delivered trimmed pending serving"
    and "metrics_db D table db_up storable"
    and "length (ls_batch_ids st) < BATCH_SIZE" "length (ls_batch st) \<le> length (ls_batch_ids st)"
    and "read_new X c st w = (Inr st1, w1)" "run_iteration X D nan_order c ts st w = Some (Inr st', w')"
  shows "length (ls_batch st1) \<le> BATCH_SIZE \<and> length (ls_batch_ids st1) < 2 * BATCH_SIZE \<and>
    length (ls_batch_ids st') < BATCH_SIZE \<and> length (ls_batch st') \<le> length (ls_batch_ids st')"
proof -
  note env = analytics_envI [OF assms(1,2)]
  have "analytics_env.batch_bounded st" using assms(3,4) by (simp add: analytics_env.batch_bounded_def [OF env])
  with analytics_env.read_new_bound [OF env assms(5)] analytics_env.iteration_bound [OF env assms(6)]
  show ?thesis by (simp add: analytics_env.batch_bounded_def [OF env])
qed

theorem batch_stays_bounded_witness:
  "\<exists>st1 w1 st' w'. read_new sample_ops ''c1'' (loop_start 0 0) (one_pending, empty_db) = (Inr st1, w1) \<and>
     run_iteration sample_ops ref_db_ops (\<lambda>xs. xs) ''c1'' (0, 0, 0, 0) (loop_start 0 0) (one_pending, empty_db) = Some (Inr st', w') \<and>
     length (ls_batch_ids st') < BATCH_SIZE"
proof -
  obtain st1 w1 where rd: "read_new sample_ops ''c1'' (loop_start 0 0) (one_pending, empty_db) = (Inr st1, w1)"
    by (simp add: read_new_def ref_stream_ops_def Let_def)
  then have "ls_batch_ids st1 = []" "ls_last_orphan_sweep st1 = 0"
    by (auto simp: read_new_def ref_stream_ops_def Let_def loop_start_def one_pending_def)
  with rd have it: "run_iteration sample_ops ref_db_ops (\<lambda>xs. xs) ''c1'' (0, 0, 0, 0) (loop_start 0 0) (one_pending, empty_db) =
      Some (Inr st1, w1)"
    by (simp add: run_iteration_def flush_if_due_def flush_due_def sweep_if_due_def ORPHAN_SWEEP_EVERY_S_def)
  show ?thesis using batch_stays_bounded [OF ref_laws _ _ rd it] rd it by (simp add: loop_start_def)
qed

end
