(* ===== verification/Dedup.thy ===== *)
theory Dedup
  imports Prelude
begin

section \<open>Alert deduplication\<close>

text \<open>
  \<open>consumers/alerts/dedup.py\<close>: the module state is the dictionary \<open>_recent\<close> and the time of the
  last sweep; \<open>should_publish\<close> takes the reading of \<open>time.time()\<close> as an argument. The
  implementation, which forgets expired entries in periodic sweeps, is shown to answer like a
  specification that remembers every window ever opened; the spacing of published alerts and
  the bound on what is remembered follow from it.
\<close>

definition DEDUP_WINDOW_S :: real where
  "DEDUP_WINDOW_S = 60"

definition SWEEP_EVERY_S :: real where
  "SWEEP_EVERY_S = 5"

type_synonym alert_key = "string \<times> string"

record dedup_entry =
  first_seen :: real
  alert_count :: int

record dedup_state =
  dd_recent :: "(alert_key, dedup_entry) dict"
  dd_last_sweep :: real

definition dedup_init :: dedup_state where
  "dedup_init = \<lparr>dd_recent = [], dd_last_sweep = 0\<rparr>"

definition sweep :: "real \<Rightarrow> dedup_state \<Rightarrow> dedup_state" where
  "sweep now st =
     (if now - dd_last_sweep st < SWEEP_EVERY_S then st
      else let expired = map fst (filter (\<lambda>(k, e). now - first_seen e > DEDUP_WINDOW_S) (dd_recent st))
           in \<lparr>dd_recent = dict_pops expired (dd_recent st), dd_last_sweep = now\<rparr>)"

definition should_publish :: "real \<Rightarrow> string \<Rightarrow> string \<Rightarrow> dedup_state \<Rightarrow> (bool \<times> int) \<times> dedup_state" where
  "should_publish now alert_type source_key st =
     (let st1 = sweep now st;
          key = (alert_type, source_key);
          fresh = ((True, 1), st1\<lparr>dd_recent := dict_set key \<lparr>first_seen = now, alert_count = 1\<rparr> (dd_recent st1)\<rparr>)
      in case dict_get (dd_recent st1) key of
           None \<Rightarrow> fresh
         | Some entry \<Rightarrow>
             if now - first_seen entry > DEDUP_WINDOW_S then fresh
             else ((False, alert_count entry + 1),
                   st1\<lparr>dd_recent := dict_set key (entry\<lparr>alert_count := alert_count entry + 1\<rparr>) (dd_recent st1)\<rparr>))"

text \<open>A run of calls, as times with keys, and its answers.\<close>

fun dedup_run :: "(real \<times> alert_key) list \<Rightarrow> dedup_state \<Rightarrow> (bool \<times> int) list \<times> dedup_state" where
  "dedup_run [] st = ([], st)"
| "dedup_run ((now, k) # calls) st =
     (let (a, st1) = should_publish now (fst k) (snd k) st; (as, st2) = dedup_run calls st1 in (a # as, st2))"

subsection \<open>Specification\<close>

text \<open>
  The specification remembers, for every key, when its current window opened and how many
  alerts it has seen.
\<close>

type_synonym dedup_spec = "alert_key \<Rightarrow> (real \<times> int) option"

definition spec_publish :: "real \<Rightarrow> alert_key \<Rightarrow> dedup_spec \<Rightarrow> (bool \<times> int) \<times> dedup_spec" where
  "spec_publish now k m =
     (case m k of
        Some (t, n) \<Rightarrow> if now - t \<le> 60 then ((False, n + 1), m(k \<mapsto> (t, n + 1))) else ((True, 1), m(k \<mapsto> (now, 1)))
      | None \<Rightarrow> ((True, 1), m(k \<mapsto> (now, 1))))"

fun dedup_spec_run :: "(real \<times> alert_key) list \<Rightarrow> dedup_spec \<Rightarrow> (bool \<times> int) list" where
  "dedup_spec_run [] m = []"
| "dedup_spec_run ((now, k) # calls) m =
     (let (a, m1) = spec_publish now k m in a # dedup_spec_run calls m1)"

subsection \<open>Refinement\<close>

lemma dict_get_sweep:
  assumes "dict_wf (dd_recent st)"
  shows "dict_get (dd_recent (sweep now st)) k =
    (case dict_get (dd_recent st) k of None \<Rightarrow> None
     | Some e \<Rightarrow> if SWEEP_EVERY_S \<le> now - dd_last_sweep st \<and> now - first_seen e > DEDUP_WINDOW_S then None else Some e)"
proof -
  have "k \<in> fst ` set (filter (\<lambda>(k, e). now - first_seen e > DEDUP_WINDOW_S) (dd_recent st)) \<longleftrightarrow>
      (\<exists>e. (k, e) \<in> set (dd_recent st) \<and> now - first_seen e > DEDUP_WINDOW_S)"
    by (rule in_selected_keys)
  also have "\<dots> \<longleftrightarrow> (\<exists>e. dict_get (dd_recent st) k = Some e \<and> now - first_seen e > DEDUP_WINDOW_S)"
    by (simp add: dict_wf_get_iff [OF assms])
  finally show ?thesis by (auto simp: sweep_def Let_def dict_simps split: option.splits)
qed

lemma sweep_absent: "dict_get (dd_recent st) k = None \<Longrightarrow> dict_get (dd_recent (sweep now st)) k = None"
  by (simp add: sweep_def Let_def dict_simps)

text \<open>An alert that is not remembered is published; asking about one says nothing about another.\<close>

lemma should_publish_unseen:
  "dict_get (dd_recent st) (alert_type, source_key) = None \<Longrightarrow> fst (should_publish now alert_type source_key st) = (True, 1)"
  by (simp add: should_publish_def Let_def sweep_absent)

lemma should_publish_unrelated:
  "k \<noteq> (alert_type, source_key) \<Longrightarrow> dict_get (dd_recent st) k = None \<Longrightarrow>
   dict_get (dd_recent (snd (should_publish now alert_type source_key st))) k = None"
  by (simp add: should_publish_def Let_def sweep_absent dict_simps split: option.split)

lemma dict_wf_sweep [simp]: "dict_wf (dd_recent st) \<Longrightarrow> dict_wf (dd_recent (sweep now st))"
  by (simp add: sweep_def Let_def)

text \<open>
  The relation with the specification at a time: a remembered entry is the specification's, and
  a window the implementation has forgotten is over.
\<close>

definition key_rel :: "real \<Rightarrow> dedup_entry option \<Rightarrow> (real \<times> int) option \<Rightarrow> bool" where
  "key_rel now eo mo = (case eo of Some e \<Rightarrow> mo = Some (first_seen e, alert_count e)
     | None \<Rightarrow> (case mo of None \<Rightarrow> True | Some (t, n) \<Rightarrow> now - t > 60))"

definition dedup_rel :: "real \<Rightarrow> dedup_state \<Rightarrow> dedup_spec \<Rightarrow> bool" where
  "dedup_rel now st m \<longleftrightarrow> dict_wf (dd_recent st) \<and> (\<forall>k. key_rel now (dict_get (dd_recent st) k) (m k))"

lemma dedup_relD: "dedup_rel now st m \<Longrightarrow> key_rel now (dict_get (dd_recent st) k) (m k)"
  unfolding dedup_rel_def by blast

lemma key_rel_later: "key_rel t eo mo \<Longrightarrow> t \<le> now \<Longrightarrow> key_rel now eo mo"
  by (auto simp: key_rel_def split: option.splits)

lemma dedup_rel_later: "dedup_rel t st m \<Longrightarrow> t \<le> now \<Longrightarrow> dedup_rel now st m"
  unfolding dedup_rel_def by (blast intro: key_rel_later)

lemma dedup_rel_sweep:
  assumes "dedup_rel now st m"
  shows "dedup_rel now (sweep now st) m"
proof -
  have wf: "dict_wf (dd_recent st)" using assms by (simp add: dedup_rel_def)
  have "key_rel now (dict_get (dd_recent (sweep now st)) k) (m k)" for k
    using dedup_relD [OF assms, of k]
    by (auto simp: dict_get_sweep [OF wf] key_rel_def DEDUP_WINDOW_S_def split: option.splits)
  with wf show ?thesis unfolding dedup_rel_def by simp
qed

lemma dedup_rel_set:
  assumes "dedup_rel now st m"
  shows "dedup_rel now (st\<lparr>dd_recent := dict_set k e (dd_recent st)\<rparr>) (m(k \<mapsto> (first_seen e, alert_count e)))"
proof -
  have "key_rel now (dict_get (dict_set k e (dd_recent st)) k') ((m(k \<mapsto> (first_seen e, alert_count e))) k')" for k'
    using dedup_relD [OF assms, of k'] by (cases "k' = k") (simp_all add: dict_simps key_rel_def [of _ "Some e"])
  with assms show ?thesis unfolding dedup_rel_def by simp
qed

lemma should_publish_refines:
  assumes "dedup_rel now st m"
  shows "fst (should_publish now (fst k) (snd k) st) = fst (spec_publish now k m) \<and>
    dedup_rel now (snd (should_publish now (fst k) (snd k) st)) (snd (spec_publish now k m))"
proof -
  let ?st1 = "sweep now st"
  have rel: "dedup_rel now ?st1 m" using assms by (rule dedup_rel_sweep)
  note k = dedup_relD [OF rel, of k]
  show ?thesis
  proof (cases "dict_get (dd_recent ?st1) k")
    case None
    with k have "spec_publish now k m = ((True, 1), m(k \<mapsto> (now, 1)))"
      by (auto simp: spec_publish_def key_rel_def split: option.splits)
    with None dedup_rel_set [OF rel, of k "\<lparr>first_seen = now, alert_count = 1\<rparr>"] show ?thesis
      by (simp add: should_publish_def Let_def)
  next
    case (Some e)
    with k have "m k = Some (first_seen e, alert_count e)" by (simp add: key_rel_def)
    with Some dedup_rel_set [OF rel, of k "\<lparr>first_seen = now, alert_count = 1\<rparr>"]
      dedup_rel_set [OF rel, of k "e\<lparr>alert_count := alert_count e + 1\<rparr>"]
    show ?thesis by (auto simp: should_publish_def spec_publish_def DEDUP_WINDOW_S_def Let_def)
  qed
qed

lemma dedup_run_refines:
  assumes "sorted (t\<^sub>0 # map fst calls)" "dedup_rel t\<^sub>0 st m"
  shows "fst (dedup_run calls st) = dedup_spec_run calls m"
  using assms
proof (induction calls arbitrary: t\<^sub>0 st m)
  case (Cons c calls)
  obtain now k where c: "c = (now, k)" by (metis surj_pair)
  have "dedup_rel now st m" using Cons.prems c by (auto intro: dedup_rel_later)
  from should_publish_refines [OF this, of k] Cons.IH [of now] Cons.prems c show ?case
    by (auto simp: split_beta)
qed simp

lemma dedup_rel_init: "dedup_rel t dedup_init Map.empty"
  by (simp add: dedup_rel_def dedup_init_def key_rel_def)

subsection \<open>Spacing\<close>

text \<open>The times at which a run publishes a given key.\<close>

definition published :: "alert_key \<Rightarrow> (real \<times> alert_key) list \<Rightarrow> (bool \<times> int) list \<Rightarrow> real list" where
  "published k calls answers = map (\<lambda>((t, _), _). t) (filter (\<lambda>((t, k'), (p, _)). p \<and> k' = k) (zip calls answers))"

text \<open>Consecutive elements more than a window apart; for a sorted list then all are.\<close>

fun spaced :: "real \<Rightarrow> real list \<Rightarrow> bool" where
  "spaced d (x # y # zs) = (y - x > d \<and> spaced d (y # zs))"
| "spaced d _ = True"

lemma spaced_Cons: "spaced d (x # xs) \<longleftrightarrow> spaced d xs \<and> (xs \<noteq> [] \<longrightarrow> hd xs - x > d)"
  by (cases xs) auto

lemma published_Cons [simp]:
  "published k ((t, k') # calls) ((p, n) # as) = (if p \<and> k' = k then t # published k calls as else published k calls as)"
  by (simp add: published_def)

lemma published_Nil [simp]: "published k [] as = []"
  by (simp add: published_def)

lemma dedup_spec_spaced:
  "spaced 60 ((case m k of None \<Rightarrow> [] | Some (t, n) \<Rightarrow> [t]) @ published k calls (dedup_spec_run calls m))"
proof (induction calls arbitrary: m)
  case Nil
  then show ?case by (auto split: option.splits)
next
  case (Cons c calls)
  obtain now k' where c: "c = (now, k')" by (metis surj_pair)
  obtain p n m' where sp: "spec_publish now k' m = ((p, n), m')" by (metis surj_pair)
  show ?case
  proof (cases "k' = k \<and> p")
    case False
    then have "(case m' k of None \<Rightarrow> [] | Some (t, n) \<Rightarrow> [t]) = (case m k of None \<Rightarrow> [] | Some (t, n) \<Rightarrow> [t])"
      using sp by (auto simp: spec_publish_def split: option.splits if_splits)
    with Cons.IH [of m'] False sp c show ?thesis by auto
  next
    case True
    then have m': "m' k = Some (now, 1)" and gap: "\<And>t n. m k = Some (t, n) \<Longrightarrow> now - t > 60"
      using sp by (auto simp: spec_publish_def split: option.splits if_splits)
    from Cons.IH [of m'] m' have "spaced 60 (now # published k calls (dedup_spec_run calls m'))" by simp
    with True gap sp c show ?thesis by (cases "m k") auto
  qed
qed

lemma published_counts:
  "((t, k), (True, n)) \<in> set (zip calls (dedup_spec_run calls m)) \<Longrightarrow> n = 1"
  by (induction calls m rule: dedup_spec_run.induct)
    (auto simp: spec_publish_def split_beta split: option.splits if_splits)

lemma spaced_sorted_wrt: "0 \<le> d \<Longrightarrow> spaced d xs \<Longrightarrow> sorted_wrt (\<lambda>x y. y - x > d) xs"
proof (induction xs)
  case (Cons x xs)
  then have xs: "sorted_wrt (\<lambda>x y. y - x > d) xs" by (simp add: spaced_Cons)
  show ?case
  proof (cases xs)
    case (Cons y ys)
    with \<open>spaced d (x # xs)\<close> have "y - x > d" by simp
    with xs Cons \<open>0 \<le> d\<close> show ?thesis by fastforce
  qed simp
qed simp

subsection \<open>What is remembered\<close>

text \<open>No remembered window opened more than \<open>DEDUP_WINDOW_S\<close> before the last sweep.\<close>

definition dedup_inv :: "real \<Rightarrow> dedup_state \<Rightarrow> bool" where
  "dedup_inv now st \<longleftrightarrow> dict_wf (dd_recent st) \<and> dd_last_sweep st \<le> now \<and>
     (\<forall>e \<in> snd ` set (dd_recent st). dd_last_sweep st - 60 \<le> first_seen e)"

lemma dedup_inv_get: "dedup_inv now st \<Longrightarrow> dict_get (dd_recent st) k = Some e \<Longrightarrow> dd_last_sweep st - 60 \<le> first_seen e"
  by (force simp: dedup_inv_def dest: map_of_SomeD)

lemma snd_dict_set: "dict_wf d \<Longrightarrow> snd ` set (dict_set k v d) \<subseteq> insert v (snd ` set d)"
  by (induction d) auto

lemma sweep_inv:
  assumes "dedup_inv t st" "t \<le> now"
  shows "dedup_inv now (sweep now st) \<and> now - dd_last_sweep (sweep now st) < 5"
proof (cases "now - dd_last_sweep st < SWEEP_EVERY_S")
  case True
  with assms show ?thesis by (auto simp: sweep_def dedup_inv_def SWEEP_EVERY_S_def)
next
  case False
  then have ls: "dd_last_sweep (sweep now st) = now" by (simp add: sweep_def Let_def)
  have wf: "dict_wf (dd_recent st)" using assms by (simp add: dedup_inv_def)
  have "now - 60 \<le> first_seen e" if "(k, e) \<in> set (dd_recent (sweep now st))" for k e
  proof -
    have "dict_get (dd_recent (sweep now st)) k = Some e" using that wf by (simp add: dict_wf_get_iff [symmetric])
    with False show ?thesis
      by (auto simp: dict_get_sweep [OF wf] DEDUP_WINDOW_S_def split: option.splits if_splits)
  qed
  with ls wf show ?thesis by (auto simp: dedup_inv_def)
qed

lemma should_publish_inv:
  assumes "dedup_inv t st" "t \<le> now"
  shows "dedup_inv now (snd (should_publish now a b st)) \<and>
    now - dd_last_sweep (snd (should_publish now a b st)) < 5"
proof -
  let ?st1 = "sweep now st"
  have inv: "dedup_inv now ?st1" "now - dd_last_sweep ?st1 < 5" using sweep_inv [OF assms] by auto
  have set: "dedup_inv now (?st1\<lparr>dd_recent := dict_set k e (dd_recent ?st1)\<rparr>)" if "dd_last_sweep ?st1 - 60 \<le> first_seen e" for k e
  proof -
    have "\<forall>x \<in> snd ` set (dict_set k e (dd_recent ?st1)). dd_last_sweep ?st1 - 60 \<le> first_seen x"
      using inv(1) that snd_dict_set [of "dd_recent ?st1" k e] unfolding dedup_inv_def by blast
    with inv(1) show ?thesis by (simp add: dedup_inv_def)
  qed
  have new: "dedup_inv now (?st1\<lparr>dd_recent := dict_set (a, b) \<lparr>first_seen = now, alert_count = 1\<rparr> (dd_recent ?st1)\<rparr>)"
    by (rule set) (use inv(1) in \<open>simp add: dedup_inv_def\<close>)
  show ?thesis
  proof (cases "dict_get (dd_recent ?st1) (a, b)")
    case (Some e)
    have "dedup_inv now (?st1\<lparr>dd_recent := dict_set (a, b) (e\<lparr>alert_count := alert_count e + 1\<rparr>) (dd_recent ?st1)\<rparr>)"
      by (rule set) (use dedup_inv_get [OF inv(1) Some] in simp)
    with Some new inv(2) show ?thesis by (simp add: should_publish_def Let_def)
  qed (use new inv(2) in \<open>simp add: should_publish_def Let_def\<close>)
qed

lemma dedup_run_inv:
  assumes "sorted (t # map fst calls)" "dedup_inv t st" "calls \<noteq> []"
  shows "dedup_inv (fst (List.last calls)) (snd (dedup_run calls st)) \<and>
    fst (List.last calls) - dd_last_sweep (snd (dedup_run calls st)) < 5"
  using assms
proof (induction calls arbitrary: t st)
  case (Cons c calls)
  obtain now k where c: "c = (now, k)" by (metis surj_pair)
  let ?st1 = "snd (should_publish now (fst k) (snd k) st)"
  have inv: "dedup_inv now ?st1" "now - dd_last_sweep ?st1 < 5"
    using should_publish_inv [OF Cons.prems(2)] Cons.prems(1) c by auto
  have run: "snd (dedup_run (c # calls) st) = snd (dedup_run calls ?st1)" by (simp add: c split_beta)
  show ?case
  proof (cases "calls = []")
    case True
    with inv c run show ?thesis by simp
  next
    case False
    with Cons.IH [OF _ inv(1) False] Cons.prems(1) c run show ?thesis by simp
  qed
qed simp

subsection \<open>Properties\<close>

text \<open>
  C24: Sweeping is unobservable. For calls in clock order, \<open>should_publish\<close> answers exactly like
  the specification that never forgets a window: the first alert of a (type, source) publishes
  with count 1, later ones within 60 seconds of it are suppressed and counted, and the first one
  after more than 60 seconds opens a new window.
\<close>

theorem dedup_answers_like_spec:
  assumes "sorted (map fst calls)"
  shows "fst (dedup_run calls dedup_init) = dedup_spec_run calls Map.empty"
proof (cases calls)
  case (Cons c cs)
  with assms show ?thesis
    using dedup_run_refines [OF _ dedup_rel_init, of "fst c" calls] by auto
qed simp

definition dedup_calls :: "(real \<times> alert_key) list" where
  "dedup_calls = [(100, (''SQLI'', ''ip1'')), (101, (''XSS'', ''ip1'')), (130, (''SQLI'', ''ip1'')),
     (160, (''SQLI'', ''ip1'')), (161, (''SQLI'', ''ip1''))]"

lemma dedup_calls_sorted: "sorted (map fst dedup_calls)"
  by (simp add: dedup_calls_def)

theorem dedup_answers_like_spec_witness:
  "fst (dedup_run dedup_calls dedup_init) = [(True, 1), (True, 1), (False, 2), (False, 3), (True, 1)]"
  unfolding dedup_answers_like_spec [OF dedup_calls_sorted]
  by (simp add: dedup_calls_def spec_publish_def)

text \<open>
  No alert flood. In a run of calls in clock order, any two published alerts of the same
  (type, source) are more than 60 seconds apart, and every published alert carries the count 1:
  the suppressed ones are counted but the count is never published.
\<close>

theorem published_alerts_spaced:
  assumes "sorted (map fst calls)"
  shows "sorted_wrt (\<lambda>x y. y - x > DEDUP_WINDOW_S) (published k calls (fst (dedup_run calls dedup_init))) \<and>
    (\<forall>(c, p, n) \<in> set (zip calls (fst (dedup_run calls dedup_init))). p \<longrightarrow> n = 1)"
proof -
  have run: "fst (dedup_run calls dedup_init) = dedup_spec_run calls Map.empty"
    using dedup_run_refines [OF _ dedup_rel_init, of "fst (hd calls)" calls] assms by (cases calls) auto
  have "spaced 60 (published k calls (dedup_spec_run calls Map.empty))"
    using dedup_spec_spaced [of Map.empty k calls] by simp
  then show ?thesis using published_counts [of _ _ _ calls Map.empty]
    by (auto simp: run DEDUP_WINDOW_S_def intro: spaced_sorted_wrt)
qed

theorem published_alerts_spaced_witness:
  "published (''SQLI'', ''ip1'') dedup_calls (fst (dedup_run dedup_calls dedup_init)) = [100, 161] \<and>
   sorted_wrt (\<lambda>x y. y - x > DEDUP_WINDOW_S) [100, 161]"
proof -
  have "fst (dedup_run dedup_calls dedup_init) = dedup_spec_run dedup_calls Map.empty"
    using dedup_run_refines [OF _ dedup_rel_init, of 100 dedup_calls] by (simp add: dedup_calls_def)
  then have "published (''SQLI'', ''ip1'') dedup_calls (fst (dedup_run dedup_calls dedup_init)) = [100, 161]"
    by (simp add: dedup_calls_def spec_publish_def)
  with published_alerts_spaced [OF dedup_calls_sorted, of "(''SQLI'', ''ip1'')"] show ?thesis by simp
qed

text \<open>
  Memory is bounded by recent traffic. After a run of calls at nonnegative times in clock
  order, every remembered window opened less than 65 seconds before the last call, so a source
  that never returns is forgotten: the dictionary holds at most one entry per (type, source)
  seen in that time.
\<close>

theorem dedup_remembers_recent_only:
  assumes "sorted (0 # map fst calls)" "calls \<noteq> []"
    and "dict_get (dd_recent (snd (dedup_run calls dedup_init))) k = Some e"
  shows "fst (List.last calls) - first_seen e < DEDUP_WINDOW_S + SWEEP_EVERY_S"
proof -
  have "dedup_inv 0 dedup_init" by (simp add: dedup_inv_def dedup_init_def)
  from dedup_run_inv [OF assms(1) this assms(2)] dedup_inv_get [OF _ assms(3)]
  show ?thesis by (fastforce simp: DEDUP_WINDOW_S_def SWEEP_EVERY_S_def)
qed

theorem dedup_remembers_recent_only_witness:
  "dict_get (dd_recent (snd (dedup_run dedup_calls dedup_init))) (''XSS'', ''ip1'') = Some \<lparr>first_seen = 101, alert_count = 1\<rparr> \<and>
   fst (List.last dedup_calls) - first_seen \<lparr>first_seen = 101, alert_count = 1\<rparr> < DEDUP_WINDOW_S + SWEEP_EVERY_S"
proof -
  have "dict_get (dd_recent (snd (dedup_run dedup_calls dedup_init))) (''XSS'', ''ip1'') = Some \<lparr>first_seen = 101, alert_count = 1\<rparr>"
    by (simp add: dedup_calls_def dedup_init_def should_publish_def sweep_def Let_def SWEEP_EVERY_S_def DEDUP_WINDOW_S_def
        dict_pops_def)
  with dedup_remembers_recent_only [OF _ _ this] show ?thesis by (simp add: dedup_calls_def)
qed

end
