(* ===== verification/Rps_Window.thy ===== *)
theory Rps_Window
  imports Prelude
begin

section \<open>Requests per second\<close>

text \<open>
  \<open>consumers/alerts/rps_window.py\<close>: arrivals are counted into one dictionary per wall-clock
  second, and \<open>tick\<close> drains the seconds that are over. The state is the attribute \<open>_buckets\<close>; the
  readings of the clock are arguments. The state is shown to be a function of the arrivals not
  yet drained, and a tick to split them.
\<close>

type_synonym rps_state = "(int, (string, int) dict) dict"

definition rps_record :: "real \<Rightarrow> string \<Rightarrow> rps_state \<Rightarrow> rps_state" where
  "rps_record now endpoint buckets =
     (let sec = py_int now;
          bucket = (case dict_get buckets sec of None \<Rightarrow> [] | Some b \<Rightarrow> b);
          n = (case dict_get bucket endpoint of None \<Rightarrow> 0 | Some n \<Rightarrow> n)
      in dict_set sec (dict_set endpoint (n + 1) bucket) buckets)"

text \<open>The loop of \<open>tick\<close> over the seconds to drain, which are keys of the dictionary.\<close>

fun tick_loop :: "int list \<Rightarrow> rps_state \<Rightarrow> (string \<times> real) list \<Rightarrow> (string \<times> real) list \<times> rps_state" where
  "tick_loop [] buckets out = (out, buckets)"
| "tick_loop (sec # secs) buckets out =
     (let bucket = (case dict_get buckets sec of None \<Rightarrow> [] | Some b \<Rightarrow> b)
      in tick_loop secs (dict_pop sec buckets) (out @ map (\<lambda>(endpoint, n). (endpoint, real_of_int n)) bucket))"

definition tick :: "real \<Rightarrow> rps_state \<Rightarrow> (string \<times> real) list \<times> rps_state" where
  "tick now buckets =
     (let current = py_int now
      in tick_loop (sort (filter (\<lambda>s. s < current) (map fst buckets))) buckets [])"

subsection \<open>The state as a function of the arrivals\<close>

text \<open>Arrivals are pairs of a second and an endpoint.\<close>

definition bucket_of_sec :: "(int \<times> string) list \<Rightarrow> int \<Rightarrow> (string, int) dict" where
  "bucket_of_sec arr s = tally (map snd (filter (\<lambda>a. fst a = s) arr))"

definition buckets_of :: "(int \<times> string) list \<Rightarrow> rps_state" where
  "buckets_of arr = map (\<lambda>s. (s, bucket_of_sec arr s)) (firsts (map fst arr))"

text \<open>One sample per second and endpoint, the seconds in ascending order.\<close>

definition samples_of :: "(int \<times> string) list \<Rightarrow> (string \<times> real) list" where
  "samples_of arr = concat (map (\<lambda>s. map (\<lambda>(endpoint, n). (endpoint, real_of_int n)) (bucket_of_sec arr s))
     (sort (firsts (map fst arr))))"

definition arrivals :: "(real \<times> string) list \<Rightarrow> (int \<times> string) list" where
  "arrivals recs = map (\<lambda>(t, endpoint). (py_int t, endpoint)) recs"

lemma bucket_of_sec_snoc:
  "bucket_of_sec (arr @ [(s, e)]) s' =
     (if s' = s then dict_set e ((case dict_get (bucket_of_sec arr s) e of None \<Rightarrow> 0 | Some n \<Rightarrow> n) + 1) (bucket_of_sec arr s)
      else bucket_of_sec arr s')"
  by (simp add: bucket_of_sec_def tally_snoc)

lemma bucket_of_sec_absent: "s \<notin> fst ` set arr \<Longrightarrow> bucket_of_sec arr s = []"
proof -
  assume "s \<notin> fst ` set arr"
  then have "filter (\<lambda>a. fst a = s) arr = []" by (auto simp: filter_empty_conv)
  then show ?thesis by (simp add: bucket_of_sec_def tally_def)
qed

lemma dict_get_buckets_of:
  "dict_get (buckets_of arr) s = (if s \<in> fst ` set arr then Some (bucket_of_sec arr s) else None)"
  by (simp add: buckets_of_def dict_simps)

lemma rps_record_buckets_of:
  "rps_record t e (buckets_of arr) = buckets_of (arr @ [(py_int t, e)])"
proof -
  let ?s = "py_int t"
  have b: "(case dict_get (buckets_of arr) ?s of None \<Rightarrow> [] | Some b \<Rightarrow> b) = bucket_of_sec arr ?s"
    by (simp add: dict_get_buckets_of bucket_of_sec_absent)
  have "rps_record t e (buckets_of arr) = dict_set ?s (bucket_of_sec (arr @ [(?s, e)]) ?s) (buckets_of arr)"
    by (simp add: rps_record_def Let_def b bucket_of_sec_snoc)
  also have "\<dots> = buckets_of (arr @ [(?s, e)])"
    unfolding buckets_of_def dict_set_tabulate [OF distinct_firsts]
    by (auto simp: firsts_snoc bucket_of_sec_snoc)
  finally show ?thesis .
qed

lemma rps_records_buckets_of:
  "fold (\<lambda>(t, e). rps_record t e) recs (buckets_of arr) = buckets_of (arr @ arrivals recs)"
  by (induction recs arbitrary: arr) (auto simp: rps_record_buckets_of arrivals_def)

lemma tick_loop_eq:
  "distinct secs \<Longrightarrow> tick_loop secs buckets out =
     (out @ concat (map (\<lambda>s. map (\<lambda>(endpoint, n). (endpoint, real_of_int n))
        (case dict_get buckets s of None \<Rightarrow> [] | Some b \<Rightarrow> b)) secs), dict_pops secs buckets)"
proof (induction secs arbitrary: buckets out)
  case (Cons s secs)
  let ?g = "\<lambda>o'. map (\<lambda>(endpoint, n). (endpoint, real_of_int n)) (case o' of None \<Rightarrow> [] | Some b \<Rightarrow> b)"
  have "concat (map (\<lambda>s'. ?g (dict_get (dict_pop s buckets) s')) secs) = concat (map (\<lambda>s'. ?g (dict_get buckets s')) secs)"
    using Cons.prems by (intro arg_cong [where f = concat] map_cong) (auto simp: dict_simps)
  with Cons.prems show ?case by (simp only: tick_loop.simps Let_def Cons.IH distinct.simps) (simp add: dict_pops_def)
qed (simp add: dict_pops_def)

lemma dict_pops_tabulate:
  "dict_pops ks (map (\<lambda>k. (k, f k)) ks') = map (\<lambda>k. (k, f k)) (filter (\<lambda>k. k \<notin> set ks) ks')"
proof -
  have pop: "dict_pop k (map (\<lambda>k. (k, f k)) ks') = map (\<lambda>k. (k, f k)) (filter (\<lambda>k'. k' \<noteq> k) ks')" for k ks'
    by (induction ks') auto
  show ?thesis unfolding dict_pops_def
    by (induction ks arbitrary: ks') (auto simp: pop conj_commute intro: filter_cong)
qed

lemma bucket_of_sec_filter: "P s \<Longrightarrow> bucket_of_sec (filter (\<lambda>a. P (fst a)) arr) s = bucket_of_sec arr s"
  unfolding bucket_of_sec_def by (simp add: conj_commute) (metis (mono_tags, lifting))

lemma tick_splits:
  "tick now (buckets_of arr) =
     (samples_of (filter (\<lambda>a. fst a < py_int now) arr), buckets_of (filter (\<lambda>a. \<not> fst a < py_int now) arr))"
proof -
  let ?cur = "py_int now"
  let ?secs = "sort (filter (\<lambda>s. s < ?cur) (firsts (map fst arr)))"
  have keys: "map fst (buckets_of arr) = firsts (map fst arr)" by (simp add: buckets_of_def comp_def)
  have secs: "firsts (map fst (filter (\<lambda>a. P (fst a)) arr)) = filter P (firsts (map fst arr))" for P
    by (simp add: firsts_filter [symmetric] filter_map comp_def)
  have "tick now (buckets_of arr) = (concat (map (\<lambda>s. map (\<lambda>(endpoint, n). (endpoint, real_of_int n))
        (case dict_get (buckets_of arr) s of None \<Rightarrow> [] | Some b \<Rightarrow> b)) ?secs), dict_pops ?secs (buckets_of arr))"
    by (simp add: tick_def Let_def keys tick_loop_eq)
  moreover have "map (\<lambda>s. map (\<lambda>(endpoint, n). (endpoint, real_of_int n))
        (case dict_get (buckets_of arr) s of None \<Rightarrow> [] | Some b \<Rightarrow> b)) ?secs =
      map (\<lambda>s. map (\<lambda>(endpoint, n). (endpoint, real_of_int n)) (bucket_of_sec (filter (\<lambda>a. fst a < ?cur) arr) s)) ?secs"
    by (intro map_cong refl arg_cong2 [where f = map])
      (auto simp: dict_get_buckets_of bucket_of_sec_filter [where P = "\<lambda>s. s < ?cur"])
  moreover have "dict_pops ?secs (buckets_of arr) = buckets_of (filter (\<lambda>a. \<not> fst a < ?cur) arr)"
  proof -
    have "filter (\<lambda>s. s \<notin> set ?secs) (firsts (map fst arr)) = filter (\<lambda>s. \<not> s < ?cur) (firsts (map fst arr))"
      by (intro filter_cong) auto
    then show ?thesis unfolding buckets_of_def dict_pops_tabulate secs [where P = "\<lambda>s. \<not> s < ?cur"]
      by (auto simp: bucket_of_sec_filter [where P = "\<lambda>s. \<not> s < ?cur"])
  qed
  ultimately show ?thesis by (simp add: samples_of_def secs [where P = "\<lambda>s. s < ?cur"])
qed

subsection \<open>Properties\<close>

lemma buckets_of_Nil [simp]: "buckets_of [] = []"
  by (simp add: buckets_of_def)

text \<open>
  A tick reports exactly the seconds that are over. After any arrivals, \<open>tick\<close> returns one
  sample per elapsed second and endpoint, the number of arrivals in that second, seconds in
  ascending order and endpoints in order of arrival; it leaves exactly the arrivals of the
  current and later seconds, so no arrival is reported twice or in a partial second.
\<close>

theorem tick_reports_elapsed_seconds:
  "tick now (fold (\<lambda>(t, e). rps_record t e) recs []) =
     (samples_of (filter (\<lambda>a. fst a < py_int now) (arrivals recs)),
      fold (\<lambda>(t, e). rps_record t e) (filter (\<lambda>(t, e). \<not> py_int t < py_int now) recs) [])"
proof -
  have "arrivals (filter (\<lambda>(t, e). \<not> py_int t < py_int now) recs) = filter (\<lambda>a. \<not> fst a < py_int now) (arrivals recs)"
    by (induction recs) (auto simp: arrivals_def)
  then show ?thesis
    using tick_splits [of now "arrivals recs"] rps_records_buckets_of [of _ "[]"] by simp
qed

text \<open>A run of the counter: arrivals and ticks at any times.\<close>

datatype rps_op = Record real string | Tick real

fun rps_run :: "rps_op list \<Rightarrow> rps_state \<Rightarrow> (string \<times> real) list \<times> rps_state" where
  "rps_run [] b = ([], b)"
| "rps_run (Record t e # ops) b = rps_run ops (rps_record t e b)"
| "rps_run (Tick t # ops) b = (let (out, b1) = tick t b; (outs, b2) = rps_run ops b1 in (out @ outs, b2))"

definition sampled :: "string \<Rightarrow> (string \<times> real) list \<Rightarrow> real" where
  "sampled e xs = sum_list (map snd (filter (\<lambda>x. fst x = e) xs))"

definition recorded :: "string \<Rightarrow> rps_op list \<Rightarrow> nat" where
  "recorded e ops = length (filter (\<lambda>op. \<exists>t. op = Record t e) ops)"

definition waiting :: "string \<Rightarrow> rps_state \<Rightarrow> real" where
  "waiting e b = sum_list (map (\<lambda>(s, bucket). case dict_get bucket e of None \<Rightarrow> 0 | Some n \<Rightarrow> real_of_int n) b)"

lemma sampled_append [simp]: "sampled e (xs @ ys) = sampled e xs + sampled e ys"
  by (simp add: sampled_def)

lemma sampled_concat: "sampled e (concat xss) = sum_list (map (sampled e) xss)"
  by (induction xss) (simp_all add: sampled_def)

lemma sampled_tabulate: "distinct ks \<Longrightarrow> sampled e (map (\<lambda>x. (x, f x)) ks) = (if e \<in> set ks then f e else 0)"
  by (induction ks) (auto simp: sampled_def)

lemma sampled_tally: "sampled e (map (\<lambda>(x, n). (x, real_of_int n)) (tally xs)) = real (count_list xs e)"
proof -
  have "map (\<lambda>(x, n). (x, real_of_int n)) (tally xs) = map (\<lambda>x. (x, real (count_list xs x))) (firsts xs)"
    by (simp add: tally_def)
  then show ?thesis by (simp add: sampled_tabulate count_list_0_iff)
qed

text \<open>Arrivals of an endpoint, summed over the seconds.\<close>

lemma count_by_second:
  assumes "finite S" "fst ` set arr \<subseteq> S"
  shows "(\<Sum>s \<in> S. real (count_list (map snd (filter (\<lambda>a. fst a = s) arr)) e)) = real (count_list (map snd arr) e)"
  using assms(2)
proof (induction arr)
  case (Cons a arr)
  have "real (count_list (map snd (filter (\<lambda>x. fst x = s) (a # arr))) e) =
      (if s = fst a then if snd a = e then 1 else 0 else 0) + real (count_list (map snd (filter (\<lambda>x. fst x = s) arr)) e)" for s
    by auto
  with Cons assms(1) show ?case by (simp add: sum.distrib)
qed simp

lemma sum_over_seconds:
  "distinct ks \<Longrightarrow> set ks = fst ` set arr \<Longrightarrow>
   (\<Sum>s \<leftarrow> ks. real (count_list (map snd (filter (\<lambda>a. fst a = s) arr)) e)) = real (count_list (map snd arr) e)"
  by (simp add: sum_list_distinct_conv_sum_set count_by_second)

lemma sampled_samples_of: "sampled e (samples_of arr) = real (count_list (map snd arr) e)"
  unfolding samples_of_def sampled_concat map_map comp_def bucket_of_sec_def sampled_tally
  by (rule sum_over_seconds) simp_all

lemma waiting_buckets_of: "waiting e (buckets_of arr) = real (count_list (map snd arr) e)"
proof -
  have "(case dict_get (tally xs) e of None \<Rightarrow> 0 | Some n \<Rightarrow> real_of_int n) = real (count_list xs e)" for xs :: "string list"
    by (simp add: dict_get_tally count_list_0_iff)
  then show ?thesis
    unfolding waiting_def buckets_of_def map_map comp_def prod.case bucket_of_sec_def
    by (simp add: sum_over_seconds)
qed

lemma count_list_split:
  "count_list (map snd (filter P arr)) e + count_list (map snd (filter (\<lambda>a. \<not> P a) arr)) e = count_list (map snd arr) e"
  by (induction arr) auto

lemma rps_run_conserves:
  "sampled e (fst (rps_run ops (buckets_of arr))) + waiting e (snd (rps_run ops (buckets_of arr))) =
     real (recorded e ops) + real (count_list (map snd arr) e)"
proof (induction ops arbitrary: arr)
  case Nil
  then show ?case by (simp add: waiting_buckets_of recorded_def sampled_def)
next
  case (Cons op ops)
  show ?case
  proof (cases op)
    case (Record t e')
    with Cons [of "arr @ [(py_int t, e')]"] show ?thesis
      by (auto simp: rps_record_buckets_of recorded_def)
  next
    case (Tick t)
    let ?P = "\<lambda>a. fst a < py_int t"
    have "sampled e (samples_of (filter ?P arr)) = real (count_list (map snd (filter ?P arr)) e)"
      by (rule sampled_samples_of)
    with Cons [of "filter (\<lambda>a. \<not> ?P a) arr"] count_list_split [of ?P arr e] Tick show ?thesis
      by (simp add: tick_splits split_beta recorded_def)
  qed
qed

text \<open>
  No arrival is lost or counted twice. For any sequence of arrivals and ticks, at any times
  (the clock may even step back), the samples reported for an endpoint together with the counts
  still waiting in the buckets add up to the number of its arrivals.
\<close>

theorem rps_conserves_arrivals:
  "sampled e (fst (rps_run ops [])) + waiting e (snd (rps_run ops [])) = real (recorded e ops)"
  using rps_run_conserves [of e ops "[]"] by simp

end
