(* ===== verification/Statistical.thy ===== *)
theory Statistical
  imports Prelude Complex_Main
begin

section \<open>Baselines and scores\<close>

text \<open>
  \<open>consumers/alerts/statistical.py\<close>: an exponentially weighted mean and variance per endpoint, and
  the score of a sample against them. Floats are real numbers here: the theorems are about the
  arithmetic the code intends, not about rounding. The module dictionary \<open>_baselines\<close> is a
  dictionary in the state; readings of \<open>time.monotonic()\<close> are arguments.
\<close>

definition ALPHA :: real where
  "ALPHA = 1 / 10"

definition Z_THRESHOLD :: real where
  "Z_THRESHOLD = 3"

definition MIN_SAMPLES_BEFORE_SCORING :: nat where
  "MIN_SAMPLES_BEFORE_SCORING = 20"

definition BASELINE_TTL_S :: real where
  "BASELINE_TTL_S = 3600"

record endpoint_baseline =
  bl_mean :: real
  bl_var :: real
  bl_samples_seen :: nat
  bl_last_seen :: real

definition new_baseline :: "real \<Rightarrow> endpoint_baseline" where
  "new_baseline now = \<lparr>bl_mean = 0, bl_var = 0, bl_samples_seen = 0, bl_last_seen = now\<rparr>"

definition update_and_score :: "real \<Rightarrow> real \<Rightarrow> endpoint_baseline \<Rightarrow> real option \<times> endpoint_baseline" where
  "update_and_score now v b =
     (let b1 = b\<lparr>bl_samples_seen := bl_samples_seen b + 1, bl_last_seen := now\<rparr>
      in if bl_samples_seen b1 = 1 then (None, b1\<lparr>bl_mean := v\<rparr>)
         else
           (let deviation = v - bl_mean b1;
                b2 = b1\<lparr>bl_mean := bl_mean b1 + ALPHA * deviation,
                        bl_var := (1 - ALPHA) * (bl_var b1 + ALPHA * deviation ^ 2)\<rparr>
            in if bl_samples_seen b2 < MIN_SAMPLES_BEFORE_SCORING then (None, b2)
               else (Some (deviation / max (sqrt (bl_var b2)) (1 / 10 ^ 6)), b2)))"

type_synonym baselines = "(string, endpoint_baseline) dict"

text \<open>\<open>t0\<close> is the reading of the field default when the baseline is created, \<open>t1\<close> that of the update.\<close>

definition score_rps :: "real \<Rightarrow> real \<Rightarrow> string \<Rightarrow> real \<Rightarrow> baselines \<Rightarrow> real option \<times> baselines" where
  "score_rps t0 t1 endpoint current_rps bs =
     (let baseline = (case dict_get bs endpoint of None \<Rightarrow> new_baseline t0 | Some b \<Rightarrow> b);
          (z, baseline') = update_and_score t1 current_rps baseline
      in (z, dict_set endpoint baseline' bs))"

definition evict_idle :: "real \<Rightarrow> baselines \<Rightarrow> nat \<times> baselines" where
  "evict_idle now bs =
     (let cutoff = now - BASELINE_TTL_S;
          stale = map fst (filter (\<lambda>(_, b). bl_last_seen b < cutoff) bs)
      in (length stale, dict_pops stale bs))"

subsection \<open>The baseline of a series of samples\<close>

text \<open>Feeding samples with their times, and the scores they get.\<close>

fun feed :: "(real \<times> real) list \<Rightarrow> endpoint_baseline \<Rightarrow> real option list \<times> endpoint_baseline" where
  "feed [] b = ([], b)"
| "feed ((now, v) # samples) b =
     (let (z, b1) = update_and_score now v b; (zs, b2) = feed samples b1 in (z # zs, b2))"

lemma feed_samples_seen: "bl_samples_seen (snd (feed samples b)) = bl_samples_seen b + length samples"
  by (induction samples b rule: feed.induct) (auto simp: update_and_score_def Let_def split_beta)

lemma update_samples_seen [simp]: "bl_samples_seen (snd (update_and_score now v b)) = bl_samples_seen b + 1"
  by (simp add: update_and_score_def Let_def)

lemma update_none_iff:
  "fst (update_and_score now v b) = None \<longleftrightarrow> bl_samples_seen b + 1 < MIN_SAMPLES_BEFORE_SCORING"
  by (auto simp: update_and_score_def Let_def MIN_SAMPLES_BEFORE_SCORING_def)

lemma update_var_nonneg: "0 \<le> bl_var b \<Longrightarrow> 0 \<le> bl_var (snd (update_and_score now v b))"
  by (simp add: update_and_score_def Let_def ALPHA_def)

lemma update_mean:
  "bl_mean (snd (update_and_score now v b)) =
     (if bl_samples_seen b = 0 then v else 9 / 10 * bl_mean b + 1 / 10 * v)"
  by (simp add: update_and_score_def Let_def ALPHA_def algebra_simps) (simp add: field_simps)

lemma update_mean_between:
  assumes "lo \<le> v" "v \<le> hi" "0 < bl_samples_seen b \<Longrightarrow> lo \<le> bl_mean b \<and> bl_mean b \<le> hi"
  shows "lo \<le> bl_mean (snd (update_and_score now v b)) \<and> bl_mean (snd (update_and_score now v b)) \<le> hi"
  using assms by (cases "bl_samples_seen b = 0") (auto simp: update_mean)

subsection \<open>Scores\<close>

lemma update_score:
  assumes "fst (update_and_score now v b) = Some z"
  shows "z = (v - bl_mean b) / max (sqrt (bl_var (snd (update_and_score now v b)))) (1 / 10 ^ 6)"
    "bl_var (snd (update_and_score now v b)) = 9 / 10 * bl_var b + 9 / 100 * (v - bl_mean b) ^ 2"
  using assms
  by (auto simp: update_and_score_def Let_def ALPHA_def algebra_simps split: if_splits)

lemma std_dev_pos: "0 < max x (1 / 10 ^ 6 :: real)"
  by (rule less_le_trans [OF _ max.cobounded2]) simp

lemma scale_bound: "3 / 10 * x \<le> y \<Longrightarrow> x \<le> 10 / 3 * (y::real)"
  by simp

lemma score_bounded:
  assumes "fst (update_and_score now v b) = Some z" "0 \<le> bl_var b"
  shows "\<bar>z\<bar> \<le> 10 / 3"
proof -
  let ?d = "v - bl_mean b" and ?var = "bl_var (snd (update_and_score now v b))"
  let ?sd = "max (sqrt ?var) (1 / 10 ^ 6)"
  have "(3 / 10 * \<bar>?d\<bar>) ^ 2 \<le> ?var"
    using assms(2) by (simp add: update_score(2) [OF assms(1)] power2_eq_square)
  then have "3 / 10 * \<bar>?d\<bar> \<le> sqrt ?var" by (rule real_le_rsqrt)
  then have sd: "3 / 10 * \<bar>?d\<bar> \<le> ?sd" by (rule max.coboundedI1)
  have pos: "0 < ?sd" by (rule std_dev_pos)
  have "\<bar>z\<bar> = \<bar>?d\<bar> / ?sd" by (simp only: update_score(1) [OF assms(1)] abs_divide abs_of_pos [OF pos])
  also have "\<dots> \<le> 10 / 3" unfolding pos_divide_le_eq [OF pos] by (rule scale_bound [OF sd])
  finally show ?thesis .
qed

lemma score_exceeds_iff:
  assumes "fst (update_and_score now v b) = Some z" "0 \<le> bl_var b"
  shows "z > Z_THRESHOLD \<longleftrightarrow> v - bl_mean b > 3 / 10 ^ 6 \<and> (v - bl_mean b) ^ 2 > 810 / 19 * bl_var b"
proof -
  let ?d = "v - bl_mean b" and ?var = "bl_var (snd (update_and_score now v b))"
  have "z > Z_THRESHOLD \<longleftrightarrow> ?d > 3 * max (sqrt ?var) (1 / 10 ^ 6)"
    unfolding update_score(1) [OF assms(1)] Z_THRESHOLD_def
    by (rule pos_less_divide_eq [OF std_dev_pos])
  also have "\<dots> \<longleftrightarrow> ?d > 3 / 10 ^ 6 \<and> 3 * sqrt ?var < ?d" by (auto simp: max_def)
  also have "\<dots> \<longleftrightarrow> ?d > 3 / 10 ^ 6 \<and> 9 * ?var < ?d ^ 2"
  proof (intro conj_cong refl)
    assume "?d > 3 / 10 ^ 6"
    then have pos: "0 < ?d" by (rule less_trans [rotated]) simp
    have "3 * sqrt ?var < ?d \<longleftrightarrow> sqrt ?var < sqrt ((?d / 3) ^ 2)" using pos by auto
    also have "\<dots> \<longleftrightarrow> ?var < (?d / 3) ^ 2" by (rule real_sqrt_less_iff)
    also have "\<dots> \<longleftrightarrow> 9 * ?var < ?d ^ 2" by (auto simp: power_divide)
    finally show "3 * sqrt ?var < ?d \<longleftrightarrow> 9 * ?var < ?d ^ 2" .
  qed
  also have "9 * ?var < ?d ^ 2 \<longleftrightarrow> 810 / 19 * bl_var b < ?d ^ 2"
    by (auto simp: update_score(2) [OF assms(1)])
  finally show ?thesis .
qed

subsection \<open>Properties\<close>

text \<open>The baselines the module can hold: fed with samples from a fresh one.\<close>

lemma feed_var_nonneg: "0 \<le> bl_var b \<Longrightarrow> 0 \<le> bl_var (snd (feed samples b))"
  by (induction samples arbitrary: b) (auto simp: split_beta update_var_nonneg)

lemma feed_mean_between:
  assumes "\<forall>(t, v) \<in> set samples. lo \<le> v \<and> v \<le> hi" "0 < bl_samples_seen b \<Longrightarrow> lo \<le> bl_mean b \<and> bl_mean b \<le> hi"
    and "samples \<noteq> [] \<or> 0 < bl_samples_seen b"
  shows "lo \<le> bl_mean (snd (feed samples b)) \<and> bl_mean (snd (feed samples b)) \<le> hi"
  using assms
proof (induction samples arbitrary: b)
  case (Cons s samples)
  obtain now v where s: "s = (now, v)" by (metis surj_pair)
  have "lo \<le> bl_mean (snd (update_and_score now v b)) \<and> bl_mean (snd (update_and_score now v b)) \<le> hi"
    using Cons.prems s by (intro update_mean_between) auto
  with Cons.IH [of "snd (update_and_score now v b)"] Cons.prems(1) s show ?case by (auto simp: split_beta)
qed simp

text \<open>
  Baselines stay sane. After any nonempty series of samples from a fresh baseline, the
  variance is nonnegative and the mean lies between the least and the greatest sample: a burst
  cannot pull the baseline outside the observed traffic.
\<close>

theorem baseline_within_samples:
  assumes "samples \<noteq> []" "\<forall>(t, v) \<in> set samples. lo \<le> v \<and> v \<le> hi"
  shows "0 \<le> bl_var (snd (feed samples (new_baseline t\<^sub>0))) \<and>
    lo \<le> bl_mean (snd (feed samples (new_baseline t\<^sub>0))) \<and> bl_mean (snd (feed samples (new_baseline t\<^sub>0))) \<le> hi"
  using feed_mean_between [OF assms(2), of "new_baseline t\<^sub>0"] assms(1) feed_var_nonneg [of "new_baseline t\<^sub>0"]
  by (simp add: new_baseline_def)

theorem baseline_within_samples_witness:
  "bl_mean (snd (feed [(1, 5), (2, 15)] (new_baseline 0))) \<le> 15"
  using baseline_within_samples [of "[(1, 5), (2, 15)]" 5 15 0] by simp

text \<open>
  The first nineteen samples of an endpoint are never scored, and every later one is: the
  \<open>i\<close>-th sample (counted from 0) has a score if and only if \<open>19 \<le> i\<close>.
\<close>

lemma feed_score_iff:
  "i < length samples \<Longrightarrow>
   fst (feed samples b) ! i \<noteq> None \<longleftrightarrow> MIN_SAMPLES_BEFORE_SCORING \<le> bl_samples_seen b + i + 1"
proof (induction samples arbitrary: i b)
  case (Cons s samples)
  obtain now v where s: "s = (now, v)" by (metis surj_pair)
  show ?case
  proof (cases i)
    case 0
    then show ?thesis by (auto simp: s split_beta update_none_iff)
  next
    case (Suc j)
    have "fst (feed (s # samples) b) ! i = fst (feed samples (snd (update_and_score now v b))) ! j"
      by (simp add: s split_beta Suc)
    moreover have "j < length samples" using Cons.prems Suc by simp
    ultimately show ?thesis using Cons.IH [of j "snd (update_and_score now v b)"] Suc by simp
  qed
qed simp

theorem cold_start_is_silent:
  assumes "i < length samples"
  shows "fst (feed samples (new_baseline t\<^sub>0)) ! i \<noteq> None \<longleftrightarrow> MIN_SAMPLES_BEFORE_SCORING \<le> i + 1"
  using feed_score_iff [OF assms, of "new_baseline t\<^sub>0"] by (simp add: new_baseline_def)

theorem cold_start_is_silent_witness:
  "fst (feed (replicate 20 (0, 7)) (new_baseline 0)) ! 18 = None \<and>
   fst (feed (replicate 20 (0, 7)) (new_baseline 0)) ! 19 \<noteq> None"
  using cold_start_is_silent [of 18 "replicate 20 (0, 7)" 0] cold_start_is_silent [of 19 "replicate 20 (0, 7)" 0]
  by (simp add: MIN_SAMPLES_BEFORE_SCORING_def)

text \<open>
  C34: What the threshold means. A sample enters the variance before it is scored, so no score
  exceeds 10/3 in size, however large the burst; and a score exceeds the threshold of 3 exactly
  when the sample lies above the mean by more than \<open>sqrt(810/19)\<close>, about 6.5, of the standard
  deviations the baseline had before (and by more than 3e-6).
\<close>

theorem anomaly_threshold_meaning:
  assumes "fst (update_and_score now v (snd (feed samples (new_baseline t\<^sub>0)))) = Some z"
  shows "\<bar>z\<bar> \<le> 10 / 3 \<and>
    (z > Z_THRESHOLD \<longleftrightarrow>
       v - bl_mean (snd (feed samples (new_baseline t\<^sub>0))) > 3 / 10 ^ 6 \<and>
       (v - bl_mean (snd (feed samples (new_baseline t\<^sub>0)))) ^ 2 > 810 / 19 * bl_var (snd (feed samples (new_baseline t\<^sub>0))))"
proof -
  have "0 \<le> bl_var (snd (feed samples (new_baseline t\<^sub>0)))"
    by (rule feed_var_nonneg) (simp add: new_baseline_def)
  with score_bounded [OF assms] score_exceeds_iff [OF assms] show ?thesis by simp
qed

lemma feed_constant:
  "feed (replicate (Suc n) (0, v)) (new_baseline 0) = (zs, b) \<Longrightarrow> bl_mean b = v \<and> bl_var b = 0"
proof -
  have step: "bl_mean (snd (feed (replicate n (0, v)) b)) = v \<and> bl_var (snd (feed (replicate n (0, v)) b)) = 0"
    if "bl_mean b = v" "bl_var b = 0" "0 < bl_samples_seen b" for n b
    using that by (induction n arbitrary: b) (auto simp: split_beta update_mean, auto simp: update_and_score_def Let_def)
  assume "feed (replicate (Suc n) (0, v)) (new_baseline 0) = (zs, b)"
  then have "b = snd (feed (replicate n (0, v)) (snd (update_and_score 0 v (new_baseline 0))))"
    by (simp add: split_beta)
  with step [of "snd (update_and_score 0 v (new_baseline 0))" n] show ?thesis
    by (auto simp: update_and_score_def Let_def new_baseline_def)
qed

theorem anomaly_threshold_meaning_witness:
  "\<exists>z. fst (update_and_score 0 20 (snd (feed (replicate 20 (0, 10)) (new_baseline 0)))) = Some z \<and> Z_THRESHOLD < z \<and> z \<le> 10 / 3"
proof -
  obtain zs b where fd: "feed (replicate 20 (0, 10)) (new_baseline 0) = (zs, b)" by (metis surj_pair)
  then have b: "bl_mean b = 10" "bl_var b = 0" using feed_constant [of 19 10] by (simp_all add: numeral_eq_Suc)
  have "bl_samples_seen b = 20" using feed_samples_seen [of "replicate 20 (0, 10)" "new_baseline 0"] fd
    by (simp add: new_baseline_def)
  then obtain z where z: "fst (update_and_score 0 20 b) = Some z"
    using update_none_iff [of 0 20 b] by (auto simp: MIN_SAMPLES_BEFORE_SCORING_def)
  with anomaly_threshold_meaning [of 0 20 "replicate 20 (0, 10)" 0 z] fd b show ?thesis by auto
qed

subsection \<open>Eviction\<close>

text \<open>
  Eviction forgets exactly the idle endpoints. \<open>evict_idle\<close> drops the baselines not updated
  for more than \<open>BASELINE_TTL_S\<close> and no others, leaves the rest as they are, and returns the
  number it dropped.
\<close>

theorem evict_idle_exact:
  assumes "dict_wf bs"
  shows "dict_get (snd (evict_idle now bs)) e =
      (case dict_get bs e of None \<Rightarrow> None
       | Some b \<Rightarrow> if now - bl_last_seen b > BASELINE_TTL_S then None else Some b) \<and>
    fst (evict_idle now bs) + card (dom (dict_get (snd (evict_idle now bs)))) = card (dom (dict_get bs))"
proof
  let ?stale = "map fst (filter (\<lambda>(_, b). bl_last_seen b < now - BASELINE_TTL_S) bs)"
  have ev: "evict_idle now bs = (length ?stale, dict_pops ?stale bs)" by (simp add: evict_idle_def Let_def)
  have mem: "k \<in> set ?stale \<longleftrightarrow> (\<exists>b. dict_get bs k = Some b \<and> bl_last_seen b < now - BASELINE_TTL_S)" for k
    using in_selected_keys [of k "\<lambda>_ b. bl_last_seen b < now - BASELINE_TTL_S" bs]
    by (simp add: dict_wf_get_iff [OF assms])
  show "dict_get (snd (evict_idle now bs)) e =
      (case dict_get bs e of None \<Rightarrow> None
       | Some b \<Rightarrow> if now - bl_last_seen b > BASELINE_TTL_S then None else Some b)"
    unfolding ev snd_conv dict_get_pops mem by (auto split: option.splits)
  have "distinct ?stale" using assms by (simp add: distinct_map_filter)
  then have "length ?stale = card (set ?stale)" by (rule distinct_card [symmetric])
  moreover have sub: "set ?stale \<subseteq> dom (dict_get bs)" using mem by blast
  moreover have "dom (dict_get (dict_pops ?stale bs)) = dom (dict_get bs) - set ?stale"
    by (rule dom_dict_pops)
  moreover have "finite (dom (dict_get bs))" by (rule finite_dom_map_of)
  ultimately show "fst (evict_idle now bs) + card (dom (dict_get (snd (evict_idle now bs)))) = card (dom (dict_get bs))"
    unfolding ev fst_conv snd_conv by (metis card_Diff_subset card_mono finite_subset le_add_diff_inverse)
qed

theorem evict_idle_exact_witness:
  "dict_get (snd (evict_idle 5000 [(''/a'', new_baseline 1000), (''/b'', new_baseline 2000)])) ''/a'' = None"
  using evict_idle_exact [of "[(''/a'', new_baseline 1000), (''/b'', new_baseline 2000)]" 5000 "''/a''"]
  by (simp add: new_baseline_def BASELINE_TTL_S_def)

end
