(* ===== verification/Rules.thy ===== *)
theory Rules
  imports Py_Text "HOL-Library.Sublist"
begin

section \<open>The signature engine\<close>

text \<open>
  \<open>consumers/alerts/rules.py\<close>: the OWASP patterns and \<open>scan_event\<close>. The part of \<open>re\<close> the module uses
  is modelled by a datatype of patterns (character classes, bounded and unbounded repetition of
  a class, sequence, alternative, word boundary, end of string) and the list of positions at
  which a match that starts at a given position can end; \<open>search\<close> is true when a match starts
  somewhere. Whether a pattern is found does not depend on greediness, so \<open>{1,40}?\<close> and
  \<open>{1,40}\<close> are the same here. Characters are the code points below 256.
\<close>

datatype cls = Lit char | LitI char | Space | SpaceOr char | Digit | Dot

definition is_digit :: "char \<Rightarrow> bool" where
  "is_digit c \<longleftrightarrow> digit_val c \<noteq> None"

text \<open>\<open>\\w\<close>\<close>

definition is_word :: "char \<Rightarrow> bool" where
  "is_word c = (let n = of_char c :: nat in (48 \<le> n \<and> n \<le> 57) \<or> (65 \<le> n \<and> n \<le> 90) \<or> n = 95 \<or> (97 \<le> n \<and> n \<le> 122) \<or>
     n = 170 \<or> n = 178 \<or> n = 179 \<or> n = 181 \<or> n = 185 \<or> n = 186 \<or> (188 \<le> n \<and> n \<le> 190) \<or>
     (192 \<le> n \<and> n \<noteq> 215 \<and> n \<noteq> 247))"

fun cls_match :: "cls \<Rightarrow> char \<Rightarrow> bool" where
  "cls_match (Lit c) x = (x = c)"
| "cls_match (LitI c) x = (lower_char x = lower_char c)"
| "cls_match Space x = is_space x"
| "cls_match (SpaceOr c) x = (is_space x \<or> x = c)"
| "cls_match Digit x = is_digit x"
| "cls_match Dot x = (x \<noteq> CHR 0x0A)"

datatype rx = Eps | Cls cls | Rep cls nat "nat option" | Seq rx rx | Alt rx rx | WordB | Eos

definition word_at :: "string \<Rightarrow> nat \<Rightarrow> bool" where
  "word_at s i \<longleftrightarrow> i < length s \<and> is_word (s ! i)"

definition word_boundary :: "string \<Rightarrow> nat \<Rightarrow> bool" where
  "word_boundary s i \<longleftrightarrow> (0 < i \<and> word_at s (i - 1)) \<noteq> word_at s i"

text \<open>\<open>$\<close>: the end, or before a newline at the end.\<close>

definition at_end :: "string \<Rightarrow> nat \<Rightarrow> bool" where
  "at_end s i \<longleftrightarrow> i = length s \<or> (i + 1 = length s \<and> s ! i = CHR 0x0A)"

definition run_len :: "cls \<Rightarrow> string \<Rightarrow> nat \<Rightarrow> nat" where
  "run_len c s i = length (takeWhile (cls_match c) (drop i s))"

fun ends :: "rx \<Rightarrow> string \<Rightarrow> nat \<Rightarrow> nat list" where
  "ends Eps s i = [i]"
| "ends (Cls c) s i = (if i < length s \<and> cls_match c (s ! i) then [i + 1] else [])"
| "ends (Rep c lo hi) s i =
     (let n = run_len c s i; m = (case hi of None \<Rightarrow> n | Some h \<Rightarrow> min h n)
      in map (\<lambda>k. i + k) [lo ..< m + 1])"
| "ends (Seq p q) s i = concat (map (ends q s) (ends p s i))"
| "ends (Alt p q) s i = ends p s i @ ends q s i"
| "ends WordB s i = (if word_boundary s i then [i] else [])"
| "ends Eos s i = (if at_end s i then [i] else [])"

definition search :: "rx \<Rightarrow> string \<Rightarrow> bool" where
  "search p s \<longleftrightarrow> list_ex (\<lambda>i. ends p s i \<noteq> []) [0 ..< length s + 1]"

fun seqs :: "rx list \<Rightarrow> rx" where
  "seqs [] = Eps"
| "seqs (p # ps) = Seq p (seqs ps)"

definition lit :: "string \<Rightarrow> rx" where
  "lit w = seqs (map (Cls \<circ> Lit) w)"

definition liti :: "string \<Rightarrow> rx" where
  "liti w = seqs (map (Cls \<circ> LitI) w)"

definition UNION_SELECT :: rx where
  "UNION_SELECT = seqs [WordB, liti ''UNION'', WordB, Rep Dot 1 (Some 40), WordB, liti ''SELECT'', WordB]"

definition OR_TAUTOLOGY :: rx where
  "OR_TAUTOLOGY = seqs [WordB, liti ''OR'', WordB, Rep Space 1 None, Rep Digit 1 None, Rep Space 0 None,
     Cls (Lit CHR ''=''), Rep Space 0 None, Rep Digit 1 None]"

definition TRAILING_COMMENT :: rx where
  "TRAILING_COMMENT = seqs [Alt (lit ''--'') (Alt (lit ''#'') (lit ''/*'')), Rep Space 0 None, Eos]"

definition DROP_TABLE :: rx where
  "DROP_TABLE = seqs [WordB, liti ''DROP'', Rep Space 1 None, liti ''TABLE'', WordB]"

definition SQLI_PATTERNS :: "rx list" where
  "SQLI_PATTERNS = [UNION_SELECT, OR_TAUTOLOGY, TRAILING_COMMENT, DROP_TABLE]"

definition XSS_PATTERNS :: "rx list" where
  "XSS_PATTERNS = [Seq (liti ''<script'') (Cls (SpaceOr CHR ''>'')),
     seqs [liti ''on'', Alt (liti ''error'') (Alt (liti ''load'') (Alt (liti ''click'') (liti ''mouseover''))),
       Rep Space 0 None, Cls (Lit CHR ''='')],
     liti ''javascript:'']"

definition PATH_TRAVERSAL_PATTERNS :: "rx list" where
  "PATH_TRAVERSAL_PATTERNS = [lit ''../'', liti ''%2e%2e%2f'', liti ''%252e%252e%252f'']"

definition RULESETS :: "(string \<times> rx list) list" where
  "RULESETS = [(''SQLI'', SQLI_PATTERNS), (''XSS'', XSS_PATTERNS), (''PATH_TRAVERSAL'', PATH_TRAVERSAL_PATTERNS)]"

definition scan_event :: "string \<Rightarrow> string \<Rightarrow> string list" where
  "scan_event query_string user_agent =
     map fst (filter (\<lambda>(_, patterns). list_ex (\<lambda>p. search p query_string \<or> search p user_agent) patterns) RULESETS)"

subsection \<open>Literals are substrings\<close>

lemma search_iff: "search p s \<longleftrightarrow> (\<exists>i \<le> length s. ends p s i \<noteq> [])"
  by (auto simp: search_def list_ex_iff less_Suc_eq_le simp del: upt_Suc)

lemma ends_lit: "ends (lit w) s i = (if take (length w) (drop i s) = w then [i + length w] else [])"
proof (induction w arbitrary: i)
  case (Cons c w)
  then show ?case
    by (cases "i < length s") (auto simp: lit_def Cons_nth_drop_Suc [symmetric])
qed (simp add: lit_def)

lemma sublist_take_drop: "sublist w s \<longleftrightarrow> (\<exists>i \<le> length s. take (length w) (drop i s) = w)"
proof
  assume "sublist w s"
  then obtain ps ss where s: "s = ps @ w @ ss" by (auto simp: sublist_def)
  then show "\<exists>i \<le> length s. take (length w) (drop i s) = w" by (intro exI [of _ "length ps"]) simp
next
  assume "\<exists>i \<le> length s. take (length w) (drop i s) = w"
  then show "sublist w s" by (metis sublist_def append_take_drop_id)
qed

lemma search_lit: "search (lit w) s \<longleftrightarrow> sublist w s"
  by (auto simp: search_iff ends_lit sublist_take_drop split: if_splits)

lemma ends_liti: "ends (liti w) s i = (if take (length w) (drop i (py_lower s)) = py_lower w then [i + length w] else [])"
proof (induction w arbitrary: i)
  case (Cons c w)
  then show ?case
    by (cases "i < length s") (auto simp: liti_def py_lower_def Cons_nth_drop_Suc [symmetric])
qed (simp add: liti_def py_lower_def)

lemma search_liti: "search (liti w) s \<longleftrightarrow> sublist (py_lower w) (py_lower s)"
  by (auto simp: search_iff ends_liti sublist_take_drop py_lower_def split: if_splits)

subsection \<open>Patterns that need white space\<close>

text \<open>A sufficient condition for every match of a pattern to contain white space.\<close>

fun needs_space :: "rx \<Rightarrow> bool" where
  "needs_space (Cls c) = (c = Space)"
| "needs_space (Rep c lo hi) = (c = Space \<and> 0 < lo)"
| "needs_space (Seq p q) = (needs_space p \<or> needs_space q)"
| "needs_space (Alt p q) = (needs_space p \<and> needs_space q)"
| "needs_space _ = False"

lemma ends_needs_space: "needs_space p \<Longrightarrow> j \<in> set (ends p s i) \<Longrightarrow> \<exists>c \<in> set s. is_space c"
proof (induction p arbitrary: i j)
  case (Rep c lo hi)
  then have "0 < run_len Space s i"
    by (auto simp: Let_def split: option.splits)
  then have "takeWhile (cls_match Space) (drop i s) \<noteq> []" by (auto simp: run_len_def)
  then show ?case by (metis hd_in_set in_set_dropD set_takeWhileD cls_match.simps(3))
qed (auto split: if_splits)

lemma search_needs_space: "needs_space p \<Longrightarrow> \<forall>c \<in> set s. \<not> is_space c \<Longrightarrow> \<not> search p s"
  unfolding search_iff using ends_needs_space by (metis last_in_set)

subsection \<open>Properties\<close>

lemmas pattern_defs = SQLI_PATTERNS_def XSS_PATTERNS_def PATH_TRAVERSAL_PATTERNS_def UNION_SELECT_def
  OR_TAUTOLOGY_def TRAILING_COMMENT_def DROP_TABLE_def

lemma in_scan_event:
  "r \<in> set (scan_event q ua) \<longleftrightarrow> (\<exists>ps. (r, ps) \<in> set RULESETS \<and> (\<exists>p \<in> set ps. search p q \<or> search p ua))"
  by (force simp: scan_event_def list_ex_iff)

lemma py_lower_lits:
  "py_lower ''%2e%2e%2f'' = ''%2e%2e%2f''" "py_lower ''%252e%252e%252f'' = ''%252e%252e%252f''"
  by (simp_all add: py_lower_def lower_char_def)

text \<open>
  The path-traversal rule fires exactly on its three literal shapes: \<open>PATH_TRAVERSAL\<close> is
  reported if and only if the query string or the user agent contains \<open>../\<close>, or, in any mix of
  upper and lower case, \<open>%2e%2e%2f\<close> or \<open>%252e%252e%252f\<close>.
\<close>

theorem path_traversal_exact:
  "''PATH_TRAVERSAL'' \<in> set (scan_event q ua) \<longleftrightarrow>
     (\<exists>f \<in> {q, ua}. sublist ''../'' f \<or> sublist ''%2e%2e%2f'' (py_lower f) \<or> sublist ''%252e%252e%252f'' (py_lower f))"
  unfolding in_scan_event
  by (simp add: RULESETS_def PATH_TRAVERSAL_PATTERNS_def search_lit search_liti py_lower_lits) blast

text \<open>No pattern matches the empty string.\<close>

lemma scan_empty: "(r, ps) \<in> set RULESETS \<Longrightarrow> p \<in> set ps \<Longrightarrow> \<not> search p []"
  by (auto simp: RULESETS_def pattern_defs search_def ends_lit ends_liti word_boundary_def word_at_def py_lower_def)

text \<open>
  The two fields are scanned independently: the rules an event matches are those its query
  string matches on its own together with those its user agent matches on its own, so the
  content of one field can neither hide nor create a match in the other.
\<close>

theorem fields_scanned_separately:
  "set (scan_event q ua) = set (scan_event q []) \<union> set (scan_event [] ua)"
proof -
  have "r \<in> set (scan_event q ua) \<longleftrightarrow> r \<in> set (scan_event q []) \<or> r \<in> set (scan_event [] ua)" for r
    unfolding in_scan_event using scan_empty [of r] by meson
  then show ?thesis by blast
qed

text \<open>
  Without white space there is no \<open>OR 1=1\<close> and no \<open>DROP TABLE\<close>. On a string with no white
  space, such as a query string as it arrives on the wire with \<open>+\<close> or \<open>%20\<close> for a space, the
  tautology and drop-table patterns are never found, whatever the string says; only the other two
  patterns of the rule can fire.
\<close>

theorem encoded_query_evades_sqli:
  assumes "\<forall>c \<in> set q. \<not> is_space c"
  shows "\<not> search OR_TAUTOLOGY q \<and> \<not> search DROP_TABLE q \<and>
    (''SQLI'' \<in> set (scan_event q []) \<longleftrightarrow> search UNION_SELECT q \<or> search TRAILING_COMMENT q)"
proof -
  have no_or: "\<not> search OR_TAUTOLOGY q"
    by (rule search_needs_space [OF _ assms]) (simp add: OR_TAUTOLOGY_def)
  have no_drop: "\<not> search DROP_TABLE q"
    by (rule search_needs_space [OF _ assms]) (simp add: DROP_TABLE_def)
  have "''SQLI'' \<in> set (scan_event q []) \<longleftrightarrow> (\<exists>p \<in> set SQLI_PATTERNS. search p q)"
    using scan_empty [of "''SQLI''" SQLI_PATTERNS] by (auto simp: in_scan_event RULESETS_def)
  with no_or no_drop show ?thesis by (simp add: SQLI_PATTERNS_def)
qed

theorem encoded_query_evades_sqli_witness:
  "''SQLI'' \<notin> set (scan_event ''id=1+OR+1=1'' [])"
proof -
  have "\<not> search UNION_SELECT ''id=1+OR+1=1'' \<and> \<not> search TRAILING_COMMENT ''id=1+OR+1=1''" by code_simp
  with encoded_query_evades_sqli [of "''id=1+OR+1=1''"] show ?thesis by (simp add: is_space_def)
qed

end
