(* ===== verification/Py_Json.thy ===== *)
theory Py_Json
  imports Py_Text
begin

section \<open>JSON\<close>

text \<open>
  \<open>json.dumps\<close> and \<open>json.loads\<close> as the code uses them, with the defaults (separators \<open>", "\<close> and
  \<open>": "\<close>, non-ASCII characters escaped, strict strings). An object is a dictionary in insertion
  order. Printing a float is \<open>float.__repr__\<close>, an argument here. Characters are the code points
  below 256, so an escape beyond them does not parse. The parser recurses with fuel; \<open>loads\<close> gives
  it the length of the text, and every recursive call consumes a character. A text that is not
  JSON raises \<open>JSONDecodeError\<close>, a \<open>ValueError\<close>.
\<close>

datatype json = JNull | JBool bool | JInt int | JFloat pyfloat | JStr string | JArr "json list" | JObj "(string \<times> json) list"

subsection \<open>Printing\<close>

definition hex_digit :: "nat \<Rightarrow> char" where
  "hex_digit d = char_of (if d < 10 then 48 + d else 87 + d)"

definition escape_char :: "char \<Rightarrow> string" where
  "escape_char c =
     (let n = of_char c :: nat in
      if n = 34 then [CHR 0x5C, CHR 0x22]
      else if n = 92 then [CHR 0x5C, CHR 0x5C]
      else if n = 10 then [CHR 0x5C, CHR ''n'']
      else if n = 13 then [CHR 0x5C, CHR ''r'']
      else if n = 9 then [CHR 0x5C, CHR ''t'']
      else if n = 12 then [CHR 0x5C, CHR ''f'']
      else if n = 8 then [CHR 0x5C, CHR ''b'']
      else if n < 32 \<or> 127 \<le> n
      then [CHR 0x5C, CHR ''u'', CHR ''0'', CHR ''0'', hex_digit (n div 16), hex_digit (n mod 16)]
      else [c])"

definition dumps_str :: "string \<Rightarrow> string" where
  "dumps_str s = CHR 0x22 # concat (map escape_char s) @ [CHR 0x22]"

fun joined :: "string \<Rightarrow> string list \<Rightarrow> string" where
  "joined sep [] = []"
| "joined sep [x] = x"
| "joined sep (x # xs) = x @ sep @ joined sep xs"

fun dumps :: "(pyfloat \<Rightarrow> string) \<Rightarrow> json \<Rightarrow> string" where
  "dumps rep JNull = ''null''"
| "dumps rep (JBool b) = (if b then ''true'' else ''false'')"
| "dumps rep (JInt n) = str_int n"
| "dumps rep (JFloat x) = rep x"
| "dumps rep (JStr s) = dumps_str s"
| "dumps rep (JArr vs) = ''['' @ joined '', '' (map (dumps rep) vs) @ '']''"
| "dumps rep (JObj kvs) = ''{'' @ joined '', '' (map (\<lambda>(k, v). dumps_str k @ '': '' @ dumps rep v) kvs) @ ''}''"

subsection \<open>Parsing\<close>

definition json_ws :: "char \<Rightarrow> bool" where
  "json_ws c = (let n = of_char c :: nat in n = 32 \<or> n = 9 \<or> n = 10 \<or> n = 13)"

definition skip_ws :: "string \<Rightarrow> string" where
  "skip_ws s = dropWhile json_ws s"

definition hex_val :: "char \<Rightarrow> nat option" where
  "hex_val c = (let n = of_char c :: nat in
     if 48 \<le> n \<and> n \<le> 57 then Some (n - 48)
     else if 97 \<le> n \<and> n \<le> 102 then Some (n - 87)
     else if 65 \<le> n \<and> n \<le> 70 then Some (n - 55) else None)"

definition unescape :: "char \<Rightarrow> char option" where
  "unescape c = map_of [(CHR 0x22, CHR 0x22), (CHR 0x5C, CHR 0x5C), (CHR ''/'', CHR ''/''), (CHR ''b'', CHR 0x08),
     (CHR ''f'', CHR 0x0C), (CHR ''n'', CHR 0x0A), (CHR ''r'', CHR 0x0D), (CHR ''t'', CHR 0x09)] c"

text \<open>The rest of a string literal after its opening quote.\<close>

fun jstring :: "string \<Rightarrow> (string \<times> string) option" where
  "jstring [] = None"
| "jstring (c # cs) =
     (if c = CHR 0x22 then Some ([], cs)
      else if c = CHR 0x5C
      then (case cs of
              [] \<Rightarrow> None
            | e # r \<Rightarrow>
                if e = CHR ''u''
                then (case r of
                        a # b # d # f # r' \<Rightarrow>
                          (case (hex_val a, hex_val b, hex_val d, hex_val f) of
                             (Some w, Some x, Some y, Some z) \<Rightarrow>
                               if w = 0 \<and> x = 0 then map_option (apfst (Cons (char_of (16 * y + z)))) (jstring r') else None
                           | _ \<Rightarrow> None)
                      | _ \<Rightarrow> None)
                else (case unescape e of
                        None \<Rightarrow> None
                      | Some u \<Rightarrow> map_option (apfst (Cons u)) (jstring r)))
      else if of_char c < (32::nat) then None
      else map_option (apfst (Cons c)) (jstring cs))"

definition is_dig :: "char \<Rightarrow> bool" where
  "is_dig c \<longleftrightarrow> digit_val c \<noteq> None"

text \<open>\<open>(-?(?:0|[1-9][0-9]*))(\.[0-9]+)?([eE][-+]?[0-9]+)?\<close>\<close>

definition jnumber :: "string \<Rightarrow> (json \<times> string) option" where
  "jnumber s =
     (let (neg, t) = (case s of c # cs \<Rightarrow> if c = CHR ''-'' then ([c], cs) else ([], s) | [] \<Rightarrow> ([], []));
          ip = (case t of c # cs \<Rightarrow> if c = CHR ''0'' then [c] else takeWhile is_dig t | [] \<Rightarrow> []);
          r = drop (length ip) t;
          fp = (case r of c # cs \<Rightarrow> if c = CHR ''.'' \<and> takeWhile is_dig cs \<noteq> [] then c # takeWhile is_dig cs else [] | [] \<Rightarrow> []);
          r1 = drop (length fp) r;
          ep = (case r1 of
                  c # cs \<Rightarrow>
                    if c = CHR ''e'' \<or> c = CHR ''E''
                    then (let (sg, ds) = (case cs of d # ds \<Rightarrow> if d = CHR ''-'' \<or> d = CHR ''+'' then ([d], ds) else ([], cs) | [] \<Rightarrow> ([], []))
                          in if takeWhile is_dig ds \<noteq> [] then c # sg @ takeWhile is_dig ds else [])
                    else []
                | [] \<Rightarrow> []);
          r2 = drop (length ep) r1
      in if ip = [] then None
         else if fp = [] \<and> ep = [] then map_option (\<lambda>n. (JInt n, r2)) (int_of_str (neg @ ip))
         else map_option (\<lambda>x. (JFloat x, r2)) (float_of_str (neg @ ip @ fp @ ep)))"

definition jconst :: "string \<Rightarrow> (json \<times> string) option" where
  "jconst s =
     (if take 4 s = ''null'' then Some (JNull, drop 4 s)
      else if take 4 s = ''true'' then Some (JBool True, drop 4 s)
      else if take 5 s = ''false'' then Some (JBool False, drop 5 s)
      else if take 3 s = ''NaN'' then Some (JFloat NaN, drop 3 s)
      else if take 8 s = ''Infinity'' then Some (JFloat (PyInf False), drop 8 s)
      else if take 9 s = ''-Infinity'' then Some (JFloat (PyInf True), drop 9 s)
      else None)"

fun jvalue :: "nat \<Rightarrow> string \<Rightarrow> (json \<times> string) option"
  and jelems :: "nat \<Rightarrow> string \<Rightarrow> json list \<Rightarrow> (json \<times> string) option"
  and jmembers :: "nat \<Rightarrow> string \<Rightarrow> (string, json) dict \<Rightarrow> (json \<times> string) option" where
  "jvalue 0 s = None"
| "jvalue (Suc n) s =
     (case s of
        [] \<Rightarrow> None
      | c # cs \<Rightarrow>
          if c = CHR 0x22 then map_option (apfst JStr) (jstring cs)
          else if c = CHR ''{'' then
            (case skip_ws cs of d # r \<Rightarrow> if d = CHR ''}'' then Some (JObj [], r) else jmembers n (d # r) [] | [] \<Rightarrow> None)
          else if c = CHR ''['' then
            (case skip_ws cs of d # r \<Rightarrow> if d = CHR '']'' then Some (JArr [], r) else jelems n (d # r) [] | [] \<Rightarrow> None)
          else (case jconst s of Some v \<Rightarrow> Some v | None \<Rightarrow> jnumber s))"
| "jelems 0 s acc = None"
| "jelems (Suc n) s acc =
     (case jvalue n s of
        None \<Rightarrow> None
      | Some (v, r) \<Rightarrow>
          (case skip_ws r of
             [] \<Rightarrow> None
           | d # r' \<Rightarrow>
               if d = CHR '']'' then Some (JArr (acc @ [v]), r')
               else if d = CHR '','' then jelems n (skip_ws r') (acc @ [v])
               else None))"
| "jmembers 0 s acc = None"
| "jmembers (Suc n) s acc =
     (case s of
        [] \<Rightarrow> None
      | q # cs \<Rightarrow>
          if q \<noteq> CHR 0x22 then None
          else (case jstring cs of
                  None \<Rightarrow> None
                | Some (k, r) \<Rightarrow>
                    (case skip_ws r of
                       [] \<Rightarrow> None
                     | d # r1 \<Rightarrow>
                         if d \<noteq> CHR '':'' then None
                         else (case jvalue n (skip_ws r1) of
                                 None \<Rightarrow> None
                               | Some (v, r2) \<Rightarrow>
                                   (case skip_ws r2 of
                                      [] \<Rightarrow> None
                                    | e # r3 \<Rightarrow>
                                        if e = CHR ''}'' then Some (JObj (dict_set k v acc), r3)
                                        else if e = CHR '','' then jmembers n (skip_ws r3) (dict_set k v acc)
                                        else None)))))"

definition loads :: "string \<Rightarrow> json res" where
  "loads s =
     (case jvalue (2 * length s + 1) (skip_ws s) of
        Some (v, r) \<Rightarrow> if skip_ws r = [] then Inr v else Inl ValueError
      | None \<Rightarrow> Inl ValueError)"

subsection \<open>Round trip\<close>

lemma char_of_lit: "of_char d = (n::nat) \<Longrightarrow> char_of n = d"
  by auto

lemma char_of_lits:
  "char_of (34::nat) = CHR 0x22" "char_of (92::nat) = CHR 0x5C" "char_of (10::nat) = CHR 0x0A"
  "char_of (13::nat) = CHR 0x0D" "char_of (9::nat) = CHR 0x09" "char_of (12::nat) = CHR 0x0C"
  "char_of (8::nat) = CHR 0x08" "char_of (48::nat) = CHR ''0''"
  by (rule char_of_lit, simp)+

lemma hex_val_digit: "d < 16 \<Longrightarrow> hex_val (hex_digit d) = Some d"
  by (auto simp: hex_val_def hex_digit_def Let_def)

lemma jstring_plain:
  "32 \<le> (of_char c :: nat) \<Longrightarrow> c \<noteq> CHR 0x22 \<Longrightarrow> c \<noteq> CHR 0x5C \<Longrightarrow> jstring (c # t) = map_option (apfst (Cons c)) (jstring t)"
  by simp

lemma jstring_hex:
  assumes "n < 256"
  shows "jstring (CHR 0x5C # CHR ''u'' # CHR ''0'' # CHR ''0'' # hex_digit (n div 16) # hex_digit (n mod 16) # t) =
    map_option (apfst (Cons (char_of n))) (jstring t)"
proof -
  have "hex_val (hex_digit (n div 16)) = Some (n div 16)" "hex_val (hex_digit (n mod 16)) = Some (n mod 16)"
    using assms by (simp_all add: hex_val_digit)
  moreover have "hex_val CHR ''0'' = Some 0" by (simp add: hex_val_def)
  ultimately show ?thesis by simp
qed

lemma jstring_escape_char: "jstring (escape_char c @ t) = map_option (apfst (Cons c)) (jstring t)"
proof -
  define n where "n = (of_char c :: nat)"
  have c: "c = char_of n" and n: "n < 256" by (simp_all add: n_def)
  consider "n \<in> {34, 92, 10, 13, 9, 12, 8}" | "n \<notin> {34, 92, 10, 13, 9, 12, 8}" "n < 32 \<or> 127 \<le> n"
    | "n \<notin> {34, 92, 10, 13, 9, 12, 8}" "32 \<le> n" "n < 127" by linarith
  then show ?thesis
  proof cases
    case 1
    then show ?thesis by (auto simp: escape_char_def c unescape_def char_of_lits)
  next
    case 2
    then have "escape_char c = [CHR 0x5C, CHR ''u'', CHR ''0'', CHR ''0'', hex_digit (n div 16), hex_digit (n mod 16)]"
      by (simp add: escape_char_def n_def [symmetric])
    then show ?thesis using jstring_hex [OF n, of t] by (simp add: c)
  next
    case 3
    then have "escape_char c = [c]" by (simp add: escape_char_def n_def [symmetric])
    moreover have "c \<noteq> CHR 0x22" "c \<noteq> CHR 0x5C" using 3(1) by (auto simp: n_def)
    ultimately show ?thesis using 3(2) jstring_plain [of c t] by (simp add: n_def)
  qed
qed

lemma jstring_dumps: "jstring (concat (map escape_char s) @ CHR 0x22 # t) = Some (s, t)"
proof (induction s)
  case (Cons c s)
  show ?case using jstring_escape_char [of c "concat (map escape_char s) @ CHR 0x22 # t"]
    by (simp only: list.map concat.simps append_assoc Cons) simp
qed simp

text \<open>What may follow a number without being read as part of it.\<close>

definition ends_number :: "string \<Rightarrow> bool" where
  "ends_number r \<longleftrightarrow> (case r of [] \<Rightarrow> True | c # cs \<Rightarrow> \<not> is_dig c \<and> c \<noteq> CHR ''.'' \<and> c \<noteq> CHR ''e'' \<and> c \<noteq> CHR ''E'')"

lemma str_nat_digits: "\<forall>c \<in> set (str_nat n). is_dig c"
proof (induction n rule: str_nat.induct)
  case (1 n)
  then show ?case by (subst str_nat.simps) (auto simp: is_dig_def)
qed

lemma str_nat_no_leading_zero: "0 < n \<Longrightarrow> hd (str_nat n) \<noteq> CHR ''0''"
proof (induction n rule: str_nat.induct)
  case (1 n)
  show ?case
  proof (cases "n < 10")
    case True
    have "digit_val CHR ''0'' = Some 0" by (simp add: digit_val_def)
    then have "digit_char n \<noteq> CHR ''0''" using True 1(2) by (metis digit_val_char less_irrefl option.inject)
    with True show ?thesis by (subst str_nat.simps) simp
  next
    case False
    with 1 show ?thesis by (subst str_nat.simps) simp
  qed
qed

lemma str_nat_zero: "str_nat 0 = ''0''"
  by (subst str_nat.simps) (simp add: digit_char_def char_of_lits)

lemma int_part:
  assumes "ends_number r"
  shows "(case str_nat m @ r of c # cs \<Rightarrow> if c = CHR ''0'' then [c] else takeWhile is_dig (str_nat m @ r) | [] \<Rightarrow> []) = str_nat m"
proof (cases "m = 0")
  case False
  obtain c cs where c: "str_nat m = c # cs" by (cases "str_nat m") auto
  have "c \<noteq> CHR ''0''" using str_nat_no_leading_zero [of m] False c by simp
  moreover have "takeWhile is_dig (str_nat m @ r) = str_nat m"
    using str_nat_digits [of m] assms by (cases r) (auto simp: takeWhile_append ends_number_def)
  ultimately show ?thesis using c by simp
qed (simp add: str_nat_zero)

lemma str_int_shape: "str_int n = (if n < 0 then ''-'' else []) @ str_nat (nat \<bar>n\<bar>)"
  by (simp add: str_int_def)

lemma jnumber_str_int:
  assumes "ends_number r"
  shows "jnumber (str_int n @ r) = Some (JInt n, r)"
proof -
  define m where "m = nat \<bar>n\<bar>"
  define neg where "neg = (if n < 0 then ''-'' else [])"
  have s: "str_int n = neg @ str_nat m" by (simp add: str_int_shape m_def neg_def)
  have "hd (str_nat m) \<noteq> CHR ''-''" using str_nat_not_space [of m] hd_in_set [OF str_nat_nonempty, of m] by blast
  then have sign: "(case str_int n @ r of c # cs \<Rightarrow> if c = CHR ''-'' then ([c], cs) else ([], str_int n @ r) | [] \<Rightarrow> ([], [])) =
      (neg, str_nat m @ r)"
    by (cases "str_nat m") (auto simp: s neg_def)
  have fp: "(case r of c # cs \<Rightarrow> if c = CHR ''.'' \<and> P cs then f c cs else [] | [] \<Rightarrow> []) = []" for P f
    using assms by (auto simp: ends_number_def split: list.splits)
  have ep: "(case r of c # cs \<Rightarrow> if c = CHR ''e'' \<or> c = CHR ''E'' then f c cs else [] | [] \<Rightarrow> []) = []" for f
    using assms by (auto simp: ends_number_def split: list.splits)
  show ?thesis
    unfolding jnumber_def sign Let_def prod.case int_part [OF assms]
    by (simp add: fp ep s [symmetric])
qed

lemma jconst_str_int: "jconst (str_int n @ r) = None"
proof -
  obtain c cs where c: "str_nat (nat \<bar>n\<bar>) = c # cs" by (cases "str_nat (nat \<bar>n\<bar>)") auto
  have "is_dig c" using str_nat_digits [of "nat \<bar>n\<bar>"] c by simp
  then have "c \<notin> {CHR ''n'', CHR ''t'', CHR ''f'', CHR ''N'', CHR ''I'', CHR ''-''}"
    by (auto simp: is_dig_def digit_val_def)
  with c show ?thesis by (simp add: jconst_def str_int_shape)
qed

text \<open>Values without floats, and with distinct keys in every object.\<close>

fun json_ok :: "json \<Rightarrow> bool" where
  "json_ok (JFloat _) = False"
| "json_ok (JArr vs) = list_all json_ok vs"
| "json_ok (JObj kvs) = (distinct (map fst kvs) \<and> list_all (\<lambda>(_, v). json_ok v) kvs)"
| "json_ok _ = True"

definition starts_value :: "string \<Rightarrow> bool" where
  "starts_value s \<longleftrightarrow> s \<noteq> [] \<and> \<not> json_ws (hd s) \<and> hd s \<noteq> CHR '']'' \<and> hd s \<noteq> CHR ''}''"

lemma dumps_starts: "json_ok v \<Longrightarrow> starts_value (dumps rep v)"
proof (cases v)
  case (JInt n)
  obtain c cs where c: "str_nat (nat \<bar>n\<bar>) = c # cs" by (cases "str_nat (nat \<bar>n\<bar>)") auto
  have "is_dig c" using str_nat_digits [of "nat \<bar>n\<bar>"] c by simp
  then have "\<not> json_ws c \<and> c \<noteq> CHR '']'' \<and> c \<noteq> CHR ''}''"
    by (auto simp: is_dig_def digit_val_def json_ws_def Let_def split: if_splits)
  with c JInt show ?thesis by (simp add: starts_value_def str_int_shape json_ws_def)
qed (auto simp: starts_value_def json_ws_def dumps_str_def)

lemma skip_ws_value: "starts_value s \<Longrightarrow> skip_ws (s @ r) = s @ r"
  by (cases s) (auto simp: starts_value_def skip_ws_def)

lemma skip_ws_simps [simp]:
  "skip_ws (CHR '','' # r) = CHR '','' # r" "skip_ws (CHR '']'' # r) = CHR '']'' # r"
  "skip_ws (CHR ''}'' # r) = CHR ''}'' # r" "skip_ws (CHR '':'' # r) = CHR '':'' # r"
  "skip_ws (CHR '' '' # r) = skip_ws r"
  by (simp_all add: skip_ws_def json_ws_def)

lemma ends_number_simps [simp]:
  "ends_number []" "ends_number (CHR '','' # r)" "ends_number (CHR '']'' # r)" "ends_number (CHR ''}'' # r)"
  by (simp_all add: ends_number_def is_dig_def digit_val_def)

definition reads_back :: "(pyfloat \<Rightarrow> string) \<Rightarrow> json \<Rightarrow> bool" where
  "reads_back rep v \<longleftrightarrow> starts_value (dumps rep v) \<and>
     (\<forall>n r. 2 * length (dumps rep v) + 1 \<le> n \<longrightarrow> ends_number r \<longrightarrow> jvalue n (dumps rep v @ r) = Some (v, r))"

lemma joined_Cons: "xs \<noteq> [] \<Longrightarrow> joined sep (x # xs) = x @ sep @ joined sep xs"
  by (cases xs) auto

lemma joined_starts: "xs \<noteq> [] \<Longrightarrow> starts_value (hd xs) \<Longrightarrow> starts_value (joined sep xs)"
  by (cases xs; cases "tl xs") (auto simp: starts_value_def)

lemma jelems_dumps:
  assumes "vs \<noteq> []" "\<forall>v \<in> set vs. reads_back rep v" "2 * length (joined '', '' (map (dumps rep) vs)) + 2 \<le> n"
  shows "jelems n (joined '', '' (map (dumps rep) vs) @ CHR '']'' # r) acc = Some (JArr (acc @ vs), r)"
  using assms
proof (induction vs arbitrary: n acc)
  case (Cons v vs)
  obtain m where n: "n = Suc m" using Cons.prems(3) by (cases n) auto
  have v: "reads_back rep v" using Cons.prems(2) by simp
  show ?case
  proof (cases "vs = []")
    case True
    with v Cons.prems(3) n have "jvalue m (dumps rep v @ CHR '']'' # r) = Some (v, CHR '']'' # r)"
      by (simp add: reads_back_def)
    with True n show ?thesis by simp
  next
    case False
    let ?rest = "joined '', '' (map (dumps rep) vs) @ CHR '']'' # r"
    have j: "joined '', '' (map (dumps rep) (v # vs)) = dumps rep v @ '', '' @ joined '', '' (map (dumps rep) vs)"
      using False by (simp add: joined_Cons)
    have "jvalue m (dumps rep v @ CHR '','' # CHR '' '' # ?rest) = Some (v, CHR '','' # CHR '' '' # ?rest)"
      using v Cons.prems(3) n j by (simp add: reads_back_def)
    moreover have "starts_value (joined '', '' (map (dumps rep) vs))"
      using False Cons.prems(2) by (intro joined_starts) (auto simp: reads_back_def hd_map)
    then have "skip_ws (CHR '' '' # ?rest) = ?rest" by (simp add: skip_ws_value)
    moreover have "jelems m ?rest (acc @ [v]) = Some (JArr (acc @ [v] @ vs), r)"
      using Cons.IH [OF False, of m "acc @ [v]"] Cons.prems(2,3) n j by simp
    ultimately show ?thesis by (simp only: n j) simp
  qed
qed simp

abbreviation member :: "(pyfloat \<Rightarrow> string) \<Rightarrow> string \<times> json \<Rightarrow> string" where
  "member rep \<equiv> (\<lambda>(k, v). dumps_str k @ '': '' @ dumps rep v)"

lemma dict_set_fresh: "k \<notin> fst ` set d \<Longrightarrow> dict_set k v d = d @ [(k, v)]"
  by (induction d) auto

lemma members_start: "kvs \<noteq> [] \<Longrightarrow> starts_value (joined '', '' (map (member rep) kvs))"
  by (intro joined_starts) (auto simp: hd_map split_beta dumps_str_def starts_value_def json_ws_def)

lemma jmembers_dumps:
  assumes "kvs \<noteq> []" "\<forall>(k, v) \<in> set kvs. reads_back rep v" "distinct (map fst (acc @ kvs))"
    and "2 * length (joined '', '' (map (member rep) kvs)) + 2 \<le> n"
  shows "jmembers n (joined '', '' (map (member rep) kvs) @ CHR ''}'' # r) acc = Some (JObj (acc @ kvs), r)"
  using assms
proof (induction kvs arbitrary: n acc)
  case (Cons kv kvs)
  obtain m where n: "n = Suc m" using Cons.prems(4) by (cases n) auto
  obtain k v where kv: "kv = (k, v)" by (metis surj_pair)
  have v: "reads_back rep v" using Cons.prems(2) kv by simp
  have acc: "dict_set k v acc = acc @ [(k, v)]" using Cons.prems(3) kv by (intro dict_set_fresh) auto
  have head: "jmembers n (dumps_str k @ '': '' @ dumps rep v @ t) acc =
      (case jvalue m (dumps rep v @ t) of None \<Rightarrow> None
       | Some (v, r2) \<Rightarrow> (case skip_ws r2 of [] \<Rightarrow> None
          | e # r3 \<Rightarrow> if e = CHR ''}'' then Some (JObj (dict_set k v acc), r3)
             else if e = CHR '','' then jmembers m (skip_ws r3) (dict_set k v acc) else None))" for t
    using v jstring_dumps [of k "'': '' @ dumps rep v @ t"]
    by (simp add: n dumps_str_def reads_back_def skip_ws_value)
  show ?case
  proof (cases "kvs = []")
    case True
    then have "jvalue m (dumps rep v @ CHR ''}'' # r) = Some (v, CHR ''}'' # r)"
      using v Cons.prems(4) n kv by (simp add: reads_back_def)
    with True show ?thesis using head [of "CHR ''}'' # r"] by (simp add: kv acc)
  next
    case False
    let ?rest = "joined '', '' (map (member rep) kvs) @ CHR ''}'' # r"
    have j: "joined '', '' (map (member rep) (kv # kvs)) = dumps_str k @ '': '' @ dumps rep v @ '', '' @ joined '', '' (map (member rep) kvs)"
      using False by (simp add: joined_Cons kv)
    have "jvalue m (dumps rep v @ CHR '','' # CHR '' '' # ?rest) = Some (v, CHR '','' # CHR '' '' # ?rest)"
      using v Cons.prems(4) n j by (simp add: reads_back_def)
    moreover have "skip_ws (CHR '' '' # ?rest) = ?rest" using members_start [OF False] by (simp add: skip_ws_value)
    moreover have "jmembers m ?rest (acc @ [(k, v)]) = Some (JObj (acc @ [(k, v)] @ kvs), r)"
      using Cons.IH [OF False, of "acc @ [(k, v)]" m] Cons.prems(2-4) n j kv by simp
    ultimately show ?thesis using head [of "CHR '','' # CHR '' '' # ?rest"] by (simp only: j) (simp add: kv acc)
  qed
qed simp

lemma reads_backI:
  assumes "json_ok v" "\<And>n r. 2 * length (dumps rep v) \<le> n \<Longrightarrow> ends_number r \<Longrightarrow> jvalue (Suc n) (dumps rep v @ r) = Some (v, r)"
  shows "reads_back rep v"
  unfolding reads_back_def
proof (intro conjI allI impI)
  show "starts_value (dumps rep v)" using assms(1) by (rule dumps_starts)
  fix n r assume "2 * length (dumps rep v) + 1 \<le> n" "ends_number r"
  then show "jvalue n (dumps rep v @ r) = Some (v, r)" using assms(2) by (cases n) auto
qed

lemma reads_back_int: "reads_back rep (JInt n)"
proof (rule reads_backI)
  fix m r assume "ends_number r"
  obtain c cs where c: "str_nat (nat \<bar>n\<bar>) = c # cs" by (cases "str_nat (nat \<bar>n\<bar>)") auto
  have "is_dig c" using str_nat_digits [of "nat \<bar>n\<bar>"] c by simp
  then have "c \<notin> {CHR 0x22, CHR ''{'', CHR ''[''}" by (auto simp: is_dig_def digit_val_def)
  with c have "hd (str_int n) \<notin> {CHR 0x22, CHR ''{'', CHR ''[''}" "str_int n \<noteq> []"
    by (auto simp: str_int_shape)
  then show "jvalue (Suc m) (dumps rep (JInt n) @ r) = Some (JInt n, r)"
    using jnumber_str_int [OF \<open>ends_number r\<close>, of n] jconst_str_int [of n r] by (cases "str_int n") auto
qed simp

lemma reads_back_arr:
  assumes "json_ok (JArr vs)" "\<forall>v \<in> set vs. reads_back rep v"
  shows "reads_back rep (JArr vs)"
proof (rule reads_backI [OF assms(1)])
  fix n r assume n: "2 * length (dumps rep (JArr vs)) \<le> n"
  show "jvalue (Suc n) (dumps rep (JArr vs) @ r) = Some (JArr vs, r)"
  proof (cases "vs = []")
    case False
    let ?j = "joined '', '' (map (dumps rep) vs)"
    have st: "starts_value ?j" using False assms(2) by (intro joined_starts) (auto simp: reads_back_def hd_map)
    then obtain d t where d: "?j = d # t" "d \<noteq> CHR '']''" by (cases ?j) (auto simp: starts_value_def)
    have "jelems n (?j @ CHR '']'' # r) [] = Some (JArr vs, r)"
      using jelems_dumps [OF False assms(2), of n r "[]"] n by simp
    with d skip_ws_value [OF st, of "CHR '']'' # r"] show ?thesis by simp
  qed simp
qed

lemma reads_back_obj:
  assumes "json_ok (JObj kvs)" "\<forall>(k, v) \<in> set kvs. reads_back rep v"
  shows "reads_back rep (JObj kvs)"
proof (rule reads_backI [OF assms(1)])
  fix n r assume n: "2 * length (dumps rep (JObj kvs)) \<le> n"
  show "jvalue (Suc n) (dumps rep (JObj kvs) @ r) = Some (JObj kvs, r)"
  proof (cases "kvs = []")
    case False
    let ?j = "joined '', '' (map (member rep) kvs)"
    have st: "starts_value ?j" using False by (rule members_start)
    then obtain d t where d: "?j = d # t" "d \<noteq> CHR ''}''" by (cases ?j) (auto simp: starts_value_def)
    have "jmembers n (?j @ CHR ''}'' # r) [] = Some (JObj kvs, r)"
      using jmembers_dumps [OF False assms(2), of "[]" n r] n assms(1) by simp
    with d skip_ws_value [OF st, of "CHR ''}'' # r"] show ?thesis by simp
  qed simp
qed

lemma json_reads_back: "json_ok v \<Longrightarrow> reads_back rep v"
proof (induction v)
  case (JStr s)
  then show ?case by (intro reads_backI) (simp_all add: dumps_str_def jstring_dumps)
next
  case (JArr vs)
  then show ?case by (intro reads_back_arr) (auto simp: list_all_iff)
next
  case (JObj kvs)
  then show ?case by (intro reads_back_obj) (fastforce simp: list_all_iff)+
next
  case JNull
  then show ?case by (intro reads_backI) (simp_all add: jconst_def)
next
  case (JBool b)
  then show ?case by (intro reads_backI) (simp_all add: jconst_def)
qed (simp_all add: reads_back_int)

lemma loads_dumps: "json_ok v \<Longrightarrow> loads (dumps rep v) = Inr v"
proof -
  assume "json_ok v"
  then have rb: "reads_back rep v" by (rule json_reads_back)
  then have "skip_ws (dumps rep v) = dumps rep v"
    using skip_ws_value [of "dumps rep v" "[]"] by (simp add: reads_back_def)
  moreover have "jvalue (2 * length (dumps rep v) + 1) (dumps rep v @ []) = Some (v, [])"
    using rb unfolding reads_back_def by (metis ends_number_simps(1) order_refl)
  ultimately show ?thesis unfolding loads_def append_Nil2 by (simp add: skip_ws_def)
qed

end
