(* ===== verification/Alert_Worker.thy ===== *)
theory Alert_Worker
  imports Dedup Rps_Window Statistical Rules Py_Json Aggregate Redis_Stream
begin

section \<open>The alert consumer\<close>

text \<open>
  \<open>consumers/alerts/worker.py\<close>: the second reader of \<open>request_events\<close>. The module state of
  \<open>dedup.py\<close> and \<open>statistical.py\<close>, the counter of \<open>run\<close> and its last eviction are one record. The
  world is the Redis server as far as the process sees it, clocks included: readings of
  \<open>time.time()\<close> and \<open>time.monotonic()\<close> and \<open>PUBLISH\<close> are operations on it.
\<close>

record 'r alert_ops =
  wall_time :: "'r \<Rightarrow> real \<times> 'r"
  monotonic :: "'r \<Rightarrow> real \<times> 'r"
  publish :: "string \<Rightarrow> json \<Rightarrow> 'r \<Rightarrow> unit res \<times> 'r"

definition ALERT_STREAM :: string where
  "ALERT_STREAM = ''request_events''"

definition ALERT_GROUP :: string where
  "ALERT_GROUP = ''alert-cg''"

definition ALERT_CHANNEL :: string where
  "ALERT_CHANNEL = ''dashboard:alerts''"

definition METRICS_CHANNEL :: string where
  "METRICS_CHANNEL = ''dashboard:metrics''"

definition READ_COUNT :: nat where
  "READ_COUNT = 200"

definition BASELINE_EVICT_EVERY_S :: real where
  "BASELINE_EVICT_EVERY_S = 300"

subsection \<open>Parsing\<close>

record alert_event =
  ae_tenant_id :: string
  ae_endpoint :: string
  ae_query_string :: string
  ae_user_agent :: string
  ae_remote_ip_hash :: string
  ae_timestamp_ms :: int

definition get_default :: "entry_fields \<Rightarrow> string \<Rightarrow> string" where
  "get_default flds k = (case dict_get flds k of None \<Rightarrow> [] | Some v \<Rightarrow> v)"

text \<open>The only exceptions the body raises are the two that \<open>parse_alert_event\<close> catches.\<close>

definition parse_alert_event :: "entry_fields \<Rightarrow> alert_event option" where
  "parse_alert_event flds =
     (case res_bind (get_field flds ''tenant_id'') (\<lambda>tenant_id.
           res_bind (get_field flds ''endpoint'') (\<lambda>endpoint.
           res_bind (get_field flds ''remote_ip_hash'') (\<lambda>remote_ip_hash.
           res_bind (int_field flds ''timestamp_ms'') (\<lambda>timestamp_ms.
           Inr \<lparr>ae_tenant_id = tenant_id, ae_endpoint = endpoint,
                ae_query_string = get_default flds ''query_string'',
                ae_user_agent = get_default flds ''user_agent'',
                ae_remote_ip_hash = remote_ip_hash, ae_timestamp_ms = timestamp_ms\<rparr>)))) of
        Inl _ \<Rightarrow> None
      | Inr e \<Rightarrow> Some e)"

subsection \<open>Processing\<close>

record alert_state =
  as_dedup :: dedup_state
  as_baselines :: baselines
  as_rps :: rps_state
  as_last_evict :: real

definition threat_payload :: "alert_event \<Rightarrow> string \<Rightarrow> int \<Rightarrow> json" where
  "threat_payload e rule n = JObj [(''type'', JStr ''THREAT_DETECTED''), (''rule'', JStr rule),
     (''severity'', JStr ''HIGH''), (''tenant_id'', JStr (ae_tenant_id e)), (''endpoint'', JStr (ae_endpoint e)),
     (''source'', JStr (ae_remote_ip_hash e)), (''count'', JInt n), (''timestamp_ms'', JInt (ae_timestamp_ms e))]"

fun publish_rules :: "'r alert_ops \<Rightarrow> alert_event \<Rightarrow> string list \<Rightarrow> alert_state \<times> 'r \<Rightarrow> unit res \<times> (alert_state \<times> 'r)" where
  "publish_rules A e [] w = (Inr (), w)"
| "publish_rules A e (rule # rules) (st, r) =
     (let (now, r1) = wall_time A r;
          ((pub, n), dd) = should_publish now rule (ae_remote_ip_hash e) (as_dedup st);
          st1 = st\<lparr>as_dedup := dd\<rparr>
      in if pub
         then (case publish A ALERT_CHANNEL (threat_payload e rule n) r1 of
                 (Inl x, r2) \<Rightarrow> (Inl x, (st1, r2))
               | (Inr _, r2) \<Rightarrow> publish_rules A e rules (st1, r2))
         else publish_rules A e rules (st1, r1))"

definition process_message :: "'r alert_ops \<Rightarrow> alert_event \<Rightarrow> alert_state \<times> 'r \<Rightarrow> unit res \<times> (alert_state \<times> 'r)" where
  "process_message A e w =
     (case publish_rules A e (scan_event (ae_query_string e) (ae_user_agent e)) w of
        (Inl x, w1) \<Rightarrow> (Inl x, w1)
      | (Inr _, (st1, r1)) \<Rightarrow>
          (let (now, r2) = wall_time A r1
           in (Inr (), (st1\<lparr>as_rps := rps_record now (ae_endpoint e) (as_rps st1)\<rparr>, r2))))"

definition anomaly_payload :: "string \<Rightarrow> real \<Rightarrow> real \<Rightarrow> int \<Rightarrow> json" where
  "anomaly_payload endpoint z current_rps n = JObj [(''type'', JStr ''BEHAVIORAL_ANOMALY''),
     (''severity'', JStr ''MEDIUM''), (''endpoint'', JStr endpoint),
     (''z_score'', JFloat (Fin (of_int (round_half_even (z * 100)) / 100))),
     (''current_rps'', JFloat (Fin current_rps)), (''count'', JInt n)]"

text \<open>
  A new baseline reads the monotonic clock twice, at its creation and at its update; an existing
  one once.
\<close>

fun score_baselines :: "'r alert_ops \<Rightarrow> (string \<times> real) list \<Rightarrow> alert_state \<times> 'r \<Rightarrow> unit res \<times> (alert_state \<times> 'r)" where
  "score_baselines A [] w = (Inr (), w)"
| "score_baselines A ((endpoint, current_rps) # ticks) (st, r) =
     (let (t0, r0) = (if dict_get (as_baselines st) endpoint = None then monotonic A r else (0, r));
          (t1, r1) = monotonic A r0;
          (z, bs) = score_rps t0 t1 endpoint current_rps (as_baselines st);
          st1 = st\<lparr>as_baselines := bs\<rparr>
      in case z of
           None \<Rightarrow> score_baselines A ticks (st1, r1)
         | Some z \<Rightarrow>
             if z > Z_THRESHOLD
             then (let (now, r2) = wall_time A r1;
                       ((pub, n), dd) = should_publish now ''BEHAVIORAL_ANOMALY'' endpoint (as_dedup st1);
                       st2 = st1\<lparr>as_dedup := dd\<rparr>
                   in if pub
                      then (case publish A ALERT_CHANNEL (anomaly_payload endpoint z current_rps n) r2 of
                              (Inl x, r3) \<Rightarrow> (Inl x, (st2, r3))
                            | (Inr _, r3) \<Rightarrow> score_baselines A ticks (st2, r3))
                      else score_baselines A ticks (st2, r2))
             else score_baselines A ticks (st1, r1))"

definition publish_metric_snapshot :: "'r alert_ops \<Rightarrow> (string \<times> real) list \<Rightarrow> 'r \<Rightarrow> unit res \<times> 'r" where
  "publish_metric_snapshot A ticks r =
     (let total_rps = sum_list (map snd ticks);
          (now, r1) = wall_time A r
      in publish A METRICS_CHANNEL (JObj [(''type'', JStr ''METRIC_SNAPSHOT''),
           (''rps'', if ticks = [] then JInt 0 else JFloat (Fin total_rps)), (''ts'', JFloat (Fin now))]) r1)"

subsection \<open>The process\<close>

definition alert_ensure_consumer_group :: "'r stream_ops \<Rightarrow> 'r \<Rightarrow> unit res \<times> 'r" where
  "alert_ensure_consumer_group X r =
     (case xgroup_create X ALERT_STREAM ALERT_GROUP r of
        (Inr _, r') \<Rightarrow> (Inr (), r')
      | (Inl (ResponseError msg), r') \<Rightarrow>
          (if \<not> sublist ''BUSYGROUP'' msg then Inl (ResponseError msg) else Inr (), r')
      | (Inl e, r') \<Rightarrow> (Inl e, r'))"

partial_function (option) drop_loop :: "'r stream_ops \<Rightarrow> string \<Rightarrow> nat \<Rightarrow> 'r \<Rightarrow> (nat res \<times> 'r) option" where
  "drop_loop X consumer total_n r =
     (case xreadgroup_own X ALERT_GROUP consumer ALERT_STREAM READ_COUNT r of
        (Inl e, r1) \<Rightarrow> Some (Inl e, r1)
      | (Inr messages, r1) \<Rightarrow>
          if messages = [] then Some (Inr total_n, r1)
          else (case xack X ALERT_STREAM ALERT_GROUP (map fst messages) r1 of
                  (Inl e, r2) \<Rightarrow> Some (Inl e, r2)
                | (Inr _, r2) \<Rightarrow> drop_loop X consumer (total_n + length messages) r2))"

definition drop_own_pending :: "'r stream_ops \<Rightarrow> string \<Rightarrow> 'r \<Rightarrow> (nat res \<times> 'r) option" where
  "drop_own_pending X consumer r = drop_loop X consumer 0 r"

text \<open>The part of \<open>run\<close> before the loop: a fresh counter, and the module state at import.\<close>

definition alert_startup :: "'r stream_ops \<Rightarrow> 'r alert_ops \<Rightarrow> string \<Rightarrow> 'r \<Rightarrow> (alert_state res \<times> 'r) option" where
  "alert_startup X A consumer r =
     (case alert_ensure_consumer_group X r of
        (Inl e, r1) \<Rightarrow> Some (Inl e, r1)
      | (Inr _, r1) \<Rightarrow>
          (case drop_own_pending X consumer r1 of
             None \<Rightarrow> None
           | Some (Inl e, r2) \<Rightarrow> Some (Inl e, r2)
           | Some (Inr _, r2) \<Rightarrow>
               (let (t, r3) = monotonic A r2
                in Some (Inr \<lparr>as_dedup = dedup_init, as_baselines = [], as_rps = [], as_last_evict = t\<rparr>, r3))))"

text \<open>The inner loop over the messages read; it collects the ids to acknowledge.\<close>

fun scan_messages :: "'r alert_ops \<Rightarrow> stream_entry list \<Rightarrow> string list \<Rightarrow> alert_state \<times> 'r \<Rightarrow>
    string list res \<times> (alert_state \<times> 'r)" where
  "scan_messages A [] ack_ids w = (Inr ack_ids, w)"
| "scan_messages A ((msg_id, flds) # messages) ack_ids w =
     (case parse_alert_event flds of
        None \<Rightarrow> scan_messages A messages (ack_ids @ [msg_id]) w
      | Some e \<Rightarrow>
          (case process_message A e w of
             (Inl x, w1) \<Rightarrow> (Inl x, w1)
           | (Inr _, w1) \<Rightarrow> scan_messages A messages (ack_ids @ [msg_id]) w1))"

definition ack_scanned :: "'r stream_ops \<Rightarrow> string list \<Rightarrow> 'r \<Rightarrow> unit res \<times> 'r" where
  "ack_scanned X ack_ids r = (if ack_ids = [] then (Inr (), r) else xack X ALERT_STREAM ALERT_GROUP ack_ids r)"

definition evict_if_due :: "'r alert_ops \<Rightarrow> alert_state \<times> 'r \<Rightarrow> alert_state \<times> 'r" where
  "evict_if_due A = (\<lambda>(st, r).
     let (t, r1) = monotonic A r
     in if t - as_last_evict st \<ge> BASELINE_EVICT_EVERY_S
        then (let (t', r2) = monotonic A r1;
                  (n, bs) = evict_idle t' (as_baselines st);
                  (t'', r3) = monotonic A r2
              in (st\<lparr>as_baselines := bs, as_last_evict := t''\<rparr>, r3))
        else (st, r1))"

definition alert_iteration :: "'r stream_ops \<Rightarrow> 'r alert_ops \<Rightarrow> string \<Rightarrow> alert_state \<times> 'r \<Rightarrow>
    unit res \<times> (alert_state \<times> 'r)" where
  "alert_iteration X A consumer = (\<lambda>(st, r).
     case xreadgroup_new X ALERT_GROUP consumer ALERT_STREAM READ_COUNT r of
       (Inl e, r1) \<Rightarrow> (Inl e, (st, r1))
     | (Inr messages, r1) \<Rightarrow>
         (case scan_messages A messages [] (st, r1) of
            (Inl e, w2) \<Rightarrow> (Inl e, w2)
          | (Inr ack_ids, (st2, r2)) \<Rightarrow>
              (case ack_scanned X ack_ids r2 of
                 (Inl e, r3) \<Rightarrow> (Inl e, (st2, r3))
               | (Inr _, r3) \<Rightarrow>
                   (let (now, r4) = wall_time A r3;
                        (ticks, rps) = tick now (as_rps st2);
                        st4 = st2\<lparr>as_rps := rps\<rparr>
                    in case score_baselines A ticks (st4, r4) of
                         (Inl e, w5) \<Rightarrow> (Inl e, w5)
                       | (Inr _, (st5, r5)) \<Rightarrow>
                           (case publish_metric_snapshot A ticks r5 of
                              (Inl e, r6) \<Rightarrow> (Inl e, (st5, r6))
                            | (Inr _, r6) \<Rightarrow> (Inr (), evict_if_due A (st5, r6)))))))"

end
