(* ===== verification/Alert_Properties.thy ===== *)
theory Alert_Properties
  imports Alert_Worker Stream_Ref
begin

section \<open>Properties of the alert consumer\<close>

text \<open>
  The consumer acknowledges everything it has scanned, matched or not, and on restart drops its
  own pending entries without scanning them. The interface adds to the stream that reading a
  clock and publishing leave the group alone.
\<close>

locale alert_world = redis_stream X ALERT_STREAM ALERT_GROUP content delivered trimmed pending serving
  for X :: "'r stream_ops" and content delivered trimmed pending serving +
  fixes A :: "'r alert_ops"
  assumes wall_views: "wall_time A r = (t, r') \<Longrightarrow>
        delivered r' = delivered r \<and> trimmed r' = trimmed r \<and> pending r' = pending r \<and> (serving r \<longrightarrow> serving r')"
    and mono_views: "monotonic A r = (t, r') \<Longrightarrow>
        delivered r' = delivered r \<and> trimmed r' = trimmed r \<and> pending r' = pending r \<and> (serving r \<longrightarrow> serving r')"
    and publish_views: "publish A ch msg r = (x, r') \<Longrightarrow>
        delivered r' = delivered r \<and> trimmed r' = trimmed r \<and> pending r' = pending r \<and> (serving r \<longrightarrow> serving r')"
    and publish_serving: "serving r \<Longrightarrow> publish A ch msg r = (x, r') \<Longrightarrow> \<not> isl x"
begin

definition undisturbed :: "'r \<Rightarrow> 'r \<Rightarrow> bool" where
  "undisturbed r r' \<longleftrightarrow> delivered r' = delivered r \<and> trimmed r' = trimmed r \<and> pending r' = pending r \<and>
     (serving r \<longrightarrow> serving r')"

lemma undisturbed_refl [simp]: "undisturbed r r"
  by (simp add: undisturbed_def)

lemma undisturbed_trans [trans]: "undisturbed r r' \<Longrightarrow> undisturbed r' r'' \<Longrightarrow> undisturbed r r''"
  by (simp add: undisturbed_def)

lemma op_undisturbed:
  "undisturbed r (snd (wall_time A r))" "undisturbed r (snd (monotonic A r))" "undisturbed r (snd (publish A ch msg r))"
  using wall_views [of r "fst (wall_time A r)" "snd (wall_time A r)"]
    mono_views [of r "fst (monotonic A r)" "snd (monotonic A r)"]
    publish_views [of ch msg r "fst (publish A ch msg r)" "snd (publish A ch msg r)"]
  by (simp_all add: undisturbed_def)

lemma publish_rules_undisturbed: "undisturbed (snd w) (snd (snd (publish_rules A e rules w)))"
proof (induction rules arbitrary: w)
  case (Cons rule rules)
  obtain st r where w: "w = (st, r)" by (metis surj_pair)
  let ?r1 = "snd (wall_time A r)"
  let ?p = "should_publish (fst (wall_time A r)) rule (ae_remote_ip_hash e) (as_dedup st)"
  let ?pub = "publish A ALERT_CHANNEL (threat_payload e rule (snd (fst ?p))) ?r1"
  have "undisturbed r ?r1" "undisturbed r (snd ?pub)"
    using op_undisturbed by (blast intro: undisturbed_trans)+
  with Cons [of "(st\<lparr>as_dedup := snd ?p\<rparr>, ?r1)"] Cons [of "(st\<lparr>as_dedup := snd ?p\<rparr>, snd ?pub)"] show ?case
    by (auto simp: w split_beta Let_def split: sum.splits intro: undisturbed_trans)
qed simp

lemma process_message_undisturbed: "undisturbed (snd w) (snd (snd (process_message A e w)))"
  using publish_rules_undisturbed [of w e "scan_event (ae_query_string e) (ae_user_agent e)"] op_undisturbed(1)
  by (auto simp: process_message_def split_beta Let_def split: sum.splits intro: undisturbed_trans)

lemma scan_messages_undisturbed: "undisturbed (snd w) (snd (snd (scan_messages A messages ids w)))"
proof (induction messages arbitrary: ids w)
  case (Cons m messages)
  obtain i flds where m: "m = (i, flds)" by (metis surj_pair)
  show ?case
  proof (cases "parse_alert_event flds")
    case (Some e)
    with Cons [of "snd (process_message A e w)" "ids @ [i]"] process_message_undisturbed [of w e] m show ?thesis
      by (auto simp: split_beta split: sum.splits intro: undisturbed_trans)
  qed (use Cons m in simp)
qed simp

lemma scan_messages_ids: "fst (scan_messages A messages ids w) = Inr ack_ids \<Longrightarrow> ack_ids = ids @ map fst messages"
  by (induction A messages ids w rule: scan_messages.induct) (auto split: option.splits sum.splits prod.splits)

lemma score_baselines_undisturbed: "undisturbed (snd w) (snd (snd (score_baselines A ticks w)))"
proof (induction ticks arbitrary: w)
  case (Cons tk ticks)
  obtain st r where w: "w = (st, r)" by (metis surj_pair)
  obtain ep rps where tk: "tk = (ep, rps)" by (metis surj_pair)
  define m0 where "m0 = (if dict_get (as_baselines st) ep = None then monotonic A r else (0, r))"
  define m1 where "m1 = monotonic A (snd m0)"
  define sc where "sc = score_rps (fst m0) (fst m1) ep rps (as_baselines st)"
  have m1: "undisturbed r (snd m1)"
    unfolding m0_def m1_def using op_undisturbed(2) by (auto intro: undisturbed_trans)
  have wt: "undisturbed r (snd (wall_time A (snd m1)))" using m1 op_undisturbed(1) by (rule undisturbed_trans)
  have pb: "undisturbed r (snd (publish A ch msg (snd (wall_time A (snd m1)))))" for ch msg
    using wt op_undisturbed(3) by (rule undisturbed_trans)
  have IH: "undisturbed r (snd (snd (score_baselines A ticks (st', r'))))" if "undisturbed r r'" for st' r'
    using Cons [of "(st', r')"] that by (auto intro: undisturbed_trans)
  show ?case
    by (auto simp: w tk split_beta Let_def m0_def [symmetric] m1_def [symmetric] sc_def [symmetric]
        split: option.splits sum.splits intro!: IH m1 wt pb)
qed simp

lemma snapshot_undisturbed: "undisturbed r (snd (publish_metric_snapshot A ticks r))"
  unfolding publish_metric_snapshot_def split_beta Let_def
  by (rule undisturbed_trans [OF op_undisturbed(1) op_undisturbed(3)])

lemma evict_undisturbed: "undisturbed (snd w) (snd (evict_if_due A w))"
  by (auto simp: evict_if_due_def split_beta Let_def
      intro: op_undisturbed undisturbed_trans [OF op_undisturbed(2) undisturbed_trans [OF op_undisturbed(2) op_undisturbed(2)]])

lemma undisturbed_pending: "undisturbed r r' \<Longrightarrow> pending r' = pending r"
  by (simp add: undisturbed_def)

text \<open>After an acknowledgement of the new entries, the lists are as before the read.\<close>

lemma filter_new:
  assumes "set new \<inter> delivered r = {}"
  shows "(\<lambda>c'. filter (\<lambda>i. i \<notin> set new) (((pending r)(c := pending r c @ new)) c')) = pending r"
proof
  fix c'
  have "filter (\<lambda>i. i \<notin> set new) (pending r c') = pending r c'"
    using assms pending_delivered [of r c'] by (intro filter_True) auto
  then show "filter (\<lambda>i. i \<notin> set new) (((pending r)(c := pending r c @ new)) c') = pending r c'"
    by (auto simp: filter_empty_conv)
qed

lemma ack_new:
  assumes "set new \<inter> delivered r = {}" "pending r2 = (pending r)(c := pending r c @ new)"
    and "ack_scanned X new r2 = (a, r3)"
  shows "pending r3 = pending r2 \<and> isl a \<or> pending r3 = pending r"
proof (cases "new = []")
  case False
  with assms(3) have "xack X ALERT_STREAM ALERT_GROUP new r2 = (a, r3)" by (simp add: ack_scanned_def)
  from ack_views [OF this] filter_new [OF assms(1), of c] show ?thesis
    unfolding assms(2) by (cases a) auto
qed (use assms(2,3) in \<open>auto simp: ack_scanned_def\<close>)

text \<open>What follows the acknowledgement, scoring, the snapshot and eviction, touches no entry.\<close>

lemma after_ack_undisturbed:
  assumes "alert_iteration X A c (st, r) = (x, (st', r'))"
    and "xreadgroup_new X ALERT_GROUP c ALERT_STREAM READ_COUNT r = (Inr ms, r1)"
    and "scan_messages A ms [] (st, r1) = (Inr ids, (st2, r2))" "ack_scanned X ids r2 = (Inr u, r3)"
  shows "undisturbed r3 r'"
proof -
  let ?r4 = "snd (wall_time A r3)" and ?tk = "tick (fst (wall_time A r3)) (as_rps st2)"
  let ?w5 = "score_baselines A (fst ?tk) (st2\<lparr>as_rps := snd ?tk\<rparr>, ?r4)"
  let ?s6 = "publish_metric_snapshot A (fst ?tk) (snd (snd ?w5))"
  have u5: "undisturbed r3 (snd (snd ?w5))"
    using op_undisturbed(1) score_baselines_undisturbed [of "(st2\<lparr>as_rps := snd ?tk\<rparr>, ?r4)"] by (auto intro: undisturbed_trans)
  then have u6: "undisturbed r3 (snd ?s6)" using snapshot_undisturbed by (rule undisturbed_trans)
  show ?thesis
    using assms u5 u6 evict_undisturbed [of "(fst (snd ?w5), snd ?s6)"]
    by (auto simp: alert_iteration_def split_beta Let_def split: sum.splits intro: undisturbed_trans)
qed

lemma iteration_pending:
  assumes "alert_iteration X A c (st, r) = (x, (st', r'))"
  shows "\<exists>new. set new \<inter> delivered r = {} \<and>
    (pending r' = pending r \<or> isl x \<and> pending r' = (pending r)(c := pending r c @ new))"
proof -
  obtain y r1 where rd: "xreadgroup_new X ALERT_GROUP c ALERT_STREAM READ_COUNT r = (y, r1)" by (metis surj_pair)
  obtain new where new: "set new \<inter> delivered r = {}" "pending r1 = (pending r)(c := pending r c @ new)"
      "\<And>ms. y = Inr ms \<Longrightarrow> ms = map (as_delivered content (trimmed r)) new"
    using new_views [OF rd] by auto
  show ?thesis
  proof (cases y)
    case Inl
    with rd assms new(1,2) show ?thesis by (auto simp: alert_iteration_def)
  next
    case (Inr ms)
    obtain z st2 r2 where sc: "scan_messages A ms [] (st, r1) = (z, (st2, r2))" by (metis surj_pair)
    have p2: "pending r2 = (pending r)(c := pending r c @ new)"
      using scan_messages_undisturbed [of "(st, r1)" ms "[]"] sc new(2) by (simp add: undisturbed_def)
    show ?thesis
    proof (cases z)
      case Inl
      with rd Inr sc assms new(1) p2 show ?thesis by (auto simp: alert_iteration_def)
    next
      case z: (Inr ids)
      have ids: "ids = new" using scan_messages_ids [of ms "[]" "(st, r1)" ids] sc z new(3) [OF Inr] by (simp add: as_delivered_def comp_def)
      obtain a r3 where ak: "ack_scanned X ids r2 = (a, r3)" by (metis surj_pair)
      have p3: "pending r3 = pending r2 \<and> isl a \<or> pending r3 = pending r" using ack_new [OF new(1) p2] ak ids by blast
      show ?thesis
      proof (cases a)
        case Inl
        with rd Inr sc z ak assms new(1) p2 p3 show ?thesis by (auto simp: alert_iteration_def)
      next
        case (Inr u)
        with after_ack_undisturbed [OF assms] rd \<open>y = Inr ms\<close> sc z ak p3 have "pending r' = pending r"
          by (auto simp: undisturbed_def)
        with new(1) show ?thesis by blast
      qed
    qed
  qed
qed

lemma drop_loop_returns:
  assumes "serving r"
  shows "\<exists>r'. drop_loop X c n r = Some (Inr (n + length (pending r c)), r') \<and> serving r' \<and> pending r' c = []"
  using assms
proof (induction "length (pending r c)" arbitrary: r n rule: less_induct)
  case less
  obtain x r1 where rd: "xreadgroup_own X ALERT_GROUP c ALERT_STREAM READ_COUNT r = (x, r1)" by (metis surj_pair)
  let ?ids = "take READ_COUNT (pending r c)"
  have x: "x = Inr (map (as_delivered content (trimmed r)) ?ids)" "serving r1" "pending r1 = pending r"
    using own_serving [OF less(2) rd] own_views [OF rd] by (cases x; auto)+
  show ?case
  proof (cases "pending r c = []")
    case True
    with rd x show ?thesis by (subst drop_loop.simps) simp
  next
    case False
    obtain y r2 where ak: "xack X ALERT_STREAM ALERT_GROUP ?ids r1 = (y, r2)" by (metis surj_pair)
    have y: "y = Inr ()" "serving r2" using ack_serving [OF x(2) ak] by (cases y; simp)+
    have p2: "pending r2 c = drop READ_COUNT (pending r c)"
      using ack_views [OF ak] y(1) x(3) by (simp add: filter_not_in_take pending_distinct)
    have "length (pending r2 c) < length (pending r c)" using False by (simp add: p2 READ_COUNT_def)
    from less(1) [OF this y(2), of "n + length ?ids"]
    obtain r' where "drop_loop X c (n + length ?ids) r2 = Some (Inr (n + length ?ids + length (pending r2 c)), r')"
        "serving r'" "pending r' c = []" by blast
    moreover have "length ?ids + length (pending r2 c) = length (pending r c)" by (simp add: p2)
    moreover have "map fst (map (as_delivered content (trimmed r)) ?ids) = ?ids" by (simp add: as_delivered_def comp_def)
    ultimately show ?thesis using rd x(1) ak y(1) False
      by (subst drop_loop.simps) (auto simp: READ_COUNT_def add.assoc)
  qed
qed

end

subsection \<open>What is published\<close>

text \<open>A bus that accepts every message; \<open>sent r\<close> are the messages published so far.\<close>

locale alert_bus =
  fixes A :: "'r alert_ops" and sent :: "'r \<Rightarrow> (string \<times> json) list"
  assumes wall_sent: "sent (snd (wall_time A r)) = sent r"
    and publish_sent: "\<exists>r'. publish A ch msg r = (Inr (), r') \<and> sent r' = sent r @ [(ch, msg)]"
begin

lemma publish_rules_sends:
  "\<exists>st' r' more. publish_rules A e rules (st, r) = (Inr (), (st', r')) \<and> sent r' = sent r @ more"
proof (induction rules arbitrary: st r)
  case (Cons rule rules)
  let ?r1 = "snd (wall_time A r)" and ?p = "should_publish (fst (wall_time A r)) rule (ae_remote_ip_hash e) (as_dedup st)"
  obtain r2 where r2: "publish A ALERT_CHANNEL (threat_payload e rule (snd (fst ?p))) ?r1 = (Inr (), r2)"
    "sent r2 = sent r @ [(ALERT_CHANNEL, threat_payload e rule (snd (fst ?p)))]"
    using publish_sent wall_sent by metis
  from Cons.IH [of "st\<lparr>as_dedup := snd ?p\<rparr>" r2] Cons.IH [of "st\<lparr>as_dedup := snd ?p\<rparr>" ?r1] r2 wall_sent [of r]
  show ?case by (auto simp: split_beta Let_def)
qed simp

lemma publish_rules_reports:
  assumes "rule \<in> set rules" "dict_get (dd_recent (as_dedup st)) (rule, ae_remote_ip_hash e) = None"
  shows "\<exists>st' r' more. publish_rules A e rules (st, r) = (Inr (), (st', r')) \<and> sent r' = sent r @ more \<and>
    (ALERT_CHANNEL, threat_payload e rule 1) \<in> set more"
  using assms
proof (induction rules arbitrary: st r)
  case (Cons first rules)
  let ?r1 = "snd (wall_time A r)" and ?p = "should_publish (fst (wall_time A r)) first (ae_remote_ip_hash e) (as_dedup st)"
  let ?st1 = "st\<lparr>as_dedup := snd ?p\<rparr>"
  obtain r2 where r2: "publish A ALERT_CHANNEL (threat_payload e first (snd (fst ?p))) ?r1 = (Inr (), r2)"
    "sent r2 = sent r @ [(ALERT_CHANNEL, threat_payload e first (snd (fst ?p)))]"
    using publish_sent wall_sent by metis
  show ?case
  proof (cases "first = rule")
    case True
    with Cons.prems(2) have "fst ?p = (True, 1)" by (auto simp: should_publish_unseen)
    with r2 publish_rules_sends [of e rules ?st1 r2] True show ?thesis by (auto simp: split_beta Let_def)
  next
    case False
    with Cons.prems have "rule \<in> set rules" "dict_get (dd_recent (as_dedup ?st1)) (rule, ae_remote_ip_hash e) = None"
      by (auto simp: should_publish_unrelated)
    from Cons.IH [OF this, of r2] Cons.IH [OF this, of ?r1] r2 wall_sent [of r] show ?thesis by (auto simp: split_beta Let_def)
  qed
qed simp

lemma process_message_reports:
  assumes "rule \<in> set (scan_event (ae_query_string e) (ae_user_agent e))"
    and "dict_get (dd_recent (as_dedup st)) (rule, ae_remote_ip_hash e) = None"
  shows "\<exists>st' r' more. process_message A e (st, r) = (Inr (), (st', r')) \<and> sent r' = sent r @ more \<and>
    (ALERT_CHANNEL, threat_payload e rule 1) \<in> set more"
  using publish_rules_reports [OF assms, of r] wall_sent by (auto simp: process_message_def split_beta Let_def)

end

text \<open>A bus that keeps the messages, with a clock that stands still.\<close>

definition list_bus :: "(string \<times> json) list alert_ops" where
  "list_bus = \<lparr>wall_time = (\<lambda>r. (1000, r)), monotonic = (\<lambda>r. (1000, r)), publish = (\<lambda>ch msg r. (Inr (), r @ [(ch, msg)]))\<rparr>"

interpretation list_bus: alert_bus list_bus "\<lambda>r. r"
  by unfold_locales (simp_all add: list_bus_def)

subsection \<open>The reference server with a clock\<close>

definition ref_alert_ops :: "ref_stream alert_ops" where
  "ref_alert_ops = \<lparr>wall_time = (\<lambda>r. (1000, r)), monotonic = (\<lambda>r. (1000, r)),
     publish = (\<lambda>_ _ r. (if rs_up r then Inr () else Inl RedisConnectionError, r))\<rparr>"

interpretation ref_alert: alert_world "ref_stream_ops content" content rs_delivered rs_trimmed rs_pending rs_up ref_alert_ops
  for content
  by unfold_locales (auto simp: ref_alert_ops_def)

text \<open>An entry with a probe in its query string, pending for \<open>a1\<close>, and one not yet delivered.\<close>

definition probe_fields :: entry_fields where
  "probe_fields = [(''tenant_id'', ''t1''), (''endpoint'', ''/proxy/get''), (''remote_ip_hash'', ''ab12''),
     (''query_string'', ''p=../''), (''timestamp_ms'', str_int 1700000030000)]"

definition probed :: ref_stream where
  "probed = \<lparr>rs_up = True, rs_len = 2, rs_next = 1, rs_gone = 0, rs_pel = [(0, ''a1'')]\<rparr>"

lemma probed_simps [simp]: "rs_up probed" "rs_pending probed c = (if c = ''a1'' then [entry_id 0] else [])"
  by (simp_all add: probed_def rs_pending_def rs_norm_def)

subsection \<open>Properties\<close>

text \<open>
  C31: The pending list of the alert consumer does not grow. An iteration that returns normally
  leaves the pending lists of all consumers exactly as they were: everything it read it has
  acknowledged, matched or not, poison included. An iteration that raises adds at most the entries
  it read to its own list, and never touches another consumer's.
\<close>

theorem alert_iteration_acks_what_it_reads:
  assumes "alert_world X content delivered trimmed pending serving A"
    and "alert_iteration X A c (st, r) = (x, (st', r'))"
  shows "\<exists>new. set new \<inter> delivered r = {} \<and>
    (pending r' = pending r \<or> isl x \<and> pending r' = (pending r)(c := pending r c @ new))"
  by (rule alert_world.iteration_pending [OF assms])

definition alert_start :: alert_state where
  "alert_start = \<lparr>as_dedup = dedup_init, as_baselines = [], as_rps = [], as_last_evict = 1000\<rparr>"

theorem alert_iteration_acks_what_it_reads_witness:
  "\<exists>x w'. alert_iteration (ref_stream_ops (\<lambda>_. probe_fields)) ref_alert_ops ''a2'' (alert_start, probed) = (x, w') \<and>
     (rs_pending (snd w') ''a1'' = [entry_id 0])"
proof -
  obtain x st' r' where it: "alert_iteration (ref_stream_ops (\<lambda>_. probe_fields)) ref_alert_ops ''a2'' (alert_start, probed) =
      (x, (st', r'))" by (metis surj_pair)
  from alert_iteration_acks_what_it_reads [OF ref_alert.alert_world_axioms it]
  have "rs_pending r' ''a1'' = [entry_id 0]" by auto
  with it show ?thesis by auto
qed

text \<open>
  A restart drops the old backlog. With a server that answers, \<open>drop_own_pending\<close> returns,
  reports the number of entries that were pending, and leaves the consumer's list empty.
\<close>

theorem drop_own_pending_clears:
  assumes "redis_stream X ALERT_STREAM ALERT_GROUP content delivered trimmed pending serving" and "serving r"
  shows "\<exists>r'. drop_own_pending X c r = Some (Inr (length (pending r c)), r') \<and> serving r' \<and> pending r' c = []"
proof -
  let ?A = "\<lparr>wall_time = (\<lambda>r. (0, r)), monotonic = (\<lambda>r. (0, r)), publish = (\<lambda>_ _ r. (Inr (), r))\<rparr>"
  have "alert_world X content delivered trimmed pending serving ?A"
    using assms(1) by (simp add: alert_world_def alert_world_axioms_def)
  from alert_world.drop_loop_returns [OF this assms(2), of c 0] show ?thesis
    by (simp add: drop_own_pending_def)
qed

theorem drop_own_pending_clears_witness:
  "\<exists>r'. drop_own_pending (ref_stream_ops (\<lambda>_. probe_fields)) ''a1'' probed = Some (Inr 1, r') \<and> rs_pending r' ''a1'' = []"
  using drop_own_pending_clears [OF ref_stream.redis_stream_axioms, of probed "\<lambda>_. probe_fields" "''a1''"] by auto

end
