(* ===== verification/Redis_Spec.thy ===== *)
theory Redis_Spec
  imports Prelude
begin

section \<open>The Redis server as an interface\<close>

text \<open>
  Redis is a service the repository talks to and does not contain. Its commands are
  parameters of the model: records of operations over an abstract server state \<open>'r\<close>, which
  the definitions of the components take as arguments. A command a client sends returns a
  result that may be an exception, together with the next server state (a command may take
  effect on the server and still time out at the client). A command a Lua script calls runs
  inside the server and has no client-side failure.

  The locales state the documented behaviour of the commands the code relies on. The
  operations on sorted sets and the expiry of keys are in \<open>redis_zset\<close>; the script cache and
  \<open>EVALSHA\<close> in \<open>redis_scripts\<close>; strings with a time to live in \<open>redis_kv\<close>.
\<close>

subsection \<open>Sorted sets, as a script sees them\<close>

record 'r zset_ops =
  zremrangebyscore :: "string \<Rightarrow> int \<Rightarrow> int \<Rightarrow> 'r \<Rightarrow> 'r"
  zcard :: "string \<Rightarrow> 'r \<Rightarrow> int"
  zadd :: "string \<Rightarrow> int \<Rightarrow> string \<Rightarrow> 'r \<Rightarrow> 'r"
  pexpire :: "string \<Rightarrow> int \<Rightarrow> 'r \<Rightarrow> 'r"

text \<open>
  \<open>zview r k\<close> is the sorted set under key \<open>k\<close> as a map from members to scores (an absent key
  is the empty set), \<open>zttl r k\<close> the remaining time to live of the key in milliseconds, and
  \<open>elapse d r\<close> the server after \<open>d\<close> milliseconds without a command: a key whose time to live
  has run out is gone.
\<close>

locale redis_zset =
  fixes Z :: "'r zset_ops"
    and zview :: "'r \<Rightarrow> string \<Rightarrow> string \<Rightarrow> int option"
    and zttl :: "'r \<Rightarrow> string \<Rightarrow> int option"
    and elapse :: "int \<Rightarrow> 'r \<Rightarrow> 'r"
  assumes zview_finite: "finite (dom (zview r k))"
    and zcard_view: "zcard Z k r = int (card (dom (zview r k)))"
    and zrem_view: "zview (zremrangebyscore Z k lo hi r) =
          (zview r)(k := (\<lambda>m. case zview r k m of None \<Rightarrow> None
                             | Some s \<Rightarrow> if lo \<le> s \<and> s \<le> hi then None else Some s))"
    and zrem_ttl: "zttl (zremrangebyscore Z k lo hi r) k \<in> {None, zttl r k}"
    and zrem_ttl_other: "k' \<noteq> k \<Longrightarrow> zttl (zremrangebyscore Z k lo hi r) k' = zttl r k'"
    and zadd_view: "zview (zadd Z k s m r) = (zview r)(k := (zview r k)(m \<mapsto> s))"
    and zadd_ttl: "zttl (zadd Z k s m r) = zttl r"
    and pexpire_view: "0 < ms \<Longrightarrow> zview (pexpire Z k ms r) = zview r"
    and pexpire_ttl: "0 < ms \<Longrightarrow> zttl (pexpire Z k ms r) k \<in> {None, Some ms}"
    and pexpire_ttl_other: "0 < ms \<Longrightarrow> k' \<noteq> k \<Longrightarrow> zttl (pexpire Z k ms r) k' = zttl r k'"
    and elapse_view: "zview (elapse d r) k =
          (case zttl r k of None \<Rightarrow> zview r k
           | Some ms \<Rightarrow> if ms \<le> d then Map.empty else zview r k)"
    and elapse_ttl: "zttl (elapse d r) k =
          (case zttl r k of None \<Rightarrow> None
           | Some ms \<Rightarrow> if ms \<le> d then None else Some (ms - d))"

subsection \<open>The script cache\<close>

record 'r script_ops =
  script_load :: "string \<Rightarrow> 'r \<Rightarrow> string res \<times> 'r"
  evalsha :: "string \<Rightarrow> string \<Rightarrow> int \<Rightarrow> int \<Rightarrow> int \<Rightarrow> string \<Rightarrow> 'r \<Rightarrow> (int \<times> int) res \<times> 'r"

text \<open>
  \<open>SCRIPT LOAD\<close> stores a script under the digest of its text and returns the digest.
  \<open>EVALSHA\<close> with a known digest runs the script to completion as one unit, and with an
  unknown digest fails with \<open>NOSCRIPT\<close> and changes nothing. The meaning of a script's text
  is \<open>script_sem\<close>: the arguments are the key and the four values the rate limiter passes.
  Loading a script leaves the sorted sets alone.
\<close>

locale redis_scripts = redis_zset +
  fixes S :: "'a script_ops"
    and up :: "'a \<Rightarrow> bool"
    and cached_script :: "'a \<Rightarrow> string \<Rightarrow> string option"
    and digest :: "string \<Rightarrow> string"
    and script_sem :: "string \<Rightarrow> string \<Rightarrow> int \<Rightarrow> int \<Rightarrow> int \<Rightarrow> string \<Rightarrow> 'a \<Rightarrow> (int \<times> int) \<times> 'a"
  assumes load_up: "up r \<Longrightarrow> \<exists>r'. script_load S b r = (Inr (digest b), r') \<and> up r' \<and>
        zview r' = zview r \<and> zttl r' = zttl r \<and> cached_script r' (digest b) = Some b"
    and load_down: "\<not> up r \<Longrightarrow> \<exists>e. script_load S b r = (Inl e, r) \<and> is_redis_error e"
    and evalsha_hit: "up r \<Longrightarrow> cached_script r sha = Some b \<Longrightarrow>
        evalsha S sha k x y z m r = (Inr (fst (script_sem b k x y z m r)), snd (script_sem b k x y z m r))"
    and evalsha_miss: "up r \<Longrightarrow> cached_script r sha = None \<Longrightarrow>
        evalsha S sha k x y z m r = (Inl NoScriptError, r)"
    and evalsha_down: "\<not> up r \<Longrightarrow>
        \<exists>e. evalsha S sha k x y z m r = (Inl e, r) \<and> is_redis_error e \<and> e \<noteq> NoScriptError"

subsection \<open>Strings with a time to live\<close>

record 'r kv_ops =
  kv_get :: "string \<Rightarrow> 'r \<Rightarrow> string option res"
  kv_set_ex :: "string \<Rightarrow> string \<Rightarrow> int \<Rightarrow> 'r \<Rightarrow> unit res \<times> 'r"

text \<open>
  \<open>kv_view r k\<close> is the string under \<open>k\<close> with its remaining time to live in seconds;
  \<open>kv_elapse d r\<close> the server \<open>d\<close> seconds later.
\<close>

locale redis_kv =
  fixes K :: "'r kv_ops"
    and kv_up :: "'r \<Rightarrow> bool"
    and kv_view :: "'r \<Rightarrow> string \<Rightarrow> (string \<times> real) option"
    and kv_elapse :: "real \<Rightarrow> 'r \<Rightarrow> 'r"
  assumes get_up: "kv_up r \<Longrightarrow> kv_get K k r = Inr (map_option fst (kv_view r k))"
    and get_down: "\<not> kv_up r \<Longrightarrow> \<exists>e. kv_get K k r = Inl e \<and> is_redis_error e"
    and set_up: "kv_up r \<Longrightarrow> 0 < ttl \<Longrightarrow> \<exists>r'. kv_set_ex K k v ttl r = (Inr (), r') \<and> kv_up r' \<and>
        kv_view r' = (kv_view r)(k \<mapsto> (v, real_of_int ttl))"
    and set_down: "\<not> kv_up r \<Longrightarrow> \<exists>e. kv_set_ex K k v ttl r = (Inl e, r) \<and> is_redis_error e"
    and kv_elapse_view: "0 \<le> d \<Longrightarrow> kv_view (kv_elapse d r) k =
        (case kv_view r k of None \<Rightarrow> None
         | Some (v, ttl) \<Rightarrow> if ttl \<le> d then None else Some (v, ttl - d))"

end
