(* ===== verification/Redis_Ref.thy ===== *)
theory Redis_Ref
  imports Redis_Spec
begin

section \<open>A reference server\<close>

text \<open>
  A small functional server that satisfies the interfaces of \<open>Redis_Spec\<close>. No component is
  defined over it: it shows that the documented behaviour the theorems assume is consistent,
  and it is the server at which the witnesses apply them. Keys map to sorted sets held as
  dictionaries from members to scores, and to strings; \<open>ref_up\<close> is false during an outage,
  when every client command fails.
\<close>

record redis_ref =
  ref_up :: bool
  ref_zsets :: "string \<Rightarrow> (string, int) dict"
  ref_zttls :: "string \<Rightarrow> int option"
  ref_scripts :: "string \<Rightarrow> string option"
  ref_strings :: "string \<Rightarrow> (string \<times> real) option"

definition ref_empty :: redis_ref where
  "ref_empty = \<lparr>ref_up = True, ref_zsets = (\<lambda>_. []), ref_zttls = (\<lambda>_. None),
     ref_scripts = (\<lambda>_. None), ref_strings = (\<lambda>_. None)\<rparr>"

subsection \<open>Sorted sets\<close>

definition ref_zview :: "redis_ref \<Rightarrow> string \<Rightarrow> string \<Rightarrow> int option" where
  "ref_zview r k = dict_get (ref_zsets r k)"

definition ref_zttl :: "redis_ref \<Rightarrow> string \<Rightarrow> int option" where
  "ref_zttl r k = (if ref_zsets r k = [] then None else ref_zttls r k)"

definition ref_zset :: "redis_ref zset_ops" where
  "ref_zset = \<lparr>
     zremrangebyscore = (\<lambda>k lo hi r. r\<lparr>ref_zsets := (ref_zsets r)
        (k := AList.restrict {m. \<forall>s. ref_zview r k m = Some s \<longrightarrow> \<not> (lo \<le> s \<and> s \<le> hi)} (ref_zsets r k))\<rparr>),
     zcard = (\<lambda>k r. int (length (AList.clearjunk (ref_zsets r k)))),
     zadd = (\<lambda>k s m r. r\<lparr>ref_zsets := (ref_zsets r)(k := dict_set m s (ref_zsets r k)),
                        ref_zttls := (ref_zttls r)(k := ref_zttl r k)\<rparr>),
     pexpire = (\<lambda>k ms r. if 0 < ms then r\<lparr>ref_zttls := (ref_zttls r)(k := Some ms)\<rparr>
                        else r\<lparr>ref_zsets := (ref_zsets r)(k := [])\<rparr>)\<rparr>"

definition ref_elapse :: "int \<Rightarrow> redis_ref \<Rightarrow> redis_ref" where
  "ref_elapse d r = r\<lparr>
     ref_zsets := (\<lambda>k. case ref_zttl r k of None \<Rightarrow> ref_zsets r k
                        | Some ms \<Rightarrow> if ms \<le> d then [] else ref_zsets r k),
     ref_zttls := (\<lambda>k. map_option (\<lambda>ms. ms - d) (ref_zttl r k))\<rparr>"

lemmas ref_zset_simps = ref_zview_def ref_zttl_def ref_zset_def ref_elapse_def

lemma ref_restrict_view:
  "map_of (AList.restrict {m. \<forall>s. map_of d m = Some s \<longrightarrow> \<not> (lo \<le> s \<and> s \<le> hi)} d) =
     (\<lambda>m. case map_of d m of None \<Rightarrow> None | Some s \<Rightarrow> if lo \<le> s \<and> s \<le> hi then None else Some (s::int))"
  by (auto simp: restr_conv' restrict_map_def split: option.splits)

lemma length_clearjunk: "length (AList.clearjunk d) = card (dom (map_of d))"
proof -
  have "distinct (map fst (AList.clearjunk d))" by (rule distinct_clearjunk)
  then have "card (set (map fst (AList.clearjunk d))) = length (AList.clearjunk d)"
    by (metis distinct_card length_map)
  moreover have "set (map fst (AList.clearjunk d)) = dom (map_of d)"
    by (metis dom_clearjunk dom_map_of_conv_image_fst list.set_map)
  ultimately show ?thesis by simp
qed

interpretation ref: redis_zset ref_zset ref_zview ref_zttl ref_elapse
proof
  fix r k
  show "finite (dom (ref_zview r k))" by (simp add: ref_zview_def finite_dom_map_of)
  show "zcard ref_zset k r = int (card (dom (ref_zview r k)))"
    by (simp add: ref_zset_simps length_clearjunk)
next
  fix k lo hi r
  show "ref_zview (zremrangebyscore ref_zset k lo hi r) = (ref_zview r)(k := (\<lambda>m. case ref_zview r k m of
          None \<Rightarrow> None | Some s \<Rightarrow> if lo \<le> s \<and> s \<le> hi then None else Some s))"
    by (rule ext) (simp add: ref_zset_simps ref_restrict_view [simplified])
  show "ref_zttl (zremrangebyscore ref_zset k lo hi r) k \<in> {None, ref_zttl r k}"
    by (auto simp: ref_zset_simps AList.restrict_eq)
next
  fix k' k lo hi r
  assume "k' \<noteq> (k::string)"
  then show "ref_zttl (zremrangebyscore ref_zset k lo hi r) k' = ref_zttl r k'"
    by (simp add: ref_zset_simps)
next
  fix k s m r
  show "ref_zview (zadd ref_zset k s m r) = (ref_zview r)(k := (ref_zview r k)(m \<mapsto> s))"
    by (rule ext) (simp add: ref_zset_simps update_conv')
  show "ref_zttl (zadd ref_zset k s m r) = ref_zttl r"
    by (rule ext) (auto simp: ref_zset_simps)
next
  fix ms k r
  assume "0 < (ms::int)"
  then show "ref_zview (pexpire ref_zset k ms r) = ref_zview r"
    and "ref_zttl (pexpire ref_zset k ms r) k \<in> {None, Some ms}"
    by (auto simp: ref_zset_simps)
next
  fix ms k' k r
  assume "0 < (ms::int)" "k' \<noteq> (k::string)"
  then show "ref_zttl (pexpire ref_zset k ms r) k' = ref_zttl r k'"
    by (simp add: ref_zset_simps)
next
  fix d r k
  show "ref_zview (ref_elapse d r) k = (case ref_zttl r k of None \<Rightarrow> ref_zview r k
          | Some ms \<Rightarrow> if ms \<le> d then Map.empty else ref_zview r k)"
    by (auto simp: ref_zset_simps split: option.splits)
  show "ref_zttl (ref_elapse d r) k = (case ref_zttl r k of None \<Rightarrow> None
          | Some ms \<Rightarrow> if ms \<le> d then None else Some (ms - d))"
    by (auto simp: ref_zset_simps split: option.splits)
qed

lemma ref_empty_simps [simp]:
  "ref_up ref_empty" "ref_zview ref_empty k = Map.empty" "ref_scripts ref_empty d = None"
  "ref_strings ref_empty k = None"
  by (simp_all add: ref_empty_def ref_zview_def)

subsection \<open>Strings\<close>

definition ref_kv :: "redis_ref kv_ops" where
  "ref_kv = \<lparr>
     kv_get = (\<lambda>k r. if ref_up r then Inr (map_option fst (ref_strings r k)) else Inl RedisConnectionError),
     kv_set_ex = (\<lambda>k v ttl r. if \<not> ref_up r then (Inl RedisConnectionError, r)
        else if ttl \<le> 0 then (Inl (ResponseError ''invalid expire time''), r)
        else (Inr (), r\<lparr>ref_strings := (ref_strings r)(k \<mapsto> (v, real_of_int ttl))\<rparr>))\<rparr>"

definition ref_kv_elapse :: "real \<Rightarrow> redis_ref \<Rightarrow> redis_ref" where
  "ref_kv_elapse d r = r\<lparr>ref_strings := (\<lambda>k. case ref_strings r k of None \<Rightarrow> None
     | Some (v, ttl) \<Rightarrow> if ttl \<le> d then None else Some (v, ttl - d))\<rparr>"

interpretation ref: redis_kv ref_kv ref_up ref_strings ref_kv_elapse
  by unfold_locales (auto simp: ref_kv_def ref_kv_elapse_def)

end
