(* ===== verification/Sliding_Log.thy ===== *)
theory Sliding_Log
  imports Prelude
begin

section \<open>The contract of a sliding-window limiter\<close>

text \<open>
  The abstract specification both limiters of the gateway promise: the distributed one
  (\<open>gateway/app/lua/sliding_window.lua\<close>, driven by \<open>rate_limiter.py\<close>) and the in-memory
  fallback (\<open>fallback_limiter.py\<close>). The specification keeps the whole log of admitted
  request times and admits a request when fewer than \<open>cap\<close> of them lie in the half-open
  window \<open>(now - w, now]\<close>. The locale \<open>window_limiter\<close> states what an implementation owes:
  a simulation of the specification step. Its consequences (decisions equal to the
  specification's, and no window of length \<open>w\<close> ever holding more than \<open>cap\<close> admitted
  requests) are proved once here.
\<close>

subsection \<open>The specification\<close>

definition recent :: "'t::linordered_idom \<Rightarrow> 't \<Rightarrow> 't list \<Rightarrow> 't list" where
  "recent w now hist = filter (\<lambda>t. now - w < t) hist"

definition spec_check :: "int \<Rightarrow> 't::linordered_idom \<Rightarrow> 't \<Rightarrow> 't list \<Rightarrow> bool \<times> 't list" where
  "spec_check cap w now hist =
     (if int (length (recent w now hist)) < cap then (True, hist @ [now]) else (False, hist))"

text \<open>
  Running a limiter over a sequence of timed requests: the decisions and the last state. The
  requests of all tenants and routes go through the same server or process, so a run mixes
  requests for the key under study (\<open>own q\<close>) with requests for other keys.
\<close>

fun run_checks :: "('t \<Rightarrow> 'q \<Rightarrow> 's \<Rightarrow> bool \<times> 's) \<Rightarrow> ('t \<times> 'q) list \<Rightarrow> 's \<Rightarrow> bool list \<times> 's" where
  "run_checks check [] s = ([], s)"
| "run_checks check ((t, q) # reqs) s =
     (let (ok, s1) = check t q s; (oks, s2) = run_checks check reqs s1 in (ok # oks, s2))"

fun spec_run :: "int \<Rightarrow> 't::linordered_idom \<Rightarrow> 't list \<Rightarrow> 't list \<Rightarrow> bool list \<times> 't list" where
  "spec_run cap w [] hist = ([], hist)"
| "spec_run cap w (t # ts) hist =
     (let (ok, hist1) = spec_check cap w t hist; (oks, hist2) = spec_run cap w ts hist1 in (ok # oks, hist2))"

text \<open>The times of the requests for the key under study, the decisions on them, and the times admitted.\<close>

definition own_times :: "('q \<Rightarrow> bool) \<Rightarrow> ('t \<times> 'q) list \<Rightarrow> 't list" where
  "own_times own reqs = map fst (filter (\<lambda>(t, q). own q) reqs)"

definition own_decisions :: "('q \<Rightarrow> bool) \<Rightarrow> ('t \<times> 'q) list \<Rightarrow> bool list \<Rightarrow> bool list" where
  "own_decisions own reqs oks = map snd (filter (\<lambda>((t, q), ok). own q) (zip reqs oks))"

definition admitted :: "('q \<Rightarrow> bool) \<Rightarrow> ('t \<times> 'q) list \<Rightarrow> bool list \<Rightarrow> 't list" where
  "admitted own reqs oks = map (\<lambda>((t, q), ok). t) (filter (\<lambda>((t, q), ok). own q \<and> ok) (zip reqs oks))"

text \<open>How many entries of a log lie in the half-open interval \<open>(a, a + w]\<close>.\<close>

definition in_window :: "'t::linordered_idom \<Rightarrow> 't \<Rightarrow> 't list \<Rightarrow> nat" where
  "in_window w a hist = length (filter (\<lambda>t. a < t \<and> t \<le> a + w) hist)"

lemma run_lists_Nil [simp]:
  "own_times own [] = []" "own_decisions own [] oks = []" "admitted own [] oks = []"
  by (simp_all add: own_times_def own_decisions_def admitted_def)

lemma run_lists_Cons [simp]:
  "own_times own ((t, q) # reqs) = (if own q then t # own_times own reqs else own_times own reqs)"
  "own_decisions own ((t, q) # reqs) (ok # oks) =
     (if own q then ok # own_decisions own reqs oks else own_decisions own reqs oks)"
  "admitted own ((t, q) # reqs) (ok # oks) =
     (if own q \<and> ok then t # admitted own reqs oks else admitted own reqs oks)"
  by (simp_all add: own_times_def own_decisions_def admitted_def)

lemma in_window_append [window_simps]:
  "in_window w a (xs @ ys) = in_window w a xs + in_window w a ys"
  by (simp add: in_window_def)

lemma in_window_Nil [simp]: "in_window w a [] = 0"
  by (simp add: in_window_def)

lemma length_run_checks [simp]: "length (fst (run_checks check reqs s)) = length reqs"
proof (induction reqs arbitrary: s)
  case (Cons r reqs)
  then show ?case by (cases r) (simp add: Let_def split_beta)
qed simp

subsection \<open>No window of the specification overflows\<close>

definition within_cap :: "int \<Rightarrow> 't::linordered_idom \<Rightarrow> 't list \<Rightarrow> bool" where
  "within_cap cap w hist \<longleftrightarrow> (\<forall>a. int (in_window w a hist) \<le> max 0 cap)"

lemma within_cap_Nil [simp]: "within_cap cap w []"
  by (simp add: within_cap_def)

lemma in_window_le_recent:
  assumes "a < now" "now \<le> a + w"
  shows "in_window w a hist \<le> length (recent w now hist)"
  unfolding in_window_def recent_def
  using assms by (intro length_filter_mono) auto

lemma spec_check_within_cap:
  assumes "within_cap cap w hist"
  shows "within_cap cap w (snd (spec_check cap w now hist))"
proof (cases "int (length (recent w now hist)) < cap")
  case True
  have "int (in_window w a (hist @ [now])) \<le> max 0 cap" for a
  proof (cases "a < now \<and> now \<le> a + w")
    case in_w: True
    then have "in_window w a hist \<le> length (recent w now hist)"
      by (simp add: in_window_le_recent)
    with True in_w show ?thesis by (simp add: window_simps in_window_def)
  next
    case False
    then have "in_window w a [now] = 0" by (auto simp: in_window_def)
    with assms show ?thesis by (simp add: window_simps within_cap_def)
  qed
  with True show ?thesis by (simp add: spec_check_def within_cap_def)
qed (simp add: spec_check_def assms)

text \<open>The log of a run of the specification is the admitted times, in order.\<close>

lemma spec_run_log:
  "snd (spec_run cap w ts hist) = hist @ map fst (filter snd (zip ts (fst (spec_run cap w ts hist))))"
  by (induction ts arbitrary: hist) (auto simp: spec_check_def Let_def split_beta)

lemma spec_run_within_cap:
  "within_cap cap w hist \<Longrightarrow> within_cap cap w (snd (spec_run cap w ts hist))"
  by (induction ts arbitrary: hist) (simp_all add: Let_def split_beta spec_check_within_cap)

lemma admitted_own:
  "length oks = length reqs \<Longrightarrow>
   admitted own reqs oks = map fst (filter snd (zip (own_times own reqs) (own_decisions own reqs oks)))"
proof (induction reqs arbitrary: oks)
  case (Cons r reqs)
  then obtain ok oks' where "oks = ok # oks'" "length oks' = length reqs"
    by (cases oks) auto
  with Cons.IH show ?case by (cases r) simp
qed simp

text \<open>
  A schedule of requests: in clock order, every request satisfying \<open>ok\<close> (for instance, it
  uses the policy in force for its key), and every request for the key under study carrying
  only identifiers no earlier one used (the distributed limiter draws a fresh UUID for every
  request; the fallback draws none).
\<close>

fun schedule :: "('q \<Rightarrow> bool) \<Rightarrow> ('q \<Rightarrow> 'i set) \<Rightarrow> ('q \<Rightarrow> bool) \<Rightarrow> 't::linordered_idom \<Rightarrow> 'i set \<Rightarrow>
    ('t \<times> 'q) list \<Rightarrow> bool" where
  "schedule own rid ok t used [] = True"
| "schedule own rid ok t used ((t', q) # reqs) =
     (t \<le> t' \<and> ok q \<and> (own q \<longrightarrow> rid q \<inter> used = {}) \<and>
      schedule own rid ok t' (if own q then rid q \<union> used else used) reqs)"

lemma schedule_weaken:
  "schedule own rid ok t used reqs \<Longrightarrow> (\<And>q. ok q \<Longrightarrow> ok' q) \<Longrightarrow> schedule own rid ok' t used reqs"
  by (induction own rid ok t used reqs rule: schedule.induct) auto

text \<open>A run with a single request for the key under study.\<close>

lemma run_lists_others:
  "\<forall>(t, q) \<in> set reqs. \<not> own q \<Longrightarrow> own_times own reqs = []"
  "\<forall>(t, q) \<in> set reqs. \<not> own q \<Longrightarrow> own_decisions own reqs oks = []"
  by (auto simp: own_times_def own_decisions_def filter_empty_conv dest: set_zip_leftD)

lemma run_lists_once:
  assumes "\<forall>(t, q) \<in> set pre \<union> set post. \<not> own q" "own q" "length oks\<^sub>1 = length pre"
  shows "own_times own (pre @ (t, q) # post) = [t]"
    and "own_decisions own (pre @ (t, q) # post) (oks\<^sub>1 @ ok # oks\<^sub>2) = [ok]"
proof -
  have "own_times own pre = []" "own_times own post = []"
    using assms(1) by (auto intro!: run_lists_others(1))
  with assms(2) show "own_times own (pre @ (t, q) # post) = [t]" by (simp add: own_times_def)
  have "own_decisions own pre oks\<^sub>1 = []" "own_decisions own post oks\<^sub>2 = []"
    using assms(1) by (auto intro!: run_lists_others(2))
  with assms(2,3) show "own_decisions own (pre @ (t, q) # post) (oks\<^sub>1 @ ok # oks\<^sub>2) = [ok]"
    by (simp add: own_decisions_def)
qed

lemma schedule_others:
  assumes "sorted (t # map fst reqs)" "\<forall>(t, q) \<in> set reqs. ok q \<and> \<not> own q"
  shows "schedule own rid ok t used reqs"
  using assms by (induction own rid ok t used reqs rule: schedule.induct) auto

lemma schedule_once:
  assumes "sorted (t # map fst (pre @ (t', q) # post))" "\<forall>(t, q) \<in> set (pre @ (t', q) # post). ok q"
    and "\<forall>(t, q) \<in> set pre \<union> set post. \<not> own q"
  shows "schedule own rid ok t {} (pre @ (t', q) # post)"
  using assms
proof (induction pre arbitrary: t)
  case Nil
  then have "schedule own rid ok t' used post" for used by (intro schedule_others) auto
  with Nil show ?case by simp
next
  case (Cons req pre)
  then have "schedule own rid ok (fst req) {} (pre @ (t', q) # post)" by (intro Cons.IH) auto
  with Cons.prems show ?case by (cases req) auto
qed

subsection \<open>What an implementation owes, and what follows\<close>

text \<open>
  \<open>fits t s hist used\<close> relates the implementation's state at clock \<open>t\<close> to the specification's
  log of the key under study. A request for that key takes the specification's decision and
  keeps the relation; a request for any other key keeps the relation with the same log.
\<close>

locale window_limiter =
  fixes check :: "'t::linordered_idom \<Rightarrow> 'q \<Rightarrow> 's \<Rightarrow> bool \<times> 's"
    and own :: "'q \<Rightarrow> bool"
    and rid :: "'q \<Rightarrow> 'i set"
    and ok :: "'q \<Rightarrow> bool"
    and cap :: int
    and w :: 't
    and fits :: "'t \<Rightarrow> 's \<Rightarrow> 't list \<Rightarrow> 'i set \<Rightarrow> bool"
  assumes own_decides:
      "fits t s hist used \<Longrightarrow> t \<le> now \<Longrightarrow> ok q \<Longrightarrow> own q \<Longrightarrow> rid q \<inter> used = {} \<Longrightarrow>
       fst (check now q s) = fst (spec_check cap w now hist)"
    and own_fits:
      "fits t s hist used \<Longrightarrow> t \<le> now \<Longrightarrow> ok q \<Longrightarrow> own q \<Longrightarrow> rid q \<inter> used = {} \<Longrightarrow>
       fits now (snd (check now q s)) (snd (spec_check cap w now hist)) (rid q \<union> used)"
    and other_fits:
      "fits t s hist used \<Longrightarrow> t \<le> now \<Longrightarrow> ok q \<Longrightarrow> \<not> own q \<Longrightarrow>
       fits now (snd (check now q s)) hist used"
begin

lemma run_refines:
  assumes "fits t s hist used" "schedule own rid ok t used reqs"
  shows "own_decisions own reqs (fst (run_checks check reqs s)) =
         fst (spec_run cap w (own_times own reqs) hist)"
  using assms
proof (induction reqs arbitrary: t s hist used)
  case (Cons req reqs)
  obtain t' q where req: "req = (t', q)" by (cases req)
  show ?case
  proof (cases "own q")
    case True
    with Cons.prems req have *: "fits t s hist used" "t \<le> t'" "ok q" "own q" "rid q \<inter> used = {}"
      and rest: "schedule own rid ok t' (rid q \<union> used) reqs"
      by simp_all
    from Cons.IH [OF own_fits [OF *] rest] own_decides [OF *] True
    show ?thesis by (simp add: req Let_def split_beta)
  next
    case False
    with Cons.prems req have *: "fits t s hist used" "t \<le> t'" "ok q" "\<not> own q"
      and rest: "schedule own rid ok t' used reqs"
      by simp_all
    from Cons.IH [OF other_fits [OF *] rest] False
    show ?thesis by (simp add: req Let_def split_beta)
  qed
qed simp

lemma run_bound:
  assumes "fits t s [] used" "schedule own rid ok t used reqs"
  shows "int (in_window w a (admitted own reqs (fst (run_checks check reqs s)))) \<le> max 0 cap"
proof -
  let ?ts = "own_times own reqs"
  have "admitted own reqs (fst (run_checks check reqs s)) =
        map fst (filter snd (zip ?ts (fst (spec_run cap w ?ts []))))"
    by (simp add: admitted_own run_refines [OF assms])
  also have "\<dots> = snd (spec_run cap w ?ts [])"
    by (simp add: spec_run_log)
  finally show ?thesis
    using spec_run_within_cap [of cap w "[]" ?ts] by (simp add: within_cap_def)
qed

end

end
