(* ===== verification/Rate_Limiter.thy ===== *)
theory Rate_Limiter
  imports Redis_Ref Sliding_Log
begin

section \<open>The distributed sliding-window limiter\<close>

text \<open>
  \<open>gateway/app/lua/sliding_window.lua\<close> (the script that runs inside Redis) and
  \<open>gateway/app/rate_limiter.py\<close> (the client that loads and calls it). The script is shown to
  implement the sliding-window specification of \<open>Sliding_Log\<close> on every server that satisfies
  \<open>redis_zset\<close>, including the expiry of the key between requests; the client is shown to
  return the script's answer whatever the state of the server's script cache.
\<close>

subsection \<open>The script\<close>

definition sliding_window ::
    "'r zset_ops \<Rightarrow> string \<Rightarrow> int \<Rightarrow> int \<Rightarrow> int \<Rightarrow> string \<Rightarrow> 'r \<Rightarrow> (int \<times> int) \<times> 'r" where
  "sliding_window Z key now_ms window_ms limit request_id r =
     (let r1 = zremrangebyscore Z key 0 (now_ms - window_ms) r;
          current_count = zcard Z key r1
      in if current_count < limit
         then let r2 = zadd Z key now_ms request_id r1;
                  r3 = pexpire Z key window_ms r2
              in ((1, limit - current_count - 1), r3)
         else ((0, 0), r1))"

subsection \<open>The client\<close>

text \<open>
  The module state of \<open>rate_limiter.py\<close>: the digest of the loaded script, and how many
  samples \<open>REDIS_LUA_LATENCY_MS\<close> has observed (the sample values are not modelled).
\<close>

record limiter_state =
  script_sha :: "string option"
  lua_observations :: nat

definition rate_key :: "string \<Rightarrow> string \<Rightarrow> string" where
  "rate_key tenant_id route = ''rate:{'' @ tenant_id @ ''}:'' @ route"

definition load_script ::
    "'r script_ops \<Rightarrow> string \<Rightarrow> limiter_state \<Rightarrow> 'r \<Rightarrow> unit res \<times> limiter_state \<times> 'r" where
  "load_script S script_body st r =
     (case script_load S script_body r of
        (Inl e, r') \<Rightarrow> (Inl e, st, r')
      | (Inr sha, r') \<Rightarrow> (Inr (), st\<lparr>script_sha := Some sha\<rparr>, r'))"

definition observe_lua :: "limiter_state \<Rightarrow> limiter_state" where
  "observe_lua st = st\<lparr>lua_observations := Suc (lua_observations st)\<rparr>"

text \<open>
  \<open>check_rate_limit\<close> with the clock reading \<open>now\<close> and the fresh \<open>request_id\<close> as arguments.
  The first \<open>load_script\<close> is before the \<open>try\<close>: when it raises, nothing is observed. The
  \<open>finally\<close> clause observes once on every path through the \<open>try\<close>.
\<close>

definition check_rate_limit ::
    "'r script_ops \<Rightarrow> string \<Rightarrow> string \<Rightarrow> string \<Rightarrow> int \<Rightarrow> int \<Rightarrow> real \<Rightarrow> string \<Rightarrow>
     limiter_state \<Rightarrow> 'r \<Rightarrow> (bool \<times> int) res \<times> limiter_state \<times> 'r" where
  "check_rate_limit S script_body tenant_id route limit window_s now request_id st r =
     (let key = rate_key tenant_id route;
          now_ms = py_int (now * 1000);
          call = (\<lambda>st r. evalsha S (the (script_sha st)) key now_ms (window_s * 1000) limit request_id r);
          answer = (\<lambda>res. res_bind res (\<lambda>(allowed, remaining). Inr (allowed \<noteq> 0, remaining)));
          (loaded, st1, r1) =
            (if script_sha st = None then load_script S script_body st r else (Inr (), st, r))
      in case loaded of
           Inl e \<Rightarrow> (Inl e, st1, r1)
         | Inr _ \<Rightarrow>
             (case call st1 r1 of
                (Inl NoScriptError, r2) \<Rightarrow>
                  (case load_script S script_body st1 r2 of
                     (Inl e, st2, r3) \<Rightarrow> (Inl e, observe_lua st2, r3)
                   | (Inr _, st2, r3) \<Rightarrow>
                       (case call st2 r3 of (res, r4) \<Rightarrow> (answer res, observe_lua st2, r4)))
              | (res, r2) \<Rightarrow> (answer res, observe_lua st1, r2)))"

subsection \<open>The script implements the specification\<close>

text \<open>
  One request against the server: the key, the limit and window in force for it and its
  identifier. The time since the previous request passes on the server, then the script runs.
  The state is the time of the previous request and the server.
\<close>

record limit_req =
  req_key :: string
  req_limit :: int
  req_window_ms :: int
  req_id :: string

definition redis_check ::
    "'r zset_ops \<Rightarrow> (int \<Rightarrow> 'r \<Rightarrow> 'r) \<Rightarrow> int \<Rightarrow> limit_req \<Rightarrow> int \<times> 'r \<Rightarrow> bool \<times> (int \<times> 'r)" where
  "redis_check Z elapse now_ms q =
     (\<lambda>(t, r). case sliding_window Z (req_key q) now_ms (req_window_ms q) (req_limit q) (req_id q)
                     (elapse (now_ms - t) r) of
        ((allowed, _), r') \<Rightarrow> (allowed = 1, (now_ms, r')))"

text \<open>Requests for the key under study use its policy; every window is positive.\<close>

definition policy_req :: "string \<Rightarrow> int \<Rightarrow> int \<Rightarrow> limit_req \<Rightarrow> bool" where
  "policy_req key limit window_ms q \<longleftrightarrow>
     0 < req_window_ms q \<and> (req_key q = key \<longrightarrow> req_limit q = limit \<and> req_window_ms q = window_ms)"

text \<open>How many members of a sorted set score above \<open>x\<close>.\<close>

definition zabove :: "(string \<Rightarrow> int option) \<Rightarrow> int \<Rightarrow> string set" where
  "zabove zs x = {m. \<exists>s. zs m = Some s \<and> x < s}"

text \<open>
  The simulation relation: at clock \<open>t\<close>, above every threshold from the start of the current
  window on, the sorted set and the log of admitted times count the same; scores lie between
  0 and the clock; members are used identifiers; and the key expires no earlier than the
  moment its newest entry leaves the window.
\<close>

definition zset_fits ::
    "(string \<Rightarrow> int option) \<Rightarrow> int option \<Rightarrow> int \<Rightarrow> int \<Rightarrow> int list \<Rightarrow> string set \<Rightarrow> bool" where
  "zset_fits zs ttl w t hist used \<longleftrightarrow>
     0 \<le> t \<and> finite (dom zs) \<and> dom zs \<subseteq> used \<and>
     (\<forall>m s. zs m = Some s \<longrightarrow> 0 \<le> s \<and> s \<le> t \<and> (\<forall>ms. ttl = Some ms \<longrightarrow> s + w \<le> t + ms)) \<and>
     (\<forall>h \<in> set hist. h \<le> t) \<and>
     (\<forall>x \<ge> t - w. card (zabove zs x) = length (filter (\<lambda>h. x < h) hist))"

definition redis_fits ::
    "('r \<Rightarrow> string \<Rightarrow> string \<Rightarrow> int option) \<Rightarrow> ('r \<Rightarrow> string \<Rightarrow> int option) \<Rightarrow> string \<Rightarrow> int \<Rightarrow>
     int \<Rightarrow> int \<times> 'r \<Rightarrow> int list \<Rightarrow> string set \<Rightarrow> bool" where
  "redis_fits zview zttl key w t s hist used \<longleftrightarrow>
     fst s = t \<and> zset_fits (zview (snd s) key) (zttl (snd s) key) w t hist used"

lemma zabove_subset_dom: "zabove zs x \<subseteq> dom zs"
  by (auto simp: zabove_def)

lemma zabove_upd_fresh:
  assumes "m \<notin> dom zs"
  shows "zabove (zs(m \<mapsto> s)) x = (if x < s then insert m (zabove zs x) else zabove zs x)"
  using assms by (auto simp: zabove_def)

text \<open>Letting time pass keeps the relation: what expires lies outside the window.\<close>

lemma zset_fits_elapse:
  assumes fits: "zset_fits zs ttl w t hist used" and "t \<le> now"
    and zs': "zs' = (case ttl of None \<Rightarrow> zs | Some ms \<Rightarrow> if ms \<le> now - t then Map.empty else zs)"
    and ttl': "ttl' = (case ttl of None \<Rightarrow> None | Some ms \<Rightarrow> if ms \<le> now - t then None else Some (ms - (now - t)))"
  shows "zset_fits zs' ttl' w now hist used"
proof (cases "\<exists>ms. ttl = Some ms \<and> ms \<le> now - t")
  case True
  then obtain ms where ms: "ttl = Some ms" "ms \<le> now - t" by blast
  with zs' ttl' have e: "zs' = Map.empty" "ttl' = None" by simp_all
  have "length (filter (\<lambda>h. x < h) hist) = 0" if x: "now - w \<le> x" for x
  proof -
    from fits ms x have "zabove zs x = {}" by (fastforce simp: zset_fits_def zabove_def)
    moreover from fits \<open>t \<le> now\<close> x have "card (zabove zs x) = length (filter (\<lambda>h. x < h) hist)"
      by (auto simp: zset_fits_def)
    ultimately show ?thesis by simp
  qed
  with fits \<open>t \<le> now\<close> e show ?thesis
    by (fastforce simp: zset_fits_def zabove_def)
next
  case False
  with zs' ttl' have "zs' = zs" "ttl' = map_option (\<lambda>ms. ms - (now - t)) ttl"
    by (auto split: option.splits)
  with fits \<open>t \<le> now\<close> show ?thesis
    by (fastforce simp: zset_fits_def)
qed

text \<open>Removing what scores at most \<open>now - w\<close> leaves exactly the members inside the window.\<close>

lemma zset_fits_trim:
  assumes fits: "zset_fits zs ttl w t hist used"
    and zs': "zs' = (\<lambda>m. case zs m of None \<Rightarrow> None | Some s \<Rightarrow> if 0 \<le> s \<and> s \<le> t - w then None else Some s)"
    and ttl': "ttl' \<in> {None, ttl}"
  shows "zset_fits zs' ttl' w t hist used" "int (card (dom zs')) = int (length (recent w t hist))"
proof -
  have sub: "zs' m = Some s \<Longrightarrow> zs m = Some s" for m s
    by (auto simp: zs' split: option.splits if_splits)
  have above: "zabove zs' x = zabove zs x" if "t - w \<le> x" for x
    using that by (auto simp: zabove_def zs' split: option.splits)
  have "dom zs' = zabove zs' (t - w)"
    using fits by (fastforce simp: zabove_def zs' zset_fits_def split: option.splits if_splits)
  with above fits show "int (card (dom zs')) = int (length (recent w t hist))"
    by (simp add: zset_fits_def recent_def)
  have "dom zs' \<subseteq> dom zs" using sub by (auto simp: dom_def)
  with fits have "finite (dom zs')" "dom zs' \<subseteq> used"
    by (auto simp: zset_fits_def intro: finite_subset)
  moreover have "0 \<le> s \<and> s \<le> t \<and> (\<forall>ms. ttl' = Some ms \<longrightarrow> s + w \<le> t + ms)" if "zs' m = Some s" for m s
    using fits ttl' sub [OF that] by (auto simp: zset_fits_def)
  ultimately show "zset_fits zs' ttl' w t hist used"
    using fits above by (simp add: zset_fits_def)
qed

text \<open>Adding a fresh member with the current time, and resetting the time to live.\<close>

lemma zset_fits_add:
  assumes fits: "zset_fits zs ttl w t hist used" and "m \<notin> used" and "0 < w"
    and ttl': "ttl' \<in> {None, Some w}"
  shows "zset_fits (zs(m \<mapsto> t)) ttl' w t (hist @ [t]) (insert m used)"
proof -
  from fits \<open>m \<notin> used\<close> have fresh: "m \<notin> dom zs" and fin: "finite (dom zs)"
    by (auto simp: zset_fits_def)
  have "card (zabove (zs(m \<mapsto> t)) x) = length (filter (\<lambda>h. x < h) (hist @ [t]))" if "t - w \<le> x" for x
  proof -
    have "m \<notin> zabove zs x" "finite (zabove zs x)"
      using fresh fin zabove_subset_dom [of zs x] by (auto intro: finite_subset)
    with fits that show ?thesis
      by (auto simp: zabove_upd_fresh [OF fresh] zset_fits_def)
  qed
  with fits ttl' show ?thesis
    by (auto simp: zset_fits_def)
qed

lemma zset_fits_more_used:
  "zset_fits zs ttl w t hist used \<Longrightarrow> zset_fits zs ttl w t hist (insert i used)"
  by (auto simp: zset_fits_def)

locale redis_limiter = redis_zset +
  fixes key :: string and limit :: int and window_ms :: int
  assumes window_pos: "0 < window_ms"
begin

lemma elapse_fits:
  assumes "redis_fits zview zttl key window_ms t s hist used" "t \<le> now"
  shows "zset_fits (zview (elapse (now - fst s) (snd s)) key) (zttl (elapse (now - fst s) (snd s)) key)
           window_ms now hist used"
proof -
  have "fst s = t" "zset_fits (zview (snd s) key) (zttl (snd s) key) window_ms t hist used"
    using assms(1) by (auto simp: redis_fits_def)
  then show ?thesis
    using zset_fits_elapse [OF _ assms(2) elapse_view elapse_ttl] by simp
qed

lemma script_simulates:
  assumes fits: "zset_fits (zview r key) (zttl r key) window_ms now hist used" and fresh: "i \<notin> used"
  defines "out \<equiv> sliding_window Z key now window_ms limit i r"
  shows "(fst (fst out) = 1) = fst (spec_check limit window_ms now hist)"
    and "zset_fits (zview (snd out) key) (zttl (snd out) key) window_ms now
           (snd (spec_check limit window_ms now hist)) (insert i used)"
proof -
  let ?r1 = "zremrangebyscore Z key 0 (now - window_ms) r"
  have trim: "zset_fits (zview ?r1 key) (zttl ?r1 key) window_ms now hist used"
    and count: "zcard Z key ?r1 = int (length (recent window_ms now hist))"
    using zset_fits_trim [OF fits refl zrem_ttl [of key 0 "now - window_ms" r]]
    by (simp_all add: zrem_view zcard_view)
  show "(fst (fst out) = 1) = fst (spec_check limit window_ms now hist)"
    by (simp add: out_def sliding_window_def spec_check_def count Let_def)
  show "zset_fits (zview (snd out) key) (zttl (snd out) key) window_ms now
           (snd (spec_check limit window_ms now hist)) (insert i used)"
  proof (cases "int (length (recent window_ms now hist)) < limit")
    case True
    let ?r2 = "zadd Z key now i ?r1"
    from zset_fits_add [OF trim fresh window_pos pexpire_ttl [OF window_pos, of key ?r2]] True
    show ?thesis
      by (simp add: out_def sliding_window_def spec_check_def count pexpire_view window_pos zadd_view)
  next
    case False
    with trim show ?thesis
      by (simp add: out_def sliding_window_def spec_check_def count zset_fits_more_used)
  qed
qed

end

context redis_zset
begin

lemma script_frame:
  assumes "0 < w" "k' \<noteq> k"
  shows "zview (snd (sliding_window Z k now w limit rid r)) k' = zview r k'"
    and "zttl (snd (sliding_window Z k now w limit rid r)) k' = zttl r k'"
  using assms
  by (simp_all add: sliding_window_def Let_def zrem_view zrem_ttl_other zadd_view zadd_ttl
        pexpire_view pexpire_ttl_other)

end

sublocale redis_limiter \<subseteq> window_limiter
  "redis_check Z elapse" "\<lambda>q. req_key q = key" "\<lambda>q. {req_id q}" "policy_req key limit window_ms"
  limit window_ms "redis_fits zview zttl key window_ms"
proof
  fix t s hist used now q
  assume fits: "redis_fits zview zttl key window_ms t s hist used" and "t \<le> now"
    and ok: "policy_req key limit window_ms q"
  note now = elapse_fits [OF fits \<open>t \<le> now\<close>]
  show "redis_fits zview zttl key window_ms now (snd (redis_check Z elapse now q s)) hist used"
    if "req_key q \<noteq> key"
    using now ok that by (simp add: redis_check_def redis_fits_def policy_req_def script_frame split_beta)
  assume own: "req_key q = key" and "{req_id q} \<inter> used = {}"
  then have fresh: "req_id q \<notin> used" by simp
  from own ok have q: "req_limit q = limit" "req_window_ms q = window_ms" by (simp_all add: policy_req_def)
  note sim = script_simulates [OF now fresh]
  show "fst (redis_check Z elapse now q s) = fst (spec_check limit window_ms now hist)"
    using sim(1) own q by (simp add: redis_check_def split_beta)
  show "redis_fits zview zttl key window_ms now (snd (redis_check Z elapse now q s))
          (snd (spec_check limit window_ms now hist)) ({req_id q} \<union> used)"
    using sim(2) own q by (simp add: redis_check_def redis_fits_def split_beta)
qed

lemma empty_zset_fits: "0 \<le> t \<Longrightarrow> zset_fits Map.empty ttl w t [] used"
  by (simp add: zset_fits_def zabove_def)

context redis_limiter
begin

lemma script_run_bound:
  assumes "0 \<le> t" "zview r key = Map.empty"
    and "schedule (\<lambda>q. req_key q = key) (\<lambda>q. {req_id q}) (policy_req key limit window_ms) t {} reqs"
  shows "int (in_window window_ms a (admitted (\<lambda>q. req_key q = key) reqs (fst
           (run_checks (redis_check Z elapse) reqs (t, r))))) \<le> max 0 limit"
  using assms by (intro run_bound) (auto simp: redis_fits_def empty_zset_fits)

lemma script_run_refines:
  assumes "0 \<le> t" "zview r key = Map.empty"
    and "schedule (\<lambda>q. req_key q = key) (\<lambda>q. {req_id q}) (policy_req key limit window_ms) t {} reqs"
  shows "own_decisions (\<lambda>q. req_key q = key) reqs (fst (run_checks (redis_check Z elapse) reqs (t, r))) =
         fst (spec_run limit window_ms (own_times (\<lambda>q. req_key q = key) reqs) [])"
  using assms by (intro run_refines) (auto simp: redis_fits_def empty_zset_fits)

end

text \<open>The interpretation on the reference server, at one tenant's key and a small limit.\<close>

definition witness_key :: string where
  "witness_key = rate_key ''acme'' ''/proxy/get''"

interpretation ref_limiter: redis_limiter ref_zset ref_zview ref_zttl ref_elapse witness_key 2 60000
  by unfold_locales simp

lemma redis_limiterI: "redis_zset Z zview zttl elapse \<Longrightarrow> 0 < w \<Longrightarrow> redis_limiter Z zview zttl elapse w"
  by (simp add: redis_limiter_def redis_limiter_axioms_def)

text \<open>
  The distributed limiter never admits more than the limit. On every server with the
  documented sorted-set behaviour, for requests of any tenants in clock order against a key
  with no log yet, whose own requests carry fresh identifiers and use one policy, no half-open
  interval of one window's length contains more than \<open>limit\<close> admitted requests of that key; in
  particular there is no double burst at a window boundary. Keys may expire between requests.
\<close>

theorem redis_window_bound:
  assumes "redis_zset Z zview zttl elapse" and "0 < window_s"
    and "0 \<le> t\<^sub>0" "zview r key = Map.empty"
    and "schedule (\<lambda>q. req_key q = key) (\<lambda>q. {req_id q}) (policy_req key limit (window_s * 1000)) t\<^sub>0 {} reqs"
  shows "int (in_window (window_s * 1000) a (admitted (\<lambda>q. req_key q = key) reqs (fst
           (run_checks (redis_check Z elapse) reqs (t\<^sub>0, r))))) \<le> max 0 limit"
  using assms(2-) by (intro redis_limiter.script_run_bound [OF redis_limiterI [OF assms(1)]]) simp_all

definition burst :: "(int \<times> limit_req) list" where
  "burst = [(1000, \<lparr>req_key = witness_key, req_limit = 2, req_window_ms = 60000, req_id = ''a''\<rparr>),
            (2000, \<lparr>req_key = ''rate:{globex}:/'', req_limit = 9, req_window_ms = 1000, req_id = ''a''\<rparr>),
            (59000, \<lparr>req_key = witness_key, req_limit = 2, req_window_ms = 60000, req_id = ''b''\<rparr>),
            (60500, \<lparr>req_key = witness_key, req_limit = 2, req_window_ms = 60000, req_id = ''c''\<rparr>),
            (61000, \<lparr>req_key = witness_key, req_limit = 2, req_window_ms = 60000, req_id = ''d''\<rparr>),
            (118999, \<lparr>req_key = witness_key, req_limit = 2, req_window_ms = 60000, req_id = ''e''\<rparr>)]"

lemma burst_schedule:
  "schedule (\<lambda>q. req_key q = witness_key) (\<lambda>q. {req_id q}) (policy_req witness_key 2 (60 * 1000)) 0 {} burst"
  by (simp add: burst_def policy_req_def witness_key_def rate_key_def)

theorem redis_window_bound_witness:
  "int (in_window (60 * 1000) 1000 (admitted (\<lambda>q. req_key q = witness_key) burst (fst
     (run_checks (redis_check ref_zset ref_elapse) burst (0, ref_empty))))) \<le> max 0 2"
  by (rule redis_window_bound [OF ref.redis_zset_axioms]) (simp_all add: burst_schedule [simplified])

text \<open>
  C2: The distributed limiter makes exactly the decisions of the sliding-window
  specification: it admits a request if and only if fewer than \<open>limit\<close> admitted requests of
  its key lie in the window that ends at it. It never rejects a request the specification
  admits; other keys' requests, the expiry of keys and the trimming of the log are
  unobservable.
\<close>

theorem redis_decides_like_spec:
  assumes "redis_zset Z zview zttl elapse" and "0 < window_s"
    and "0 \<le> t\<^sub>0" "zview r key = Map.empty"
    and "schedule (\<lambda>q. req_key q = key) (\<lambda>q. {req_id q}) (policy_req key limit (window_s * 1000)) t\<^sub>0 {} reqs"
  shows "own_decisions (\<lambda>q. req_key q = key) reqs (fst (run_checks (redis_check Z elapse) reqs (t\<^sub>0, r))) =
         fst (spec_run limit (window_s * 1000) (own_times (\<lambda>q. req_key q = key) reqs) [])"
  using assms(2-) by (intro redis_limiter.script_run_refines [OF redis_limiterI [OF assms(1)]]) simp_all

theorem redis_decides_like_spec_witness:
  "own_decisions (\<lambda>q. req_key q = witness_key) burst
     (fst (run_checks (redis_check ref_zset ref_elapse) burst (0, ref_empty))) =
     [True, True, False, True, False]"
proof -
  have "own_decisions (\<lambda>q. req_key q = witness_key) burst
     (fst (run_checks (redis_check ref_zset ref_elapse) burst (0, ref_empty))) =
        fst (spec_run 2 (60 * 1000) (own_times (\<lambda>q. req_key q = witness_key) burst) [])"
    by (rule redis_decides_like_spec [OF ref.redis_zset_axioms]) (simp_all add: burst_schedule [simplified])
  then show ?thesis
    by (simp add: burst_def spec_check_def recent_def witness_key_def rate_key_def)
qed

subsection \<open>The client returns the script's answer\<close>

text \<open>The script's answer as \<open>check_rate_limit\<close> hands it on.\<close>

definition script_answer ::
    "'r zset_ops \<Rightarrow> string \<Rightarrow> int \<Rightarrow> int \<Rightarrow> int \<Rightarrow> string \<Rightarrow> limiter_state \<Rightarrow> 'r \<Rightarrow>
     (bool \<times> int) res \<times> limiter_state \<times> 'r" where
  "script_answer Z key now_ms window_ms limit rid st r =
     (case sliding_window Z key now_ms window_ms limit rid r of
        ((allowed, remaining), r') \<Rightarrow> (Inr (allowed \<noteq> 0, remaining), st, r'))"

text \<open>
  What the client relies on: the scripting commands, and that the text of
  \<open>sliding_window.lua\<close> means \<open>sliding_window\<close>.
\<close>

locale limiter_client = redis_scripts +
  fixes body :: string
  assumes body_sem: "script_sem body = sliding_window Z"
begin

lemma load_script_up:
  assumes "up r"
  obtains r' where "load_script S body st r = (Inr (), st\<lparr>script_sha := Some (digest body)\<rparr>, r')"
    "up r'" "zview r' = zview r" "zttl r' = zttl r" "cached_script r' (digest body) = Some body"
    "r' = snd (script_load S body r)"
  using load_up [OF assms, of body] by (auto simp: load_script_def)

lemma check_cached:
  assumes "up r" "script_sha st = Some (digest body)" "cached_script r (digest body) = Some body"
  shows "check_rate_limit S body tid route limit w now rid st r =
    script_answer Z (rate_key tid route) (py_int (now * 1000)) (w * 1000) limit rid (observe_lua st) r"
  using assms by (simp add: check_rate_limit_def evalsha_hit body_sem script_answer_def split_beta Let_def)

lemma check_not_cached:
  assumes "up r" "script_sha st = Some (digest body)" "cached_script r (digest body) = None"
  shows "\<exists>r' \<in> {r, snd (script_load S body r)}. zview r' = zview r \<and> zttl r' = zttl r \<and> check_rate_limit S body tid route limit w now rid st r =
    script_answer Z (rate_key tid route) (py_int (now * 1000)) (w * 1000) limit rid (observe_lua st) r'"
proof -
  obtain r' where l: "load_script S body st r = (Inr (), st\<lparr>script_sha := Some (digest body)\<rparr>, r')"
    "up r'" "zview r' = zview r" "zttl r' = zttl r" "cached_script r' (digest body) = Some body"
    "r' = snd (script_load S body r)"
    using load_script_up [OF \<open>up r\<close>] .
  moreover have "st\<lparr>script_sha := Some (digest body)\<rparr> = st" using assms(2) by simp
  ultimately have "check_rate_limit S body tid route limit w now rid st r =
    script_answer Z (rate_key tid route) (py_int (now * 1000)) (w * 1000) limit rid (observe_lua st) r'"
    using assms by (simp add: check_rate_limit_def evalsha_miss evalsha_hit body_sem script_answer_def split_beta Let_def)
  with l(3,4,6) show ?thesis by blast
qed

lemma check_unloaded:
  assumes "up r" "script_sha st = None"
  shows "\<exists>r' \<in> {r, snd (script_load S body r)}. zview r' = zview r \<and> zttl r' = zttl r \<and> check_rate_limit S body tid route limit w now rid st r =
    script_answer Z (rate_key tid route) (py_int (now * 1000)) (w * 1000) limit rid (observe_lua (st\<lparr>script_sha := Some (digest body)\<rparr>)) r'"
proof -
  obtain r' where l: "load_script S body st r = (Inr (), st\<lparr>script_sha := Some (digest body)\<rparr>, r')"
    "up r'" "zview r' = zview r" "zttl r' = zttl r" "cached_script r' (digest body) = Some body"
    "r' = snd (script_load S body r)"
    using load_script_up [OF \<open>up r\<close>] .
  then have "check_rate_limit S body tid route limit w now rid st r =
    script_answer Z (rate_key tid route) (py_int (now * 1000)) (w * 1000) limit rid (observe_lua (st\<lparr>script_sha := Some (digest body)\<rparr>)) r'"
    using assms by (simp add: check_rate_limit_def evalsha_hit body_sem script_answer_def split_beta Let_def)
  with l(3,4,6) show ?thesis by blast
qed

lemma check_answers_at:
  assumes "up r" "script_sha st \<in> {None, Some (digest body)}"
    "cached_script r (digest body) \<in> {None, Some body}"
  shows "\<exists>r' \<in> {r, snd (script_load S body r)}. zview r' = zview r \<and> zttl r' = zttl r \<and> check_rate_limit S body tid route limit w now rid st r =
    script_answer Z (rate_key tid route) (py_int (now * 1000)) (w * 1000) limit rid (observe_lua (st\<lparr>script_sha := Some (digest body)\<rparr>)) r'"
proof (cases "script_sha st")
  case (Some sha)
  then have st: "script_sha st = Some (digest body)" "st\<lparr>script_sha := Some (digest body)\<rparr> = st"
    using assms(2) by auto
  show ?thesis
  proof (cases "cached_script r (digest body)")
    case None
    show ?thesis using check_not_cached [OF assms(1) st(1) None] st(2) by simp
  next
    case (Some b)
    with assms(3) have "cached_script r (digest body) = Some body" by auto
    from check_cached [OF assms(1) st(1) this] st(2) show ?thesis
      by (intro bexI [of _ r]) simp_all
  qed
qed (rule check_unloaded [OF assms(1)])

lemma check_answers:
  assumes "up r" "script_sha st \<in> {None, Some (digest body)}"
    "cached_script r (digest body) \<in> {None, Some body}"
  shows "\<exists>r'. zview r' = zview r \<and> zttl r' = zttl r \<and> check_rate_limit S body tid route limit w now rid st r =
    script_answer Z (rate_key tid route) (py_int (now * 1000)) (w * 1000) limit rid (observe_lua (st\<lparr>script_sha := Some (digest body)\<rparr>)) r'"
  using check_answers_at [OF assms] by blast

lemma check_down:
  assumes "\<not> up r"
  shows "\<exists>e st'. check_rate_limit S body tid route limit w now rid st r = (Inl e, st', r) \<and> is_redis_error e"
proof (cases "script_sha st")
  case None
  with load_down [OF assms, of body] show ?thesis
    by (auto simp: check_rate_limit_def load_script_def)
next
  case (Some sha)
  from evalsha_down [OF assms] obtain e where
    "evalsha S sha (rate_key tid route) (py_int (now * 1000)) (w * 1000) limit rid r = (Inl e, r)"
    "is_redis_error e" "e \<noteq> NoScriptError" by blast
  with Some show ?thesis by (cases e) (auto simp: check_rate_limit_def)
qed

end

text \<open>The scripting commands of the reference server; its only script is the limiter's.\<close>

definition ref_script :: "redis_ref script_ops" where
  "ref_script = \<lparr>
     script_load = (\<lambda>b r. if ref_up r then (Inr (''sha1:'' @ b), r\<lparr>ref_scripts := (ref_scripts r)(''sha1:'' @ b \<mapsto> b)\<rparr>)
                          else (Inl RedisConnectionError, r)),
     evalsha = (\<lambda>sha k x y z m r. if \<not> ref_up r then (Inl RedisConnectionError, r)
        else case ref_scripts r sha of None \<Rightarrow> (Inl NoScriptError, r)
             | Some b \<Rightarrow> (case sliding_window ref_zset k x y z m r of (a, r') \<Rightarrow> (Inr a, r')))\<rparr>"

interpretation ref_client: limiter_client ref_zset ref_zview ref_zttl ref_elapse
  ref_script ref_up ref_scripts "\<lambda>b. ''sha1:'' @ b" "\<lambda>_. sliding_window ref_zset" "''lua''"
  by unfold_locales (auto simp: ref_script_def ref_zview_def ref_zttl_def fun_eq_iff split_beta)

text \<open>
  The limiter survives the loss of the server's script cache. Whether or not this
  process has loaded the script, and whether or not the server still has it (a restart or a
  \<open>SCRIPT FLUSH\<close> loses it), a call on a reachable server returns exactly the script's answer
  on the unchanged sorted sets, runs the script once, leaves the digest loaded and records
  one latency sample.
\<close>

theorem check_rate_limit_answers:
  assumes "limiter_client Z zview zttl elapse S up cached_script digest script_sem body"
    and "up r" and "script_sha st \<in> {None, Some (digest body)}"
    and "cached_script r (digest body) \<in> {None, Some body}"
  shows "\<exists>r'. zview r' = zview r \<and> zttl r' = zttl r \<and>
    check_rate_limit S body tenant_id route limit window_s now rid st r =
    script_answer Z (rate_key tenant_id route) (py_int (now * 1000)) (window_s * 1000) limit rid
      (observe_lua (st\<lparr>script_sha := Some (digest body)\<rparr>)) r'"
  by (rule limiter_client.check_answers [OF assms])

theorem check_rate_limit_answers_witness:
  "\<exists>r'. ref_zview r' = ref_zview ref_empty \<and> ref_zttl r' = ref_zttl ref_empty \<and>
    check_rate_limit ref_script ''lua'' ''acme'' ''/proxy/get'' 2 60 1700000000 ''id1''
      \<lparr>script_sha = Some ''sha1:lua'', lua_observations = 7\<rparr> ref_empty =
    script_answer ref_zset (rate_key ''acme'' ''/proxy/get'') (py_int (1700000000 * 1000)) (60 * 1000) 2 ''id1''
      (observe_lua \<lparr>script_sha = Some ''sha1:lua'', lua_observations = 7\<rparr>) r'"
  using check_rate_limit_answers [OF ref_client.limiter_client_axioms, where r = ref_empty
    and st = "\<lparr>script_sha = Some ''sha1:lua'', lua_observations = 7\<rparr>"
    and tenant_id = "''acme''" and route = "''/proxy/get''" and limit = 2 and window_s = 60
    and now = 1700000000 and rid = "''id1''"]
  by simp

subsection \<open>Isolation of tenants\<close>

lemma rate_key_inj:
  assumes "CHR ''}'' \<notin> set t1" "CHR ''}'' \<notin> set t2"
  shows "rate_key t1 r1 = rate_key t2 r2 \<longleftrightarrow> t1 = t2 \<and> r1 = r2"
  using append_sep_eq [OF assms] by (auto simp: rate_key_def)

text \<open>
  Tenants are limited independently. A request of one tenant, whatever its route, leaves
  every log of any other tenant as it was (tenant identifiers are UUIDs, so they contain no
  closing brace), and so does a request to another route of the same tenant.
\<close>

theorem limiter_isolates_tenants:
  assumes "redis_zset Z zview zttl elapse" "0 < window_s"
    and "CHR ''}'' \<notin> set t1" "CHR ''}'' \<notin> set t2" "(t1, r1) \<noteq> (t2, r2)"
  shows "zview (snd (sliding_window Z (rate_key t1 r1) now_ms (window_s * 1000) limit rid r)) (rate_key t2 r2)
       = zview r (rate_key t2 r2)"
  using assms(2-) by (intro redis_zset.script_frame [OF assms(1)]) (auto simp: rate_key_inj)

theorem limiter_isolates_tenants_witness:
  "ref_zview (snd (sliding_window ref_zset (rate_key ''acme'' ''/p'') 5 (60 * 1000) 2 ''i'' ref_empty))
     (rate_key ''globex'' ''/p'') = ref_zview ref_empty (rate_key ''globex'' ''/p'')"
  by (rule limiter_isolates_tenants [OF ref.redis_zset_axioms]) simp_all

end
