(* ===== verification/Fallback_Limiter.thy ===== *)
theory Fallback_Limiter
  imports Sliding_Log
begin

section \<open>The in-memory fallback limiter\<close>

text \<open>
  \<open>gateway/app/fallback_limiter.py\<close>: the per-process limiter used while Redis is unreachable.
  It implements the sliding-window specification with ten times the policy's limit, provided
  the window is no longer than the idle threshold after which a key's log is dropped; for a
  longer window the specification is not met.
\<close>

definition FALLBACK_MULTIPLIER :: int where
  "FALLBACK_MULTIPLIER = 10"

definition EVICT_IDLE_S :: real where
  "EVICT_IDLE_S = 300"

text \<open>The module state: \<open>_buckets\<close> (a \<open>defaultdict(list)\<close>) and \<open>_last_seen\<close>.\<close>

record fallback_state =
  fb_buckets :: "(string, real list) dict"
  fb_last_seen :: "(string, real) dict"

definition fb_init :: fallback_state where
  "fb_init = \<lparr>fb_buckets = [], fb_last_seen = []\<rparr>"

definition bucket_of :: "fallback_state \<Rightarrow> string \<Rightarrow> real list" where
  "bucket_of st key = (case dict_get (fb_buckets st) key of None \<Rightarrow> [] | Some b \<Rightarrow> b)"

definition evict_stale :: "real \<Rightarrow> fallback_state \<Rightarrow> fallback_state" where
  "evict_stale now st =
     (let stale = map fst (filter (\<lambda>(k, seen). now - seen > EVICT_IDLE_S) (fb_last_seen st))
      in \<lparr>fb_buckets = dict_pops stale (fb_buckets st),
          fb_last_seen = dict_pops stale (fb_last_seen st)\<rparr>)"

definition fallback_key :: "string \<Rightarrow> string \<Rightarrow> string" where
  "fallback_key tenant_id route = tenant_id @ '':'' @ route"

definition in_memory_check ::
    "string \<Rightarrow> string \<Rightarrow> int \<Rightarrow> int \<Rightarrow> real \<Rightarrow> fallback_state \<Rightarrow> (bool \<times> int) \<times> fallback_state" where
  "in_memory_check tenant_id route limit window_s now st =
     (let key = fallback_key tenant_id route;
          st1 = evict_stale now st;
          st2 = st1\<lparr>fb_last_seen := dict_set key now (fb_last_seen st1)\<rparr>;
          kept = filter (\<lambda>t. t > now - real_of_int window_s) (bucket_of st2 key);
          st3 = st2\<lparr>fb_buckets := dict_set key kept (fb_buckets st2)\<rparr>
      in if int (length kept) < limit * FALLBACK_MULTIPLIER
         then ((True, 0), st3\<lparr>fb_buckets := dict_set key (kept @ [now]) (fb_buckets st3)\<rparr>)
         else ((False, 0), st3))"

subsection \<open>What one call does to a key's log\<close>

text \<open>A key's log after the eviction that starts a call at \<open>now\<close>.\<close>

lemma stale_keys:
  assumes "dict_wf (fb_last_seen st)"
  shows "k \<in> set (map fst (filter (\<lambda>(k, seen). now - seen > EVICT_IDLE_S) (fb_last_seen st))) \<longleftrightarrow>
         (\<exists>seen. dict_get (fb_last_seen st) k = Some seen \<and> now - seen > EVICT_IDLE_S)"
  using assms by (force simp: dict_wf_get_iff [symmetric])

lemma evict_stale_get:
  assumes "dict_wf (fb_last_seen st)"
  shows "dict_get (fb_last_seen (evict_stale now st)) k =
           (case dict_get (fb_last_seen st) k of None \<Rightarrow> None
            | Some seen \<Rightarrow> if now - seen > EVICT_IDLE_S then None else Some seen)"
    and "bucket_of (evict_stale now st) k =
           (case dict_get (fb_last_seen st) k of None \<Rightarrow> bucket_of st k
            | Some seen \<Rightarrow> if now - seen > EVICT_IDLE_S then [] else bucket_of st k)"
  unfolding evict_stale_def Let_def bucket_of_def fallback_state.simps dict_get_pops stale_keys [OF assms]
  by (auto split: option.splits)

lemma evict_stale_wf: "dict_wf (fb_last_seen st) \<Longrightarrow> dict_wf (fb_last_seen (evict_stale now st))"
  by (simp add: evict_stale_def Let_def)

text \<open>Requests of a run: tenant, route, limit and window.\<close>

record fallback_req =
  fq_tenant :: string
  fq_route :: string
  fq_limit :: int
  fq_window_s :: int

definition fq_key :: "fallback_req \<Rightarrow> string" where
  "fq_key q = fallback_key (fq_tenant q) (fq_route q)"

definition fallback_check :: "real \<Rightarrow> fallback_req \<Rightarrow> fallback_state \<Rightarrow> bool \<times> fallback_state" where
  "fallback_check now q st =
     (case in_memory_check (fq_tenant q) (fq_route q) (fq_limit q) (fq_window_s q) now st of
        ((allowed, _), st') \<Rightarrow> (allowed, st'))"

definition kept_log :: "real \<Rightarrow> fallback_req \<Rightarrow> fallback_state \<Rightarrow> real list" where
  "kept_log now q st =
     filter (\<lambda>t. t > now - real_of_int (fq_window_s q)) (bucket_of (evict_stale now st) (fq_key q))"

lemma fallback_check_result:
  "fst (fallback_check now q st) \<longleftrightarrow> int (length (kept_log now q st)) < fq_limit q * FALLBACK_MULTIPLIER"
  by (simp add: fallback_check_def in_memory_check_def kept_log_def fq_key_def bucket_of_def Let_def)

lemma fallback_check_bucket:
  "bucket_of (snd (fallback_check now q st)) k =
     (if k = fq_key q
      then if fst (fallback_check now q st) then kept_log now q st @ [now] else kept_log now q st
      else bucket_of (evict_stale now st) k)"
  by (simp add: fallback_check_def in_memory_check_def kept_log_def fq_key_def bucket_of_def
        Let_def dict_simps)

lemma fallback_check_last_seen:
  "fb_last_seen (snd (fallback_check now q st)) = dict_set (fq_key q) now (fb_last_seen (evict_stale now st))"
  by (simp add: fallback_check_def in_memory_check_def fq_key_def Let_def)

lemmas fallback_check_simps = fallback_check_bucket fallback_check_last_seen dict_simps

subsection \<open>The fallback implements the specification\<close>

text \<open>
  The relation: inside the current window the key's log is the specification's log, no entry
  is newer than the clock, and every entry is at most as new as the key's \<open>_last_seen\<close>.
\<close>

definition fallback_fits :: "string \<Rightarrow> real \<Rightarrow> real \<Rightarrow> fallback_state \<Rightarrow> real list \<Rightarrow> 'i set \<Rightarrow> bool" where
  "fallback_fits key w t st hist used \<longleftrightarrow>
     dict_wf (fb_last_seen st) \<and>
     recent w t (bucket_of st key) = recent w t hist \<and>
     (\<forall>h \<in> set (bucket_of st key). h \<le> t) \<and>
     (\<forall>seen. dict_get (fb_last_seen st) key = Some seen \<longrightarrow> (\<forall>h \<in> set (bucket_of st key). h \<le> seen))"

lemma recent_recent: "t \<le> now \<Longrightarrow> recent w now (recent w t hist) = recent w now hist"
  by (auto simp: recent_def intro: filter_cong)

lemma recent_mono:
  "recent w t xs = recent w t ys \<Longrightarrow> t \<le> now \<Longrightarrow> recent w now xs = recent w now ys"
  by (metis recent_recent)

lemma fallback_fits_later:
  "fallback_fits key w t st hist used \<Longrightarrow> t \<le> now \<Longrightarrow> fallback_fits key w now st hist used"
  by (auto simp: fallback_fits_def intro: recent_mono)

lemma evict_fits:
  assumes fits: "fallback_fits key w t st hist used" and "t \<le> now" and "w \<le> EVICT_IDLE_S"
  shows "fallback_fits key w now (evict_stale now st) hist used"
proof -
  from fits have wf: "dict_wf (fb_last_seen st)" by (simp add: fallback_fits_def)
  from fits \<open>t \<le> now\<close> have same: "recent w now (bucket_of st key) = recent w now hist"
    by (auto simp: fallback_fits_def intro: recent_mono)
  show ?thesis
  proof (cases "\<exists>seen. dict_get (fb_last_seen st) key = Some seen \<and> now - seen > EVICT_IDLE_S")
    case True
    then obtain seen where seen: "dict_get (fb_last_seen st) key = Some seen" "now - seen > EVICT_IDLE_S"
      by blast
    have "recent w now (bucket_of st key) = []"
      using fits seen \<open>w \<le> EVICT_IDLE_S\<close>
      by (force simp: recent_def filter_empty_conv fallback_fits_def)
    with same seen wf show ?thesis
      by (simp add: fallback_fits_def evict_stale_get evict_stale_wf recent_def)
  next
    case False
    then have "bucket_of (evict_stale now st) key = bucket_of st key"
      "dict_get (fb_last_seen (evict_stale now st)) key = dict_get (fb_last_seen st) key"
      using wf by (auto simp: evict_stale_get split: option.splits)
    with fits same \<open>t \<le> now\<close> wf show ?thesis
      by (auto simp: fallback_fits_def evict_stale_wf)
  qed
qed

definition fallback_policy :: "string \<Rightarrow> int \<Rightarrow> int \<Rightarrow> fallback_req \<Rightarrow> bool" where
  "fallback_policy key limit window_s q \<longleftrightarrow>
     (fq_key q = key \<longrightarrow> fq_limit q = limit \<and> fq_window_s q = window_s)"

lemma fallback_other:
  assumes "fallback_fits key w now (evict_stale now st) hist used" "fq_key q \<noteq> key"
  shows "fallback_fits key w now (snd (fallback_check now q st)) hist used"
  using assms by (simp add: fallback_fits_def fallback_check_simps)

lemma fallback_own:
  assumes fits: "fallback_fits key (real_of_int (fq_window_s q)) now (evict_stale now st) hist used"
    and own: "fq_key q = key"
  shows "fst (fallback_check now q st) =
           fst (spec_check (fq_limit q * FALLBACK_MULTIPLIER) (real_of_int (fq_window_s q)) now hist)"
    and "fallback_fits key (real_of_int (fq_window_s q)) now (snd (fallback_check now q st))
           (snd (spec_check (fq_limit q * FALLBACK_MULTIPLIER) (real_of_int (fq_window_s q)) now hist)) used'"
proof -
  let ?w = "real_of_int (fq_window_s q)"
  have kept: "kept_log now q st = recent ?w now hist"
    using fits own by (simp add: kept_log_def recent_def fallback_fits_def)
  show dec: "fst (fallback_check now q st) =
      fst (spec_check (fq_limit q * FALLBACK_MULTIPLIER) ?w now hist)"
    by (simp add: fallback_check_result kept spec_check_def)
  have le: "\<forall>h \<in> set (kept_log now q st). h \<le> now"
    using fits own by (auto simp: kept_log_def fallback_fits_def)
  show "fallback_fits key ?w now (snd (fallback_check now q st))
      (snd (spec_check (fq_limit q * FALLBACK_MULTIPLIER) ?w now hist)) used'"
    using fits le dec own
    by (auto simp: fallback_fits_def fallback_check_simps kept spec_check_def recent_def evict_stale_wf)
qed

interpretation fallback: window_limiter
  fallback_check "\<lambda>q. fq_key q = key" "\<lambda>_. {} :: unit set"
  "\<lambda>q. fallback_policy key limit window_s q \<and> real_of_int window_s \<le> EVICT_IDLE_S"
  "limit * FALLBACK_MULTIPLIER" "real_of_int window_s" "fallback_fits key (real_of_int window_s)"
  for key :: string and limit window_s :: int
proof
  fix t st hist and used :: "unit set" and now q
  assume fits: "fallback_fits key (real_of_int window_s) t st hist used" and "t \<le> now"
    and ok: "fallback_policy key limit window_s q \<and> real_of_int window_s \<le> EVICT_IDLE_S"
  then have now: "fallback_fits key (real_of_int window_s) now (evict_stale now st) hist used"
    by (auto intro: evict_fits)
  show "fallback_fits key (real_of_int window_s) now (snd (fallback_check now q st)) hist used"
    if "fq_key q \<noteq> key"
    using now that by (rule fallback_other)
  assume own: "fq_key q = key"
  with ok have q: "fq_limit q = limit" "fq_window_s q = window_s" by (simp_all add: fallback_policy_def)
  show "fst (fallback_check now q st) =
      fst (spec_check (limit * FALLBACK_MULTIPLIER) (real_of_int window_s) now hist)"
    using fallback_own(1) [of key q now st hist used] now own q by simp
  show "fallback_fits key (real_of_int window_s) now (snd (fallback_check now q st))
      (snd (spec_check (limit * FALLBACK_MULTIPLIER) (real_of_int window_s) now hist)) ({} \<union> used)"
    using fallback_own(2) [of key q now st hist used] now own q by simp
qed


lemma fallback_key_inj:
  "CHR '':'' \<notin> set t1 \<Longrightarrow> CHR '':'' \<notin> set t2 \<Longrightarrow> fallback_key t1 r1 = fallback_key t2 r2 \<longleftrightarrow> t1 = t2 \<and> r1 = r2"
  using append_sep_eq [of "CHR '':''" t1 t2 r1 r2] by (simp add: fallback_key_def)

lemma fb_init_fits: "fallback_fits key w t fb_init [] used"
  by (simp add: fallback_fits_def fb_init_def bucket_of_def)

subsection \<open>Properties\<close>

lemma fallback_schedule:
  assumes "window_s \<le> 300"
    and "schedule own rid (fallback_policy key limit window_s) t used reqs"
  shows "schedule own rid (\<lambda>q. fallback_policy key limit window_s q \<and> real_of_int window_s \<le> EVICT_IDLE_S)
           t used reqs"
  using assms by (auto simp: EVICT_IDLE_S_def intro: schedule_weaken)

text \<open>
  During an outage a process admits at most ten times a policy's limit. For requests of
  any tenants in clock order, no half-open interval of one window's length contains more than
  \<open>10 * limit\<close> admitted requests of one key, whatever the other keys' requests and the
  evictions between them, provided the window is at most the 300-second idle threshold.
\<close>

theorem fallback_window_bound:
  assumes "window_s \<le> 300"
    and "schedule (\<lambda>q. fq_key q = key) (\<lambda>_. {} :: unit set) (fallback_policy key limit window_s) t\<^sub>0 {} reqs"
  shows "int (in_window (real_of_int window_s) a (admitted (\<lambda>q. fq_key q = key) reqs
           (fst (run_checks fallback_check reqs fb_init)))) \<le> max 0 (limit * FALLBACK_MULTIPLIER)"
  by (rule fallback.run_bound [OF fb_init_fits fallback_schedule [OF assms]])

definition outage_reqs :: "(real \<times> fallback_req) list" where
  "outage_reqs = map (\<lambda>i. (real i, \<lparr>fq_tenant = ''acme'', fq_route = ''/p'', fq_limit = 1, fq_window_s = 60\<rparr>))
     [0, 1, 2, 3, 4, 5, 6, 7, 8, 9, 10, 11]"

lemma outage_schedule:
  "schedule (\<lambda>q. fq_key q = ''acme:/p'') (\<lambda>_. {} :: unit set) (fallback_policy ''acme:/p'' 1 60) 0 {} outage_reqs"
  by (simp add: outage_reqs_def fallback_policy_def fq_key_def fallback_key_def)

theorem fallback_window_bound_witness:
  "int (in_window (real_of_int 60) (-1) (admitted (\<lambda>q. fq_key q = ''acme:/p'') outage_reqs
     (fst (run_checks fallback_check outage_reqs fb_init)))) \<le> max 0 (1 * FALLBACK_MULTIPLIER)"
  by (rule fallback_window_bound [OF _ outage_schedule]) simp

text \<open>
  C27: The fallback takes exactly the decisions of the sliding-window specification with ten
  times the limit, for windows up to the idle threshold: pruning and eviction are
  unobservable there.
\<close>

theorem fallback_decides_like_spec:
  assumes "window_s \<le> 300"
    and "schedule (\<lambda>q. fq_key q = key) (\<lambda>_. {} :: unit set) (fallback_policy key limit window_s) t\<^sub>0 {} reqs"
  shows "own_decisions (\<lambda>q. fq_key q = key) reqs (fst (run_checks fallback_check reqs fb_init)) =
         fst (spec_run (limit * FALLBACK_MULTIPLIER) (real_of_int window_s) (own_times (\<lambda>q. fq_key q = key) reqs) [])"
  by (rule fallback.run_refines [OF fb_init_fits fallback_schedule [OF assms]])

theorem fallback_decides_like_spec_witness:
  "own_decisions (\<lambda>q. fq_key q = ''acme:/p'') outage_reqs (fst (run_checks fallback_check outage_reqs fb_init)) =
     replicate 10 True @ [False, False]"
proof -
  have "own_decisions (\<lambda>q. fq_key q = ''acme:/p'') outage_reqs (fst (run_checks fallback_check outage_reqs fb_init)) =
    fst (spec_run (1 * FALLBACK_MULTIPLIER) (real_of_int 60) (own_times (\<lambda>q. fq_key q = ''acme:/p'') outage_reqs) [])"
    by (rule fallback_decides_like_spec [OF _ outage_schedule]) simp
  then show ?thesis
    by (simp add: outage_reqs_def fq_key_def fallback_key_def spec_check_def recent_def
          FALLBACK_MULTIPLIER_def numeral_eq_Suc)
qed

text \<open>
  For a window longer than the idle threshold the fallback does not enforce its limit:
  after more than 300 idle seconds a key's log is dropped and the next request is admitted,
  however many requests of the current window were already admitted and however long the
  window is.
\<close>

theorem fallback_forgets_idle_key:
  assumes "dict_wf (fb_last_seen st)"
    and "dict_get (fb_last_seen st) (fallback_key tenant_id route) = Some seen" "now - seen > 300"
    and "0 < limit"
  shows "fst (in_memory_check tenant_id route limit window_s now st) = (True, 0) \<and>
    bucket_of (snd (in_memory_check tenant_id route limit window_s now st)) (fallback_key tenant_id route) = [now]"
proof -
  have "bucket_of (evict_stale now st) (fallback_key tenant_id route) = []"
    using assms by (simp add: evict_stale_get EVICT_IDLE_S_def)
  then show ?thesis
    using assms(4) by (simp add: in_memory_check_def Let_def bucket_of_def FALLBACK_MULTIPLIER_def dict_simps)
qed

theorem fallback_forgets_idle_key_witness:
  "fst (in_memory_check ''acme'' ''/p'' 1 3600 301
     \<lparr>fb_buckets = [(''acme:/p'', replicate 10 0)], fb_last_seen = [(''acme:/p'', 0)]\<rparr>) = (True, 0)"
  by (rule fallback_forgets_idle_key [where seen = 0, THEN conjunct1]) (simp_all add: fallback_key_def)

end
