(* ===== verification/Read_Cache.thy ===== *)
theory Read_Cache
  imports Redis_Ref Py_Json
begin

section \<open>Read-through caches\<close>

text \<open>
  The pattern \<open>auth.get_tenant\<close> and \<open>policy.get_policy\<close> share: read a JSON value from Redis; on a
  miss, or when Redis fails, ask the database, store the answer with a time to live and ignore a
  failure to store it. The contract is stated once, in the locale \<open>read_cache\<close>, for any number of lookups in flight: whatever is
  served was the database's answer at most one time to live and one delay ago.
\<close>

text \<open>
  The cache read. \<open>if cached:\<close> is false for a missing key and for the empty string; a failure of
  Redis counts as a miss, any other exception propagates.
\<close>

definition cached_text :: "string option res \<Rightarrow> string option res" where
  "cached_text got =
     (case got of
        Inl e \<Rightarrow> if is_redis_error e then Inr None else Inl e
      | Inr None \<Rightarrow> Inr None
      | Inr (Some t) \<Rightarrow> if t = [] then Inr None else Inr (Some t))"

text \<open>The repopulating write: a failure of Redis is swallowed.\<close>

definition store_text :: "'r kv_ops \<Rightarrow> string \<Rightarrow> string \<Rightarrow> int \<Rightarrow> 'r \<Rightarrow> unit res \<times> 'r" where
  "store_text K key t ttl r =
     (case kv_set_ex K key t ttl r of
        (Inl e, r') \<Rightarrow> (if is_redis_error e then Inr () else Inl e, r')
      | (Inr _, r') \<Rightarrow> (Inr (), r'))"

definition read_through :: "'r kv_ops \<Rightarrow> (pyfloat \<Rightarrow> string) \<Rightarrow> string \<Rightarrow> int \<Rightarrow> json option res \<Rightarrow> 'r \<Rightarrow>
    json option res \<times> 'r" where
  "read_through K rep key ttl answer r =
     (case cached_text (kv_get K key r) of
        Inl e \<Rightarrow> (Inl e, r)
      | Inr (Some t) \<Rightarrow> (case loads t of Inl e \<Rightarrow> (Inl e, r) | Inr v \<Rightarrow> (Inr (Some v), r))
      | Inr None \<Rightarrow>
          (case answer of
             Inl e \<Rightarrow> (Inl e, r)
           | Inr None \<Rightarrow> (Inr None, r)
           | Inr (Some v) \<Rightarrow>
               (case store_text K key (dumps rep v) ttl r of
                  (Inl e, r') \<Rightarrow> (Inl e, r')
                | (Inr _, r') \<Rightarrow> (Inr (Some v), r'))))"

text \<open>
  The same lookup in the three stages between which the event loop may run something else: the read of the
  cache (\<open>None\<close>: go on to the database), the query, and the write of the cache.
\<close>

definition lookup_get :: "'r kv_ops \<Rightarrow> string \<Rightarrow> 'r \<Rightarrow> json option res option" where
  "lookup_get K key r =
     (case cached_text (kv_get K key r) of
        Inl e \<Rightarrow> Some (Inl e)
      | Inr (Some t) \<Rightarrow> (case loads t of Inl e \<Rightarrow> Some (Inl e) | Inr v \<Rightarrow> Some (Inr (Some v)))
      | Inr None \<Rightarrow> None)"

definition lookup_store :: "'r kv_ops \<Rightarrow> (pyfloat \<Rightarrow> string) \<Rightarrow> string \<Rightarrow> int \<Rightarrow> json \<Rightarrow> 'r \<Rightarrow> json option res \<times> 'r" where
  "lookup_store K rep key ttl v r =
     (case store_text K key (dumps rep v) ttl r of
        (Inl e, r') \<Rightarrow> (Inl e, r')
      | (Inr _, r') \<Rightarrow> (Inr (Some v), r'))"

text \<open>With nothing in between, the stages are the lookup.\<close>

lemma read_through_stages:
  "read_through K rep key ttl answer r =
     (case lookup_get K key r of
        Some x \<Rightarrow> (x, r)
      | None \<Rightarrow> (case answer of Inr (Some v) \<Rightarrow> lookup_store K rep key ttl v r | _ \<Rightarrow> (answer, r)))"
  by (simp add: read_through_def lookup_get_def lookup_store_def split: sum.split option.split)

text \<open>
  Where a lookup of \<open>q\<close> called at time \<open>c\<close> stands: waiting for the cache, for the database, with the database's
  answer of time \<open>s\<close> not yet stored, or answered at time \<open>a\<close>.
\<close>

datatype 'q flight =
  Called 'q real
| Missed 'q real
| Fetched 'q real real json
| Answered 'q real real "json option res"

text \<open>
  A history of any number of lookups in flight at once: their stages interleave with each other, with time passing, and
  with whatever else happens to the server (\<open>env\<close>). The answer of the database may change at any time.
  A lookup that is to store what it read does so within \<open>delay\<close> of reading it.
\<close>

inductive lookups_run :: "'r kv_ops \<Rightarrow> (pyfloat \<Rightarrow> string) \<Rightarrow> ('q \<Rightarrow> string) \<Rightarrow> int \<Rightarrow> (real \<Rightarrow> 'q \<Rightarrow> json option res) \<Rightarrow>
    (real \<Rightarrow> 'r \<Rightarrow> 'r) \<Rightarrow> ('r \<Rightarrow> 'r \<Rightarrow> bool) \<Rightarrow> ('q \<Rightarrow> bool) \<Rightarrow> real \<Rightarrow>
    real \<times> 'r \<times> (nat \<Rightarrow> 'q flight option) \<Rightarrow> real \<Rightarrow> 'r \<Rightarrow> (nat \<Rightarrow> 'q flight option) \<Rightarrow> bool"
  for K rep keyf ttl answers elapse env valid delay start where
  run_start: "start = (t, r, fl) \<Longrightarrow> lookups_run K rep keyf ttl answers elapse env valid delay start t r fl"
| run_wait: "lookups_run K rep keyf ttl answers elapse env valid delay start t r fl \<Longrightarrow> 0 \<le> d \<Longrightarrow>
     lookups_run K rep keyf ttl answers elapse env valid delay start (t + d) (elapse d r) fl"
| run_env: "lookups_run K rep keyf ttl answers elapse env valid delay start t r fl \<Longrightarrow> env r r' \<Longrightarrow>
     lookups_run K rep keyf ttl answers elapse env valid delay start t r' fl"
| run_call: "lookups_run K rep keyf ttl answers elapse env valid delay start t r fl \<Longrightarrow> fl i = None \<Longrightarrow> valid q \<Longrightarrow>
     lookups_run K rep keyf ttl answers elapse env valid delay start t r (fl(i \<mapsto> Called q t))"
| run_hit: "lookups_run K rep keyf ttl answers elapse env valid delay start t r fl \<Longrightarrow> fl i = Some (Called q c) \<Longrightarrow>
     lookup_get K (keyf q) r = Some x \<Longrightarrow>
     lookups_run K rep keyf ttl answers elapse env valid delay start t r (fl(i \<mapsto> Answered q c t x))"
| run_miss: "lookups_run K rep keyf ttl answers elapse env valid delay start t r fl \<Longrightarrow> fl i = Some (Called q c) \<Longrightarrow>
     lookup_get K (keyf q) r = None \<Longrightarrow>
     lookups_run K rep keyf ttl answers elapse env valid delay start t r (fl(i \<mapsto> Missed q c))"
| run_query: "lookups_run K rep keyf ttl answers elapse env valid delay start t r fl \<Longrightarrow> fl i = Some (Missed q c) \<Longrightarrow>
     answers t q = Inr (Some v) \<Longrightarrow>
     lookups_run K rep keyf ttl answers elapse env valid delay start t r (fl(i \<mapsto> Fetched q c t v))"
| run_refuse: "lookups_run K rep keyf ttl answers elapse env valid delay start t r fl \<Longrightarrow> fl i = Some (Missed q c) \<Longrightarrow>
     \<forall>v. answers t q \<noteq> Inr (Some v) \<Longrightarrow>
     lookups_run K rep keyf ttl answers elapse env valid delay start t r (fl(i \<mapsto> Answered q c t (answers t q)))"
| run_store: "lookups_run K rep keyf ttl answers elapse env valid delay start t r fl \<Longrightarrow> fl i = Some (Fetched q c s v) \<Longrightarrow>
     t - s \<le> delay \<Longrightarrow> lookup_store K rep (keyf q) ttl v r = (x, r') \<Longrightarrow>
     lookups_run K rep keyf ttl answers elapse env valid delay start t r' (fl(i \<mapsto> Answered q c t x))"

lemma lookups_run_trans:
  assumes "lookups_run K rep keyf ttl answers elapse env valid delay mid t r fl"
    and "mid = (t\<^sub>1, r\<^sub>1, fl\<^sub>1)" "lookups_run K rep keyf ttl answers elapse env valid delay start t\<^sub>1 r\<^sub>1 fl\<^sub>1"
  shows "lookups_run K rep keyf ttl answers elapse env valid delay start t r fl"
  using assms(1)
proof (induction rule: lookups_run.induct)
  case (run_start t r fl)
  with assms(2,3) show ?case by simp
qed (blast intro: lookups_run.intros)+

text \<open>A lookup that has been called can always run to its end, and then it did what the whole lookup does.\<close>

lemma lookup_completes:
  assumes "fl i = Some (Called q c)" "0 \<le> delay" "read_through K rep (keyf q) ttl (answers t q) r = (x, r')"
  shows "lookups_run K rep keyf ttl answers elapse env valid delay (t, r, fl) t r' (fl(i \<mapsto> Answered q c t x))"
proof -
  let ?run = "lookups_run K rep keyf ttl answers elapse env valid delay (t, r, fl) t"
  have start: "?run r fl" by (rule run_start) simp
  show ?thesis
  proof (cases "lookup_get K (keyf q) r")
    case None
    have missed: "?run r (fl(i \<mapsto> Missed q c))" using start assms(1) None by (rule run_miss)
    show ?thesis
    proof (cases "\<exists>v. answers t q = Inr (Some v)")
      case True
      then obtain v where v: "answers t q = Inr (Some v)" by blast
      have "?run r (fl(i \<mapsto> Missed q c, i \<mapsto> Fetched q c t v))" using v by (intro run_query [OF missed]) simp_all
      then have "?run r' (fl(i \<mapsto> Missed q c, i \<mapsto> Fetched q c t v, i \<mapsto> Answered q c t x))"
        using assms(2,3) None v by (intro run_store [where s = t]) (simp_all add: read_through_stages)
      then show ?thesis by simp
    next
      case False
      then have "?run r (fl(i \<mapsto> Missed q c, i \<mapsto> Answered q c t (answers t q)))" by (intro run_refuse [OF missed]) simp_all
      moreover have "x = answers t q \<and> r' = r"
        using False None assms(3) by (auto simp: read_through_stages split: sum.splits option.splits)
      ultimately show ?thesis by simp
    qed
  next
    case (Some y)
    with start assms(1,3) show ?thesis by (auto simp: read_through_stages intro: run_hit)
  qed
qed

lemma answer_stays:
  assumes "lookups_run K rep keyf ttl answers elapse env valid delay start t r fl"
    and "start = (T, r\<^sub>0, fl\<^sub>0)" "fl\<^sub>0 i = Some (Answered q c a x)"
  shows "fl i = Some (Answered q c a x)"
  using assms(1) by (induction rule: lookups_run.induct) (use assms(2,3) in auto)

context redis_kv
begin

text \<open>During an outage the answer is the database's, and the lookup does not fail because of Redis.\<close>

lemma read_through_down:
  assumes "\<not> kv_up r"
  shows "read_through K rep key ttl answer r = (answer, r)"
proof -
  have got: "cached_text (kv_get K key r) = Inr None"
    using get_down [OF assms, of key] by (auto simp: cached_text_def)
  have stored: "store_text K key t ttl r = (Inr (), r)" for t
    using set_down [OF assms, of key t ttl] by (auto simp: store_text_def)
  show ?thesis by (simp add: read_through_def got stored split: sum.split option.split)
qed

text \<open>A cached value is served without asking the database; without one, the database decides, and only a value is stored.\<close>

lemma read_through_hit:
  assumes "kv_up r" "kv_view r key = Some (dumps rep v, left)" "json_ok v"
  shows "read_through K rep key ttl answer r = (Inr (Some v), r)"
proof -
  have "dumps rep v \<noteq> []" using dumps_starts [OF assms(3), of rep] by (auto simp: starts_value_def)
  with assms show ?thesis by (simp add: read_through_def cached_text_def get_up loads_dumps)
qed

lemma read_through_miss:
  assumes "kv_up r" "kv_view r key = None" "\<nexists>v. answer = Inr (Some v)"
  shows "read_through K rep key ttl answer r = (answer, r)"
  using assms by (auto simp: read_through_def cached_text_def get_up split: sum.split option.split)

end

locale read_cache = redis_kv K kv_up kv_view kv_elapse
  for K :: "'r kv_ops" and kv_up kv_view kv_elapse +
  fixes keyf :: "'q \<Rightarrow> string" and valid :: "'q \<Rightarrow> bool" and ttl :: int
    and answers :: "real \<Rightarrow> 'q \<Rightarrow> json option res" and rep :: "pyfloat \<Rightarrow> string"
    and env :: "'r \<Rightarrow> 'r \<Rightarrow> bool"
  assumes key_answers: "valid q \<Longrightarrow> valid q' \<Longrightarrow> keyf q = keyf q' \<Longrightarrow> answers t q = answers t q'"
    and ttl_pos: "0 < ttl"
    and answers_json: "answers t q = Inr (Some v) \<Longrightarrow> json_ok v"
    and env_view: "env r r' \<Longrightarrow> valid q \<Longrightarrow> kv_view r' (keyf q) = None \<or> kv_view r' (keyf q) = kv_view r (keyf q)"
begin

lemma dumps_nonempty: "json_ok v \<Longrightarrow> dumps rep v \<noteq> []"
  using dumps_starts [of v rep] by (auto simp: starts_value_def)

text \<open>
  What holds from time \<open>T\<close> on for the queries \<open>Q\<close>, when nothing older was cached or on its way into the cache at \<open>T\<close>.
  A cached value is the printed answer of the database of a moment after \<open>T\<close>, no older than what its
  time to live has lost and the delay of the lookup that stored it.
\<close>

definition cache_ok :: "('q \<Rightarrow> bool) \<Rightarrow> real \<Rightarrow> real \<Rightarrow> real \<Rightarrow> 'r \<Rightarrow> bool" where
  "cache_ok Q T delay t r \<longleftrightarrow> (\<forall>q doc left. valid q \<and> Q q \<longrightarrow> kv_view r (keyf q) = Some (doc, left) \<longrightarrow>
     0 < left \<and> (\<exists>s v. T \<le> s \<and> s \<le> t \<and> t - s \<le> of_int ttl + delay - left \<and> answers s q = Inr (Some v) \<and> doc = dumps rep v))"

text \<open>
  A lookup in flight: a value on its way into the cache is an answer of the database since the call, and a result, unless it
  had one before the history started (\<open>old\<close>), was the database's answer at a moment since \<open>T\<close>: since the call, if it is
  an error or the absence of a value.
\<close>

fun flight_ok :: "('q \<Rightarrow> bool) \<Rightarrow> real \<Rightarrow> real \<Rightarrow> real \<Rightarrow> bool \<Rightarrow> 'q flight \<Rightarrow> bool" where
  "flight_ok Q T delay t old (Called q c) \<longleftrightarrow> valid q \<and> c \<le> t"
| "flight_ok Q T delay t old (Missed q c) \<longleftrightarrow> valid q \<and> c \<le> t"
| "flight_ok Q T delay t old (Fetched q c s v) \<longleftrightarrow> valid q \<and> c \<le> s \<and> s \<le> t \<and> answers s q = Inr (Some v) \<and> (Q q \<longrightarrow> T \<le> s)"
| "flight_ok Q T delay t old (Answered q c a x) \<longleftrightarrow> valid q \<and> (Q q \<and> \<not> old \<longrightarrow>
     (\<exists>s. T \<le> s \<and> s \<le> a \<and> a - s < of_int ttl + delay \<and> answers s q = x \<and> ((\<forall>v. x \<noteq> Inr (Some v)) \<longrightarrow> c \<le> s)))"

definition flights_ok :: "('q \<Rightarrow> bool) \<Rightarrow> real \<Rightarrow> real \<Rightarrow> real \<Rightarrow> (nat \<Rightarrow> bool) \<Rightarrow> (nat \<Rightarrow> 'q flight option) \<Rightarrow> bool" where
  "flights_ok Q T delay t old fl \<longleftrightarrow> (\<forall>i f. fl i = Some f \<longrightarrow> flight_ok Q T delay t (old i) f)"

lemma cache_okD:
  "cache_ok Q T delay t r \<Longrightarrow> valid q \<Longrightarrow> Q q \<Longrightarrow> kv_view r (keyf q) = Some (doc, left) \<Longrightarrow>
   0 < left \<and> (\<exists>s v. T \<le> s \<and> s \<le> t \<and> t - s \<le> of_int ttl + delay - left \<and> answers s q = Inr (Some v) \<and> doc = dumps rep v)"
  by (auto simp: cache_ok_def)

lemma cache_ok_wait:
  assumes "cache_ok Q T delay t r" "0 \<le> d"
  shows "cache_ok Q T delay (t + d) (kv_elapse d r)"
  unfolding cache_ok_def
proof (intro allI impI, elim conjE)
  fix q doc left
  assume q: "valid q" "Q q" and v: "kv_view (kv_elapse d r) (keyf q) = Some (doc, left)"
  then have "kv_view r (keyf q) = Some (doc, left + d)" "0 < left"
    using kv_elapse_view [OF assms(2), of r "keyf q"] by (auto split: option.splits if_splits)
  moreover obtain s w where "T \<le> s" "s \<le> t" "t - s \<le> of_int ttl + delay - (left + d)" "answers s q = Inr (Some w)" "doc = dumps rep w"
    using cache_okD [OF assms(1) q calculation(1)] by blast
  ultimately show "0 < left \<and> (\<exists>s v. T \<le> s \<and> s \<le> t + d \<and> t + d - s \<le> of_int ttl + delay - left \<and> answers s q = Inr (Some v) \<and> doc = dumps rep v)"
    using assms(2) by (intro conjI exI [of _ s] exI [of _ w]) auto
qed

lemma cache_ok_env: "cache_ok Q T delay t r \<Longrightarrow> env r r' \<Longrightarrow> cache_ok Q T delay t r'"
  unfolding cache_ok_def by (metis env_view option.distinct(1))

lemma lookup_store_cases:
  assumes "lookup_store K rep key ttl v r = (x, r')"
  shows "x = Inr (Some v)" and "kv_view r' = kv_view r \<or> kv_view r' = (kv_view r)(key \<mapsto> (dumps rep v, of_int ttl))"
proof -
  obtain y where y: "kv_set_ex K key (dumps rep v) ttl r = (y, r')" "case y of Inl e \<Rightarrow> is_redis_error e \<and> kv_view r' = kv_view r
      | Inr _ \<Rightarrow> kv_view r' = (kv_view r)(key \<mapsto> (dumps rep v, of_int ttl))"
    using assms set_up [OF _ ttl_pos, of r key "dumps rep v"] set_down [of r key "dumps rep v" ttl]
    by (cases "kv_up r") (auto simp: lookup_store_def store_text_def)
  then show "x = Inr (Some v)" "kv_view r' = kv_view r \<or> kv_view r' = (kv_view r)(key \<mapsto> (dumps rep v, of_int ttl))"
    using assms by (auto simp: lookup_store_def store_text_def split: sum.splits)
qed

lemma cache_ok_store:
  assumes "cache_ok Q T delay t r" "flight_ok Q T delay t old (Fetched q c s v)" "t - s \<le> delay"
    and "\<And>q q'. valid q \<Longrightarrow> valid q' \<Longrightarrow> keyf q = keyf q' \<Longrightarrow> Q q = Q q'"
    and "kv_view r' = (kv_view r)(keyf q \<mapsto> (dumps rep v, of_int ttl))"
  shows "cache_ok Q T delay t r'"
  unfolding cache_ok_def
proof (intro allI impI, elim conjE)
  fix q' doc left
  assume q': "valid q'" "Q q'" "kv_view r' (keyf q') = Some (doc, left)"
  show "0 < left \<and> (\<exists>s v. T \<le> s \<and> s \<le> t \<and> t - s \<le> of_int ttl + delay - left \<and> answers s q' = Inr (Some v) \<and> doc = dumps rep v)"
  proof (cases "keyf q' = keyf q")
    case True
    have "valid q" using assms(2) by simp
    with True q'(1,2) have "answers s q' = answers s q" "Q q" using key_answers [of q' q s] assms(4) [of q' q] by blast+
    moreover from q'(3) assms(5) True have "doc = dumps rep v" "left = of_int ttl" by simp_all
    ultimately show ?thesis using assms(2,3) ttl_pos by (intro conjI exI [of _ s] exI [of _ v]) simp_all
  next
    case False
    with q'(3) assms(5) have "kv_view r (keyf q') = Some (doc, left)" by simp
    from cache_okD [OF assms(1) q'(1,2) this] show ?thesis .
  qed
qed

text \<open>What the cache read returns, if anything, is the database's answer less than a time to live and a delay ago.\<close>

lemma lookup_get_fresh:
  assumes "cache_ok Q T delay t r" "valid q" "Q q" "lookup_get K (keyf q) r = Some x"
  shows "\<exists>s v. x = Inr (Some v) \<and> T \<le> s \<and> s \<le> t \<and> t - s < of_int ttl + delay \<and> answers s q = x"
proof -
  have up: "kv_up r"
  proof (rule ccontr)
    assume "\<not> kv_up r"
    from get_down [OF this, of "keyf q"] assms(4) show False by (auto simp: lookup_get_def cached_text_def)
  qed
  with assms(4) obtain doc left where view: "kv_view r (keyf q) = Some (doc, left)"
    using get_up [OF up, of "keyf q"] by (auto simp: lookup_get_def cached_text_def split: option.splits)
  from cache_okD [OF assms(1-3) view] obtain s v where
    s: "0 < left" "T \<le> s" "s \<le> t" "t - s \<le> of_int ttl + delay - left" "answers s q = Inr (Some v)" "doc = dumps rep v" by blast
  have "loads doc = Inr v" using s(5,6) answers_json loads_dumps by blast
  then have "x = Inr (Some v)"
    using assms(4) view get_up [OF up, of "keyf q"] by (auto simp: lookup_get_def cached_text_def split: if_splits)
  with s show ?thesis by (intro exI [of _ s] exI [of _ v]) auto
qed

lemma flight_ok_later: "flight_ok Q T delay t old f \<Longrightarrow> t \<le> t' \<Longrightarrow> flight_ok Q T delay t' old f"
  by (cases f) auto

lemma flights_ok_upd: "flights_ok Q T delay t old fl \<Longrightarrow> flight_ok Q T delay t (old i) f \<Longrightarrow> flights_ok Q T delay t old (fl(i \<mapsto> f))"
  by (simp add: flights_ok_def)

lemma flights_okD: "flights_ok Q T delay t old fl \<Longrightarrow> fl i = Some f \<Longrightarrow> flight_ok Q T delay t (old i) f"
  by (simp add: flights_ok_def)

lemma lookup_store_ok:
  assumes "cache_ok Q T delay t r" "flight_ok Q T delay t old (Fetched q c s v)" "t - s \<le> delay"
    and "lookup_store K rep (keyf q) ttl v r = (x, r')"
    and "\<And>q q'. valid q \<Longrightarrow> valid q' \<Longrightarrow> keyf q = keyf q' \<Longrightarrow> Q q = Q q'"
  shows "cache_ok Q T delay t r'" and "flight_ok Q T delay t old (Answered q c t x)"
proof -
  note st = lookup_store_cases [OF assms(4)]
  from st(2) show "cache_ok Q T delay t r'"
  proof
    assume "kv_view r' = kv_view r"
    with assms(1) show ?thesis by (simp add: cache_ok_def)
  qed (rule cache_ok_store [OF assms(1-3,5)])
  show "flight_ok Q T delay t old (Answered q c t x)" using assms(2,3) ttl_pos st(1) by auto
qed

lemma lookups_run_ok:
  assumes "lookups_run K rep keyf ttl answers kv_elapse env valid delay start t r fl"
    and "start = (T, r\<^sub>0, fl\<^sub>0)" "cache_ok Q T delay T r\<^sub>0" "flights_ok Q T delay T old fl\<^sub>0" "0 \<le> delay"
    and closed: "\<And>q q'. valid q \<Longrightarrow> valid q' \<Longrightarrow> keyf q = keyf q' \<Longrightarrow> Q q = Q q'"
  shows "cache_ok Q T delay t r \<and> flights_ok Q T delay t old fl \<and> T \<le> t"
  using assms(1)
proof (induction rule: lookups_run.induct)
  case (run_start t r fl)
  with assms(2-4) show ?case by simp
next
  case (run_wait t r fl d)
  then have "flights_ok Q T delay (t + d) old fl"
    unfolding flights_ok_def by (meson flight_ok_later le_add_same_cancel1)
  with run_wait show ?case by (simp add: cache_ok_wait)
next
  case (run_env t r fl r')
  then show ?case by (blast intro: cache_ok_env)
next
  case (run_call t r fl i q)
  then have "flight_ok Q T delay t (old i) (Called q t)" by simp
  with run_call show ?case by (blast intro: flights_ok_upd)
next
  case (run_hit t r fl i q c x)
  then have "flight_ok Q T delay t (old i) (Called q c)" by (blast dest: flights_okD)
  then have "flight_ok Q T delay t (old i) (Answered q c t x)"
    using lookup_get_fresh [of Q T delay t r q x] run_hit by auto
  with run_hit show ?case by (blast intro: flights_ok_upd)
next
  case (run_miss t r fl i q c)
  then have "flight_ok Q T delay t (old i) (Missed q c)" using flights_okD [of Q T delay t old fl i] by auto
  with run_miss show ?case by (blast intro: flights_ok_upd)
next
  case (run_query t r fl i q c v)
  then have "flight_ok Q T delay t (old i) (Fetched q c t v)" using flights_okD [of Q T delay t old fl i] by auto
  with run_query show ?case by (blast intro: flights_ok_upd)
next
  case (run_refuse t r fl i q c)
  then have "flight_ok Q T delay t (old i) (Answered q c t (answers t q))"
    using flights_okD [of Q T delay t old fl i] assms(5) ttl_pos by auto
  with run_refuse show ?case by (blast intro: flights_ok_upd)
next
  case (run_store t r fl i q c s v x r')
  then have f: "flight_ok Q T delay t (old i) (Fetched q c s v)" by (blast dest: flights_okD)
  from lookup_store_ok [OF _ f run_store.hyps(3,4) closed] run_store.IH show ?case by (blast intro: flights_ok_upd)
qed

text \<open>
  What a lookup answers was the database's answer since \<open>T\<close> and less than a time to live and a delay ago; the absence of a
  value, or an error, is the database's answer of a moment during the lookup.
\<close>

lemma lookups_fresh:
  assumes "lookups_run K rep keyf ttl answers kv_elapse env valid delay (T, r\<^sub>0, fl\<^sub>0) t r fl" "0 \<le> delay"
    and "\<And>q q'. valid q \<Longrightarrow> valid q' \<Longrightarrow> keyf q = keyf q' \<Longrightarrow> Q q = Q q'"
    and "\<And>q. valid q \<Longrightarrow> Q q \<Longrightarrow> kv_view r\<^sub>0 (keyf q) = None"
    and "flights_ok Q T delay T old fl\<^sub>0"
    and "fl i = Some (Answered q c a x)" "Q q" "\<not> old i"
  shows "\<exists>s. T \<le> s \<and> s \<le> a \<and> a - s < of_int ttl + delay \<and> answers s q = x \<and> ((\<forall>v. x \<noteq> Inr (Some v)) \<longrightarrow> c \<le> s)"
proof -
  have "cache_ok Q T delay T r\<^sub>0" using assms(4) by (simp add: cache_ok_def)
  from lookups_run_ok [OF assms(1) refl this assms(5,2,3)] have "flights_ok Q T delay t old fl" by blast
  from flights_okD [OF this assms(6)] assms(7,8) show ?thesis by simp
qed

corollary lookups_fresh_start:
  assumes "lookups_run K rep keyf ttl answers kv_elapse env valid delay (T, r\<^sub>0, \<lambda>_. None) t r fl" "0 \<le> delay"
    and "\<And>q. valid q \<Longrightarrow> kv_view r\<^sub>0 (keyf q) = None" and "fl i = Some (Answered q c a x)"
  shows "\<exists>s. T \<le> s \<and> s \<le> a \<and> a - s < of_int ttl + delay \<and> answers s q = x \<and> ((\<forall>v. x \<noteq> Inr (Some v)) \<longrightarrow> c \<le> s)"
  by (rule lookups_fresh [OF assms(1,2), where Q = "\<lambda>_. True" and old = "\<lambda>_. False" and i = i])
    (use assms(3,4) in \<open>simp_all add: flights_ok_def\<close>)

text \<open>
  After a flush of the entries of \<open>Q\<close> at time \<open>T\<close>, with no lookup of \<open>Q\<close> between its read of the database and its write of
  the cache, whatever else is in flight, every result that is still to come is an answer of the database since \<open>T\<close>.
\<close>

corollary lookups_after_flush:
  assumes "lookups_run K rep keyf ttl answers kv_elapse env valid delay (t\<^sub>0, r\<^sub>0, \<lambda>_. None) T r fl"
    and "lookups_run K rep keyf ttl answers kv_elapse env valid delay (T, r', fl) t r'' fl'" "0 \<le> delay"
    and "\<And>q q'. valid q \<Longrightarrow> valid q' \<Longrightarrow> keyf q = keyf q' \<Longrightarrow> Q q = Q q'"
    and "\<And>q. valid q \<Longrightarrow> Q q \<Longrightarrow> kv_view r' (keyf q) = None"
    and "\<And>i q c s v. fl i = Some (Fetched q c s v) \<Longrightarrow> \<not> Q q"
    and "fl' i = Some (Answered q c a x)" "fl' i \<noteq> fl i" "Q q"
  shows "\<exists>s. T \<le> s \<and> s \<le> a \<and> a - s < of_int ttl + delay \<and> answers s q = x"
proof -
  let ?old = "\<lambda>i. \<exists>q c a x. fl i = Some (Answered q c a x)"
  have "cache_ok (\<lambda>_. False) t\<^sub>0 delay t\<^sub>0 r\<^sub>0" "flights_ok (\<lambda>_. False) t\<^sub>0 delay t\<^sub>0 ?old (\<lambda>_. None)"
    by (simp_all add: cache_ok_def flights_ok_def)
  from lookups_run_ok [OF assms(1) refl this assms(3)] have before: "flights_ok (\<lambda>_. False) t\<^sub>0 delay T ?old fl" by simp
  have "flight_ok Q T delay T (?old j) f" if "fl j = Some f" for j f
    using flights_okD [OF before that] assms(6) [of j] that by (cases f) auto
  then have "flights_ok Q T delay T ?old fl" by (simp add: flights_ok_def)
  moreover have "\<not> ?old i" using answer_stays [OF assms(2) refl, of i] assms(8) by auto
  ultimately show ?thesis 
    using lookups_fresh [where Q = Q and old = ?old, OF assms(2,3) assms(4) assms(5) _ assms(7,9)] by blast
qed

text \<open>
  The write that comes too late: a lookup reads the database, the cache is flushed and the database changes before the
  lookup stores what it read, and from then on the old value is served for a whole time to live.
\<close>

lemma lookup_reads:
  assumes "valid q" "kv_up r" "kv_view r (keyf q) = None" "answers t q = Inr (Some v)"
  shows "lookups_run K rep keyf ttl answers kv_elapse env valid delay (t, r, \<lambda>_. None) t r [0 \<mapsto> Fetched q t t v]"
proof -
  have miss: "lookup_get K (keyf q) r = None"
    using get_up [OF assms(2), of "keyf q"] assms(3) by (simp add: lookup_get_def cached_text_def)
  have "lookups_run K rep keyf ttl answers kv_elapse env valid delay (t, r, \<lambda>_. None) t r
      ((\<lambda>_. None)(0 \<mapsto> Called q t, 0 \<mapsto> Missed q t, 0 \<mapsto> Fetched q t t v))"
    by (intro run_query [OF run_miss [OF run_call [OF run_start]]] assms miss) simp_all
  then show ?thesis by simp
qed

lemma fetched_answer:
  assumes "lookups_run K rep keyf ttl answers kv_elapse env valid delay (t\<^sub>0, r\<^sub>0, \<lambda>_. None) t r fl" "0 \<le> delay"
    and "fl i = Some (Fetched q c s v)"
  shows "valid q" and "s \<le> t" and "answers s q = Inr (Some v)"
proof -
  have "cache_ok (\<lambda>_. False) t\<^sub>0 delay t\<^sub>0 r\<^sub>0" "flights_ok (\<lambda>_. False) t\<^sub>0 delay t\<^sub>0 (\<lambda>_. False) (\<lambda>_. None)"
    by (simp_all add: cache_ok_def flights_ok_def)
  from lookups_run_ok [OF assms(1) refl this assms(2)] have "flights_ok (\<lambda>_. False) t\<^sub>0 delay t (\<lambda>_. False) fl" by simp
  from flights_okD [OF this assms(3)] show "valid q" "s \<le> t" "answers s q = Inr (Some v)" by simp_all
qed

lemma late_store_served:
  assumes "fl i = Some (Fetched q c s v)" "fl j = None" "valid q" "json_ok v" "kv_up r" "\<And>r. kv_up (kv_elapse d r) = kv_up r"
    and "t - s \<le> delay" "0 \<le> d" "d < of_int ttl"
  shows "\<exists>r' fl'. lookups_run K rep keyf ttl answers kv_elapse env valid delay (t, r, fl) (t + d) r' fl' \<and>
    fl' j = Some (Answered q (t + d) (t + d) (Inr (Some v)))"
proof -
  let ?run = "lookups_run K rep keyf ttl answers kv_elapse env valid delay (t, r, fl)"
  obtain r\<^sub>1 where r\<^sub>1: "lookup_store K rep (keyf q) ttl v r = (Inr (Some v), r\<^sub>1)" "kv_up r\<^sub>1"
      "kv_view r\<^sub>1 = (kv_view r)(keyf q \<mapsto> (dumps rep v, of_int ttl))"
    using set_up [OF assms(5) ttl_pos, of "keyf q" "dumps rep v"] by (auto simp: lookup_store_def store_text_def)
  let ?r = "kv_elapse d r\<^sub>1" and ?fl = "fl(i \<mapsto> Answered q c t (Inr (Some v)))"
  have "kv_view ?r (keyf q) = Some (dumps rep v, of_int ttl - d)"
    using kv_elapse_view [OF assms(8), of r\<^sub>1 "keyf q"] r\<^sub>1(3) assms(9) by simp
  with r\<^sub>1(2) assms(6) have hit: "lookup_get K (keyf q) ?r = Some (Inr (Some v))"
    using get_up [of ?r "keyf q"] loads_dumps [OF assms(4), of rep] dumps_nonempty [OF assms(4)]
    by (simp add: lookup_get_def cached_text_def)
  have "?run t r fl" by (rule run_start) simp
  then have "?run t r\<^sub>1 ?fl" using assms(1,7) r\<^sub>1(1) by (rule run_store)
  then have "?run (t + d) ?r ?fl" by (rule run_wait) (rule assms(8))
  then have "?run (t + d) ?r (?fl(j \<mapsto> Called q (t + d)))" using assms(1-3) by (intro run_call) auto
  then have "?run (t + d) ?r (?fl(j \<mapsto> Called q (t + d), j \<mapsto> Answered q (t + d) (t + d) (Inr (Some v))))"
    using hit by (intro run_hit) simp_all
  then show ?thesis by fastforce
qed

end

end
