(* ===== verification/Policy.thy ===== *)
theory Policy
  imports Read_Cache
begin

section \<open>Rate-limit policies\<close>

text \<open>
  \<open>gateway/app/policy.py\<close>: which policy applies to a request, read from the table
  \<open>policies\<close> through a cache in Redis. The query is shown to choose the longest route pattern
  that matches as a glob, and the cached lookup to return what the query answered less than
  ten seconds ago, plus what the lookup that cached it took to store it, or, while Redis is down, what it answers now.
\<close>

subsection \<open>The table and the query\<close>

text \<open>The columns of \<open>policies\<close> the code reads or writes.\<close>

record policy_row =
  pr_id :: string
  pr_tenant_id :: string
  pr_route_pattern :: string
  pr_rate_limit_rps :: int
  pr_rate_limit_window_s :: int
  pr_policy_version :: int
  pr_updated_at :: real

text \<open>
  SQL's \<open>text LIKE pattern\<close>: \<open>%\<close> stands for any sequence, \<open>_\<close> for any one character, a
  backslash takes the next character literally, and it is an error to reach a backslash at the
  end of the pattern with text left.
\<close>

function like :: "string \<Rightarrow> string \<Rightarrow> bool res" where
  "like t [] = Inr (t = [])"
| "like [] (c # p) = (if c = CHR ''%'' then like [] p else Inr False)"
| "like (x # t) (c # p) =
     (if c = CHR 0x5C then (case p of [] \<Rightarrow> Inl DatabaseError
                            | d # p' \<Rightarrow> if x = d then like t p' else Inr False)
      else if c = CHR ''%'' then (case like (x # t) p of Inr False \<Rightarrow> like t (c # p) | answer \<Rightarrow> answer)
      else if c = CHR ''_'' \<or> c = x then like t p
      else Inr False)"
  by pat_completeness auto
termination by (relation "measure (\<lambda>(t, p). length t + length p)") auto

text \<open>\<open>replace(route_pattern, '*', '%')\<close>\<close>

definition star_to_percent :: "string \<Rightarrow> string" where
  "star_to_percent p = map (\<lambda>c. if c = CHR ''*'' then CHR ''%'' else c) p"

definition policy_json :: "policy_row \<Rightarrow> json" where
  "policy_json row = JObj [(''rate_limit_rps'', JInt (pr_rate_limit_rps row)),
     (''rate_limit_window_s'', JInt (pr_rate_limit_window_s row)),
     (''policy_version'', JInt (pr_policy_version row))]"

text \<open>
  The rows are in the order the database visits them; among patterns of equal length the query
  leaves the choice to that order.
\<close>

definition fetch_matching_policy :: "policy_row list res \<Rightarrow> string \<Rightarrow> string \<Rightarrow> json option res" where
  "fetch_matching_policy db tenant_id route =
     res_bind db (\<lambda>rows.
     res_bind (res_filter (\<lambda>row. if pr_tenant_id row = tenant_id
                                 then like route (star_to_percent (pr_route_pattern row)) else Inr False) rows)
       (\<lambda>matching. case sort_key (\<lambda>row. - int (length (pr_route_pattern row))) matching of
          [] \<Rightarrow> Inr None
        | row # _ \<Rightarrow> Inr (Some (policy_json row))))"

subsection \<open>The cached lookup\<close>

definition POLICY_CACHE_TTL_S :: int where
  "POLICY_CACHE_TTL_S = 10"

definition policy_key :: "string \<Rightarrow> string \<Rightarrow> string" where
  "policy_key tenant_id route = ''policy:'' @ tenant_id @ '':'' @ route"

definition get_policy :: "'r kv_ops \<Rightarrow> (pyfloat \<Rightarrow> string) \<Rightarrow> policy_row list res \<Rightarrow> string \<Rightarrow> string \<Rightarrow> 'r \<Rightarrow>
    json option res \<times> 'r" where
  "get_policy K rep db tenant_id route r =
     read_through K rep (policy_key tenant_id route) POLICY_CACHE_TTL_S
       (fetch_matching_policy db tenant_id route) r"

subsection \<open>Globs\<close>

text \<open>What a route pattern is meant to say: a star stands for any sequence of characters.\<close>

inductive glob :: "string \<Rightarrow> string \<Rightarrow> bool" where
  glob_end: "glob [] []"
| glob_star: "glob p t \<Longrightarrow> glob (CHR ''*'' # p) (u @ t)"
| glob_char: "c \<noteq> CHR ''*'' \<Longrightarrow> glob p t \<Longrightarrow> glob (c # p) (c # t)"

definition plain_pattern :: "string \<Rightarrow> bool" where
  "plain_pattern p \<longleftrightarrow> CHR ''%'' \<notin> set p \<and> CHR ''_'' \<notin> set p \<and> CHR 0x5C \<notin> set p"

lemma glob_star_step: "glob (CHR ''*'' # p) (x # t) \<longleftrightarrow> glob p (x # t) \<or> glob (CHR ''*'' # p) t"
proof
  assume "glob (CHR ''*'' # p) (x # t)"
  then obtain u t' where u: "x # t = u @ t'" "glob p t'" by (auto elim: glob.cases)
  then show "glob p (x # t) \<or> glob (CHR ''*'' # p) t"
    by (cases u) (auto intro: glob_star)
next
  assume "glob p (x # t) \<or> glob (CHR ''*'' # p) t"
  then show "glob (CHR ''*'' # p) (x # t)"
  proof
    assume "glob p (x # t)" from glob_star [OF this, of "[]"] show ?thesis by simp
  next
    assume "glob (CHR ''*'' # p) t"
    then obtain u t' where "t = u @ t'" "glob p t'" by (auto elim: glob.cases)
    with glob_star [of p t' "x # u"] show ?thesis by simp
  qed
qed

lemma glob_star_empty: "glob (CHR ''*'' # p) [] \<longleftrightarrow> glob p []"
  using glob_star [of p "[]" "[]"] by (auto elim: glob.cases)

lemma glob_lit_step: "c \<noteq> CHR ''*'' \<Longrightarrow> glob (c # p) (x # t) \<longleftrightarrow> x = c \<and> glob p t"
  by (auto elim: glob.cases intro: glob_char)

lemma glob_lit_empty: "c \<noteq> CHR ''*'' \<Longrightarrow> \<not> glob (c # p) []"
  by (auto elim: glob.cases)

lemma glob_Nil: "glob [] t \<longleftrightarrow> t = []"
  by (auto elim: glob.cases intro: glob_end)

lemma like_glob: "plain_pattern p \<Longrightarrow> like t (star_to_percent p) = Inr (glob p t)"
proof (induction "length t + length p" arbitrary: t p rule: less_induct)
  case less
  show ?case
  proof (cases p)
    case Nil
    then show ?thesis by (simp add: star_to_percent_def glob_Nil)
  next
    case (Cons c p')
    then have plain: "plain_pattern p'" and c: "c \<noteq> CHR ''%''" "c \<noteq> CHR ''_''" "c \<noteq> CHR 0x5C"
      using less.prems by (auto simp: plain_pattern_def)
    note rest = less.hyps [OF _ plain]
    show ?thesis
    proof (cases t)
      case Nil
      with rest [of "[]"] Cons c show ?thesis
        by (cases "c = CHR ''*''") (auto simp: star_to_percent_def glob_star_empty glob_lit_empty)
    next
      case t: (Cons x t')
      show ?thesis
      proof (cases "c = CHR ''*''")
        case True
        have "like (x # t') (star_to_percent p') = Inr (glob p' (x # t'))" using rest t Cons by simp
        moreover have "like t' (star_to_percent p) = Inr (glob p t')" using less.hyps [OF _ less.prems] t Cons by simp
        ultimately show ?thesis using True t Cons by (auto simp: star_to_percent_def glob_star_step split: bool.split)
      next
        case False
        with rest [of t'] t Cons c show ?thesis by (auto simp: star_to_percent_def glob_lit_step)
      qed
    qed
  qed
qed

subsection \<open>The query\<close>

definition applies :: "string \<Rightarrow> string \<Rightarrow> policy_row \<Rightarrow> bool" where
  "applies tenant_id route row \<longleftrightarrow> pr_tenant_id row = tenant_id \<and> glob (pr_route_pattern row) route"

lemma fetch_plain:
  assumes "\<And>row. row \<in> set rows \<Longrightarrow> plain_pattern (pr_route_pattern row)"
  shows "fetch_matching_policy (Inr rows) tenant_id route =
    (case sort_key (\<lambda>row. - int (length (pr_route_pattern row))) (filter (applies tenant_id route) rows) of
       [] \<Rightarrow> Inr None | row # _ \<Rightarrow> Inr (Some (policy_json row)))"
proof -
  have "res_filter (\<lambda>row. if pr_tenant_id row = tenant_id
      then like route (star_to_percent (pr_route_pattern row)) else Inr False) rows = Inr (filter (applies tenant_id route) rows)"
    using assms by (intro res_filter_total) (simp add: like_glob applies_def)
  then show ?thesis by (simp add: fetch_matching_policy_def)
qed

lemma sort_key_head:
  assumes "sort_key f xs = x # ys"
  shows "x \<in> set xs" and "\<And>y. y \<in> set xs \<Longrightarrow> f x \<le> f y"
proof -
  have sorted: "sorted (map f (x # ys))" and set: "set (x # ys) = set xs"
    using sorted_sort_key [of f xs] set_sort [of f xs] assms by simp_all
  from set show "x \<in> set xs" by auto
  fix y assume "y \<in> set xs"
  with sorted set show "f x \<le> f y" by auto
qed

text \<open>
  C15: The most specific policy applies. With route patterns that contain no \<open>%\<close>, \<open>_\<close> or
  backslash, the query never fails; it finds nothing exactly when no route pattern of the
  tenant matches the route as a glob, and otherwise returns the values of a matching policy of the tenant
  whose pattern is at least as long as every other matching one.
\<close>

theorem fetch_longest_match:
  assumes "\<forall>row \<in> set rows. plain_pattern (pr_route_pattern row)"
  shows "(case fetch_matching_policy (Inr rows) tenant_id route of
      Inl _ \<Rightarrow> False
    | Inr None \<Rightarrow> \<not> (\<exists>row \<in> set rows. pr_tenant_id row = tenant_id \<and> glob (pr_route_pattern row) route)
    | Inr (Some v) \<Rightarrow> \<exists>row \<in> set rows. pr_tenant_id row = tenant_id \<and> glob (pr_route_pattern row) route \<and>
        v = policy_json row \<and>
        (\<forall>row' \<in> set rows. pr_tenant_id row' = tenant_id \<and> glob (pr_route_pattern row') route \<longrightarrow>
           length (pr_route_pattern row') \<le> length (pr_route_pattern row)))"
proof (cases "sort_key (\<lambda>row. - int (length (pr_route_pattern row))) (filter (applies tenant_id route) rows)")
  case Nil
  then have "filter (applies tenant_id route) rows = []"
    by (metis length_0_conv length_sort)
  then have "\<not> (\<exists>row \<in> set rows. pr_tenant_id row = tenant_id \<and> glob (pr_route_pattern row) route)"
    by (auto simp: filter_empty_conv applies_def)
  moreover have "fetch_matching_policy (Inr rows) tenant_id route = Inr None"
    using assms by (simp add: fetch_plain Nil)
  ultimately show ?thesis by simp
next
  case (Cons row rest)
  have "row \<in> set rows \<and> applies tenant_id route row"
    "\<forall>row' \<in> set rows. applies tenant_id route row' \<longrightarrow> length (pr_route_pattern row') \<le> length (pr_route_pattern row)"
    using sort_key_head [OF Cons] by auto
  moreover have "fetch_matching_policy (Inr rows) tenant_id route = Inr (Some (policy_json row))"
    using assms by (simp add: fetch_plain Cons)
  ultimately show ?thesis by (auto simp: applies_def)
qed

text \<open>Two policies of one tenant, the more specific one stored last.\<close>

definition two_policies :: "policy_row list" where
  "two_policies =
     [\<lparr>pr_id = ''p1'', pr_tenant_id = ''acme'', pr_route_pattern = ''/proxy/*'', pr_rate_limit_rps = 100,
       pr_rate_limit_window_s = 60, pr_policy_version = 1, pr_updated_at = 0\<rparr>,
      \<lparr>pr_id = ''p2'', pr_tenant_id = ''acme'', pr_route_pattern = ''/proxy/admin/*'', pr_rate_limit_rps = 5,
       pr_rate_limit_window_s = 60, pr_policy_version = 3, pr_updated_at = 0\<rparr>]"

lemma two_policies_admin:
  "fetch_matching_policy (Inr two_policies) ''acme'' ''/proxy/admin/x'' =
     Inr (Some (JObj [(''rate_limit_rps'', JInt 5), (''rate_limit_window_s'', JInt 60), (''policy_version'', JInt 3)]))"
  by (simp add: fetch_matching_policy_def two_policies_def star_to_percent_def policy_json_def)

theorem fetch_longest_match_witness:
  "\<exists>row \<in> set two_policies. pr_route_pattern row = ''/proxy/admin/*'' \<and> glob (pr_route_pattern row) ''/proxy/admin/x''"
proof -
  have "\<forall>row \<in> set two_policies. plain_pattern (pr_route_pattern row)"
    by (simp add: two_policies_def plain_pattern_def)
  from fetch_longest_match [OF this, of "''acme''" "''/proxy/admin/x''"] obtain row where
    row: "row \<in> set two_policies" "glob (pr_route_pattern row) ''/proxy/admin/x''"
    "policy_json row = JObj [(''rate_limit_rps'', JInt 5), (''rate_limit_window_s'', JInt 60), (''policy_version'', JInt 3)]"
    unfolding two_policies_admin by auto
  then have "pr_route_pattern row = ''/proxy/admin/*''"
    by (auto simp: two_policies_def policy_json_def)
  with row show ?thesis by blast
qed

text \<open>A pattern with an underscore is not a glob: the underscore matches any character.\<close>

lemma underscore_is_wildcard:
  "like ''/proxy/aXb'' (star_to_percent ''/proxy/a_b'') = Inr True" "\<not> glob ''/proxy/a_b'' ''/proxy/aXb''"
  by (simp_all add: star_to_percent_def glob_lit_step)

subsection \<open>Staleness\<close>

lemma policy_key_inj:
  "CHR '':'' \<notin> set t1 \<Longrightarrow> CHR '':'' \<notin> set t2 \<Longrightarrow> policy_key t1 r1 = policy_key t2 r2 \<longleftrightarrow> t1 = t2 \<and> r1 = r2"
  using append_sep_eq [of "CHR '':''" t1 t2 r1 r2] by (simp add: policy_key_def)

lemma fetch_row:
  assumes "fetch_matching_policy (Inr rows) tenant_id route = Inr (Some v)"
  shows "\<exists>row \<in> set rows. pr_tenant_id row = tenant_id \<and> v = policy_json row"
proof -
  let ?P = "\<lambda>row. if pr_tenant_id row = tenant_id then like route (star_to_percent (pr_route_pattern row)) else Inr False"
  obtain ms row rest where m: "res_filter ?P rows = Inr ms"
    "sort_key (\<lambda>row. - int (length (pr_route_pattern row))) ms = row # rest" "v = policy_json row"
    using assms unfolding fetch_matching_policy_def res_bind_simps res_bind_Inr_iff by (fastforce split: list.split_asm)
  have "row \<in> set ms" by (rule sort_key_head [OF m(2)])
  with res_filter_Inr [OF m(1)] m(3) show ?thesis by (auto split: if_splits)
qed

lemma fetch_json: "fetch_matching_policy db tenant_id route = Inr (Some v) \<Longrightarrow> \<exists>row. v = policy_json row"
proof (cases db)
  case (Inr rows)
  then show "fetch_matching_policy db tenant_id route = Inr (Some v) \<Longrightarrow> ?thesis" using fetch_row by blast
qed (simp add: fetch_matching_policy_def)

lemma policy_json_ok [simp]: "json_ok (policy_json row)"
  by (simp add: policy_json_def)

text \<open>A lookup is named by its tenant, whose identifier is a UUID and so has no colon, and its route.\<close>

definition policy_query :: "string \<times> string \<Rightarrow> bool" where
  "policy_query q \<longleftrightarrow> CHR '':'' \<notin> set (fst q)"

text \<open>
  What else may happen to the server: policy entries may disappear (invalidation, eviction, a
  restart) and Redis may become unreachable or reachable again, but only \<open>get_policy\<close> writes
  policy entries.
\<close>

definition keeps_policies :: "('r \<Rightarrow> string \<Rightarrow> (string \<times> real) option) \<Rightarrow> ('r \<Rightarrow> 'r \<Rightarrow> bool) \<Rightarrow> bool" where
  "keeps_policies kv_view env \<longleftrightarrow> (\<forall>r r' tenant_id route. env r r' \<longrightarrow>
     kv_view r' (policy_key tenant_id route) = None \<or>
     kv_view r' (policy_key tenant_id route) = kv_view r (policy_key tenant_id route))"

lemma policy_cache:
  assumes "redis_kv K kv_up kv_view kv_elapse" "keeps_policies kv_view env"
  shows "read_cache K kv_up kv_view kv_elapse (\<lambda>(tenant_id, route). policy_key tenant_id route) policy_query
    POLICY_CACHE_TTL_S (\<lambda>t (tenant_id, route). fetch_matching_policy (db t) tenant_id route) env"
proof (intro read_cache.intro read_cache_axioms.intro assms(1))
  show "(case q of (tenant_id, route) \<Rightarrow> fetch_matching_policy (db t) tenant_id route) =
      (case q' of (tenant_id, route) \<Rightarrow> fetch_matching_policy (db t) tenant_id route)" if "policy_query q" "policy_query q'" "(case q of (tenant_id, route) \<Rightarrow> policy_key tenant_id route) =
      (case q' of (tenant_id, route) \<Rightarrow> policy_key tenant_id route)" for q q' t
    using that by (cases q; cases q') (simp add: policy_query_def policy_key_inj)
  show "0 < POLICY_CACHE_TTL_S" by (simp add: POLICY_CACHE_TTL_S_def)
  show "json_ok v" if "(case q of (tenant_id, route) \<Rightarrow> fetch_matching_policy (db t) tenant_id route) = Inr (Some v)" for t q v
    using that fetch_json by (cases q) fastforce
  show "kv_view r' (case q of (tenant_id, route) \<Rightarrow> policy_key tenant_id route) = None \<or>
      kv_view r' (case q of (tenant_id, route) \<Rightarrow> policy_key tenant_id route) =
      kv_view r (case q of (tenant_id, route) \<Rightarrow> policy_key tenant_id route)" if "env r r'" for r r' q
    using that assms(2) by (cases q) (auto simp: keeps_policies_def)
qed

text \<open>The reference server as the cache of an arbitrary sequence of database states.\<close>

interpretation ref_policies: read_cache ref_kv ref_up ref_strings ref_kv_elapse
  "\<lambda>(tenant_id, route). policy_key tenant_id route" policy_query POLICY_CACHE_TTL_S
  "\<lambda>t (tenant_id, route). fetch_matching_policy (db t) tenant_id route" rep "\<lambda>r r'. r' = r\<lparr>ref_up := ref_up r'\<rparr>"
  for db rep
  by (rule policy_cache [OF ref.redis_kv_axioms]) (auto simp: keeps_policies_def, metis redis_ref.select_convs(5) redis_ref.surjective redis_ref.update_convs(1))

text \<open>
  Policy lookups in flight together, over a database whose contents change with time. The stages are those of
  \<open>get_policy\<close> (\<open>read_through_stages\<close>).
\<close>

abbreviation policy_lookups ::
    "'r kv_ops \<Rightarrow> (pyfloat \<Rightarrow> string) \<Rightarrow> (real \<Rightarrow> policy_row list res) \<Rightarrow> (real \<Rightarrow> 'r \<Rightarrow> 'r) \<Rightarrow> ('r \<Rightarrow> 'r \<Rightarrow> bool) \<Rightarrow> real \<Rightarrow>
     real \<times> 'r \<times> (nat \<Rightarrow> (string \<times> string) flight option) \<Rightarrow> real \<Rightarrow> 'r \<Rightarrow> (nat \<Rightarrow> (string \<times> string) flight option) \<Rightarrow> bool" where
  "policy_lookups K rep db kv_elapse env \<equiv>
     lookups_run K rep (\<lambda>(tenant_id, route). policy_key tenant_id route) POLICY_CACHE_TTL_S
       (\<lambda>t (tenant_id, route). fetch_matching_policy (db t) tenant_id route) kv_elapse env policy_query"

text \<open>
  C4: How far a policy can be out of date. Take any number of lookups of any tenants and routes, their stages
  interleaved with each other, time passing, invalidations and outages of Redis, over a database that changes in
  any way, starting with no policy in the cache; every lookup that stores a policy does so within \<open>delay\<close> of reading it. Whatever
  a lookup answers was the answer of the query for that tenant and route less than ten seconds plus \<open>delay\<close> before;
  that no policy applies, or that the query fails, is what the query answered while the lookup was running. While
  Redis is down, the whole lookup returns what the query answers now.
\<close>

theorem policy_never_stale:
  assumes "redis_kv K kv_up kv_view kv_elapse" "keeps_policies kv_view env"
    and "policy_lookups K rep db kv_elapse env delay (t\<^sub>0, r\<^sub>0, \<lambda>_. None) t r fl" "0 \<le> delay"
    and "\<forall>tenant route. kv_view r\<^sub>0 (policy_key tenant route) = None"
  shows "(fl i = Some (Answered (tenant_id, route) c a x) \<longrightarrow>
      (\<exists>s. t\<^sub>0 \<le> s \<and> s \<le> a \<and> a - s < 10 + delay \<and> fetch_matching_policy (db s) tenant_id route = x \<and>
         ((\<forall>v. x \<noteq> Inr (Some v)) \<longrightarrow> c \<le> s))) \<and>
    (\<not> kv_up r \<longrightarrow> fst (get_policy K rep (db t) tenant_id route r) = fetch_matching_policy (db t) tenant_id route)"
proof (intro conjI impI)
  note cache = policy_cache [OF assms(1,2), where db = db]
  assume "fl i = Some (Answered (tenant_id, route) c a x)"
  then show "\<exists>s. t\<^sub>0 \<le> s \<and> s \<le> a \<and> a - s < 10 + delay \<and> fetch_matching_policy (db s) tenant_id route = x \<and>
      ((\<forall>v. x \<noteq> Inr (Some v)) \<longrightarrow> c \<le> s)"
    using read_cache.lookups_fresh_start [OF cache assms(3,4)] assms(5) by (force simp: POLICY_CACHE_TTL_S_def)
next
  assume "\<not> kv_up r"
  from redis_kv.read_through_down [OF assms(1) this] show
    "fst (get_policy K rep (db t) tenant_id route r) = fetch_matching_policy (db t) tenant_id route"
    by (simp add: get_policy_def)
qed

text \<open>A lookup that takes a second to store the policy it read, and one that finds it seven seconds later.\<close>

abbreviation admin_policy :: json where
  "admin_policy \<equiv> JObj [(''rate_limit_rps'', JInt 5), (''rate_limit_window_s'', JInt 60), (''policy_version'', JInt 3)]"

theorem policy_never_stale_witness:
  "\<exists>s \<le> (8::real). 8 - s < 11 \<and>
     fetch_matching_policy (if s = 0 then Inr two_policies else Inr []) ''acme'' ''/proxy/admin/x'' = Inr (Some admin_policy)"
proof -
  let ?db = "\<lambda>s::real. if s = 0 then Inr two_policies else Inr []" and ?q = "(''acme'', ''/proxy/admin/x'')"
  let ?run = "policy_lookups ref_kv (\<lambda>_. []) ?db ref_kv_elapse (\<lambda>r r'. r' = r\<lparr>ref_up := ref_up r'\<rparr>) 1 (0, ref_empty, \<lambda>_. None)"
  have q: "policy_query ?q" by (simp add: policy_query_def)
  have up: "ref_up (ref_kv_elapse d r) = ref_up r" for d r by (simp add: ref_kv_elapse_def)
  have "?run 0 ref_empty [0 \<mapsto> Fetched ?q 0 0 admin_policy]"
    by (rule ref_policies.lookup_reads [OF q]) (simp_all add: two_policies_admin)
  then have "?run (0 + 1) (ref_kv_elapse 1 ref_empty) [0 \<mapsto> Fetched ?q 0 0 admin_policy]" by (rule run_wait) simp
  then have run\<^sub>1: "?run 1 (ref_kv_elapse 1 ref_empty) [0 \<mapsto> Fetched ?q 0 0 admin_policy]" by simp
  have "\<exists>r fl. policy_lookups ref_kv (\<lambda>_. []) ?db ref_kv_elapse (\<lambda>r r'. r' = r\<lparr>ref_up := ref_up r'\<rparr>) 1
      (1, ref_kv_elapse 1 ref_empty, [0 \<mapsto> Fetched ?q 0 0 admin_policy]) (1 + 7) r fl \<and>
      fl 1 = Some (Answered ?q (1 + 7) (1 + 7) (Inr (Some admin_policy)))"
    by (rule ref_policies.late_store_served [where s = 0 and i = 0 and c = 0]) (use q in \<open>simp_all add: up POLICY_CACHE_TTL_S_def\<close>)
  then obtain r fl where "?run (1 + 7) r fl" "fl 1 = Some (Answered ?q (1 + 7) (1 + 7) (Inr (Some admin_policy)))"
    using lookups_run_trans [OF _ refl run\<^sub>1] by blast
  then have run: "?run 8 r fl" "fl 1 = Some (Answered ?q 8 8 (Inr (Some admin_policy)))" by simp_all
  have "keeps_policies ref_strings (\<lambda>r r'. r' = r\<lparr>ref_up := ref_up r'\<rparr>)"
    by (auto simp: keeps_policies_def) (metis redis_ref.select_convs(5) redis_ref.surjective redis_ref.update_convs(1))
  from policy_never_stale [OF ref.redis_kv_axioms this run(1), THEN conjunct1, rule_format, OF _ _ run(2)]
  obtain s where "s \<le> 8" "8 - s < 10 + 1" "fetch_matching_policy (?db s) ''acme'' ''/proxy/admin/x'' = Inr (Some admin_policy)" by auto
  then show ?thesis by (intro exI [of _ s]) simp
qed

end
