(* ===== verification/Events.thy ===== *)
theory Events
  imports Aggregate Alert_Worker
begin

section \<open>Request events and their emission\<close>

text \<open>
  \<open>gateway/app/events.py\<close> and \<open>gateway/app/event_emitter.py\<close>: the event the gateway writes for every
  request, its stream fields, and the fire-and-forget emitter. \<open>repr\<close> of a float and SHA-256 are
  arguments. The fields are shown to parse back at both consumers, and the emitter to account
  for every event.
\<close>

subsection \<open>Events\<close>

record request_event =
  re_request_id :: string
  re_tenant_id :: string
  re_endpoint :: string
  re_method :: string
  re_status_code :: int
  re_latency_ms :: pyfloat
  re_rate_limited :: bool
  re_remote_ip_hash :: string
  re_timestamp_ms :: int
  re_query_string :: string
  re_user_agent :: string
  re_traceparent :: string

definition to_redis_fields :: "(pyfloat \<Rightarrow> string) \<Rightarrow> request_event \<Rightarrow> entry_fields" where
  "to_redis_fields rep e =
     [(''request_id'', re_request_id e), (''tenant_id'', re_tenant_id e), (''endpoint'', re_endpoint e),
      (''method'', re_method e), (''status_code'', str_int (re_status_code e)),
      (''latency_ms'', rep (re_latency_ms e)),
      (''rate_limited'', str_int (if re_rate_limited e then 1 else 0)),
      (''remote_ip_hash'', re_remote_ip_hash e), (''timestamp_ms'', str_int (re_timestamp_ms e)),
      (''query_string'', re_query_string e), (''user_agent'', re_user_agent e),
      (''traceparent'', re_traceparent e)]"

text \<open>\<open>request.client.host if request.client else "unknown"\<close>\<close>

definition client_ip :: "string option \<Rightarrow> string" where
  "client_ip client = (case client of None \<Rightarrow> ''unknown'' | Some host \<Rightarrow> host)"

definition hash_ip :: "(string \<Rightarrow> string) \<Rightarrow> string \<Rightarrow> string \<Rightarrow> string" where
  "hash_ip sha256_hex ip tenant_salt = take 16 (sha256_hex (ip @ tenant_salt))"

subsection \<open>The emitter\<close>

definition STREAM_KEY :: string where
  "STREAM_KEY = ''request_events''"

definition STREAM_MAXLEN :: nat where
  "STREAM_MAXLEN = 100000"

record 'r xadd_ops =
  xadd :: "string \<Rightarrow> entry_fields \<Rightarrow> nat \<Rightarrow> 'r \<Rightarrow> string res \<times> 'r"

text \<open>
  \<open>_background_tasks\<close> with the event each task is to write, and the failure counter. A task is
  named by the number of events emitted before it.
\<close>

record emitter =
  em_tasks :: "(nat, request_event) dict"
  em_next :: nat
  em_failures :: nat

definition emitter_init :: emitter where
  "emitter_init = \<lparr>em_tasks = [], em_next = 0, em_failures = 0\<rparr>"

definition emit_event :: "request_event \<Rightarrow> emitter \<Rightarrow> emitter" where
  "emit_event e em = em\<lparr>em_tasks := dict_set (em_next em) e (em_tasks em), em_next := em_next em + 1\<rparr>"

definition emit_task :: "(pyfloat \<Rightarrow> string) \<Rightarrow> 'r xadd_ops \<Rightarrow> request_event \<Rightarrow> 'r \<Rightarrow> unit res \<times> 'r" where
  "emit_task rep X e r =
     (case xadd X STREAM_KEY (to_redis_fields rep e) STREAM_MAXLEN r of
        (Inl x, r') \<Rightarrow> (Inl x, r')
      | (Inr _, r') \<Rightarrow> (Inr (), r'))"

text \<open>How a task ends: with its result, or cancelled.\<close>

datatype outcome = Finished "unit res" | Cancelled

definition on_task_done :: "nat \<Rightarrow> outcome \<Rightarrow> emitter \<Rightarrow> emitter" where
  "on_task_done t out em =
     (let em1 = em\<lparr>em_tasks := dict_pop t (em_tasks em)\<rparr>
      in case out of
           Finished (Inl _) \<Rightarrow> em1\<lparr>em_failures := em_failures em1 + 1\<rparr>
         | _ \<Rightarrow> em1)"

text \<open>
  The event loop: events are emitted, and a task in flight runs to its end or is cancelled. The
  last two components collect the events written and cancelled.
\<close>

inductive emitter_step :: "(pyfloat \<Rightarrow> string) \<Rightarrow> 'r xadd_ops \<Rightarrow>
    emitter \<times> 'r \<times> request_event list \<times> request_event list \<Rightarrow>
    emitter \<times> 'r \<times> request_event list \<times> request_event list \<Rightarrow> bool" for rep X where
  step_emit: "emitter_step rep X (em, r, ws, cs) (emit_event e em, r, ws, cs)"
| step_written: "dict_get (em_tasks em) t = Some e \<Longrightarrow> emit_task rep X e r = (Inr (), r') \<Longrightarrow>
     emitter_step rep X (em, r, ws, cs) (on_task_done t (Finished (Inr ())) em, r', ws @ [e], cs)"
| step_failed: "dict_get (em_tasks em) t = Some e \<Longrightarrow> emit_task rep X e r = (Inl x, r') \<Longrightarrow>
     emitter_step rep X (em, r, ws, cs) (on_task_done t (Finished (Inl x)) em, r', ws, cs)"
| step_cancelled: "dict_get (em_tasks em) t = Some e \<Longrightarrow>
     emitter_step rep X (em, r, ws, cs) (on_task_done t Cancelled em, r, ws, cs @ [e])"

subsection \<open>Properties\<close>

lemma fields_get [simp]:
  "get_field (to_redis_fields rep e) ''tenant_id'' = Inr (re_tenant_id e)"
  "get_field (to_redis_fields rep e) ''endpoint'' = Inr (re_endpoint e)"
  "get_field (to_redis_fields rep e) ''method'' = Inr (re_method e)"
  "get_field (to_redis_fields rep e) ''status_code'' = Inr (str_int (re_status_code e))"
  "get_field (to_redis_fields rep e) ''latency_ms'' = Inr (rep (re_latency_ms e))"
  "get_field (to_redis_fields rep e) ''rate_limited'' = Inr (str_int (if re_rate_limited e then 1 else 0))"
  "get_field (to_redis_fields rep e) ''remote_ip_hash'' = Inr (re_remote_ip_hash e)"
  "get_field (to_redis_fields rep e) ''timestamp_ms'' = Inr (str_int (re_timestamp_ms e))"
  "dict_get (to_redis_fields rep e) ''traceparent'' = Some (re_traceparent e)"
  "dict_get (to_redis_fields rep e) ''query_string'' = Some (re_query_string e)"
  "dict_get (to_redis_fields rep e) ''user_agent'' = Some (re_user_agent e)"
  by (simp_all add: get_field_def to_redis_fields_def)

lemma alert_event_parses:
  "parse_alert_event (to_redis_fields rep e) =
     Some \<lparr>ae_tenant_id = re_tenant_id e, ae_endpoint = re_endpoint e, ae_query_string = re_query_string e,
       ae_user_agent = re_user_agent e, ae_remote_ip_hash = re_remote_ip_hash e, ae_timestamp_ms = re_timestamp_ms e\<rparr>"
  by (simp add: int_field_def parse_alert_event_def get_default_def)

lemma parsed_event_traceparent:
  assumes "parse_event (to_redis_fields rep e) = Some p"
  shows "pe_traceparent p = re_traceparent e"
  using assms by (auto simp: parse_event_def parse_fields_def int_field_def float_field_def split: sum.splits if_splits option.splits)

lemma event_parses:
  assumes "float_of_str (rep (re_latency_ms e)) = Some (re_latency_ms e)"
  shows "parse_event (to_redis_fields rep e) =
      Some \<lparr>pe_tenant_id = re_tenant_id e, pe_endpoint = re_endpoint e, pe_method = re_method e,
        pe_status_code = re_status_code e, pe_latency_ms = re_latency_ms e,
        pe_rate_limited = re_rate_limited e, pe_timestamp_ms = re_timestamp_ms e,
        pe_traceparent = re_traceparent e\<rparr>"
  using assms by (simp add: parse_event_def parse_fields_def int_field_def float_field_def)

text \<open>
  C23: What the gateway writes, the consumers read. For every event whose latency \<open>float\<close> reads
  back from its printed form, both consumers parse the stream fields of the event to exactly its
  values: neither drops it as poison.
\<close>

theorem emitted_events_parse:
  assumes "float_of_str (rep (re_latency_ms e)) = Some (re_latency_ms e)"
  shows "parse_event (to_redis_fields rep e) =
      Some \<lparr>pe_tenant_id = re_tenant_id e, pe_endpoint = re_endpoint e, pe_method = re_method e,
        pe_status_code = re_status_code e, pe_latency_ms = re_latency_ms e,
        pe_rate_limited = re_rate_limited e, pe_timestamp_ms = re_timestamp_ms e,
        pe_traceparent = re_traceparent e\<rparr> \<and>
    parse_alert_event (to_redis_fields rep e) =
      Some \<lparr>ae_tenant_id = re_tenant_id e, ae_endpoint = re_endpoint e, ae_query_string = re_query_string e,
        ae_user_agent = re_user_agent e, ae_remote_ip_hash = re_remote_ip_hash e,
        ae_timestamp_ms = re_timestamp_ms e\<rparr>"
  using event_parses [of rep e, OF assms] by (simp add: alert_event_parses)

definition blocked_request :: request_event where
  "blocked_request = \<lparr>re_request_id = ''r1'', re_tenant_id = ''t1'', re_endpoint = ''/proxy/get'', re_method = ''GET'',
     re_status_code = 429, re_latency_ms = Fin 0, re_rate_limited = True, re_remote_ip_hash = ''ab'',
     re_timestamp_ms = 1700000000000, re_query_string = [], re_user_agent = [], re_traceparent = []\<rparr>"

theorem emitted_events_parse_witness:
  "\<exists>p. parse_event (to_redis_fields (\<lambda>_. ''0.0'') blocked_request) = Some p \<and> pe_rate_limited p \<and> pe_status_code p = 429"
proof -
  have "float_of_str ''0.0'' = Some (Fin 0)"
    by (simp add: float_of_str_def py_strip_def is_space_def split_sign_def py_lower_def lower_char_def
        decimal_literal_def digit_or_underscore_def digit_val_def float_part_def exponent_part_def)
  then show ?thesis
    using emitted_events_parse [of "\<lambda>_. ''0.0''" blocked_request] by (auto simp: blocked_request_def)
qed

text \<open>The tasks in flight are named below \<open>em_next\<close> and the books balance.\<close>

definition emitter_inv :: "emitter \<times> 'r \<times> request_event list \<times> request_event list \<Rightarrow> bool" where
  "emitter_inv = (\<lambda>(em, r, ws, cs). dict_wf (em_tasks em) \<and> (\<forall>t \<in> fst ` set (em_tasks em). t < em_next em) \<and>
     em_next em = length (em_tasks em) + length ws + em_failures em + length cs)"

lemma length_dict_pop:
  assumes "dict_wf d" "dict_get d t = Some e"
  shows "Suc (length (dict_pop t d)) = length d"
proof -
  have t: "t \<in> set (map fst d)" using assms(2) by (metis domI dom_map_of_conv_image_fst list.set_map)
  have "length (dict_pop t d) = length (removeAll t (map fst d))" by (metis delete_keys length_map)
  also have "\<dots> = length (map fst d) - 1"
    using assms(1) t by (simp add: distinct_remove1_removeAll [symmetric] length_remove1)
  finally show ?thesis using t by (cases d) auto
qed

lemma task_done_inv:
  assumes "emitter_inv (em, r, ws, cs)" "dict_get (em_tasks em) t = Some e"
    and "length ws' + n + length cs' = Suc (length ws + em_failures em + length cs)"
  shows "emitter_inv (em\<lparr>em_tasks := dict_pop t (em_tasks em), em_failures := n\<rparr>, r', ws', cs')"
proof -
  have "fst ` set (dict_pop t (em_tasks em)) \<subseteq> fst ` set (em_tasks em)"
    by (metis delete_keys list.set_map removeAll_filter_not_eq filter_is_subset)
  moreover have "\<forall>t \<in> fst ` set (em_tasks em). t < em_next em" using assms(1) unfolding emitter_inv_def prod.case by blast
  ultimately have "\<forall>t' \<in> fst ` set (dict_pop t (em_tasks em)). t' < em_next em" by blast
  moreover have "em_next em = length (dict_pop t (em_tasks em)) + length ws' + n + length cs'"
    using assms length_dict_pop [OF _ assms(2)] by (simp add: emitter_inv_def)
  ultimately show ?thesis using assms(1) by (simp add: emitter_inv_def)
qed

lemma emitter_step_inv: "emitter_step rep X s s' \<Longrightarrow> emitter_inv s \<Longrightarrow> emitter_inv s'"
proof (induction rule: emitter_step.induct)
  case (step_emit em r ws cs e)
  then have "em_next em \<notin> fst ` set (em_tasks em)" by (auto simp: emitter_inv_def)
  then have "dict_set (em_next em) e (em_tasks em) = em_tasks em @ [(em_next em, e)]"
    by (rule dict_set_fresh)
  with step_emit show ?case by (auto simp: emitter_inv_def emit_event_def less_SucI)
next
  case (step_written em t e r r' ws cs)
  then show ?case
    using task_done_inv [of em r ws cs t e "ws @ [e]" "em_failures em" cs r'] by (simp add: on_task_done_def)
next
  case (step_failed em t e r x r' ws cs)
  then show ?case
    using task_done_inv [of em r ws cs t e ws "em_failures em + 1" cs r'] by (simp add: on_task_done_def)
next
  case (step_cancelled em t e r ws cs)
  then show ?case
    using task_done_inv [of em r ws cs t e ws "em_failures em" "cs @ [e]" r] by (simp add: on_task_done_def)
qed

text \<open>
  C30: Every event is accounted for. In every state the emitter can reach, the number of events
  emitted is the number of tasks in flight, plus the events written, plus the failures counted,
  plus the events whose task was cancelled: a failed write is never silent.
\<close>

theorem emitter_accounts_for_events:
  assumes "(emitter_step rep X)\<^sup>*\<^sup>* (emitter_init, r, [], []) (em, r', ws, cs)"
  shows "em_next em = length (em_tasks em) + length ws + em_failures em + length cs"
proof -
  have "emitter_inv s" if "(emitter_step rep X)\<^sup>*\<^sup>* (emitter_init, r, [], []) s" for s
    using that
  proof (induction rule: rtranclp_induct)
    case base
    then show ?case by (simp add: emitter_inv_def emitter_init_def)
  qed (rule emitter_step_inv)
  from this [OF assms] show ?thesis by (simp add: emitter_inv_def)
qed

text \<open>A stream that refuses writes, for the witness.\<close>

definition refusing :: "unit xadd_ops" where
  "refusing = \<lparr>xadd = (\<lambda>_ _ _ r. (Inl RedisConnectionError, r))\<rparr>"

theorem emitter_accounts_for_events_witness:
  "\<exists>em. (emitter_step (\<lambda>_. ''0.0'') refusing)\<^sup>*\<^sup>* (emitter_init, (), [], []) (em, (), [], []) \<and>
     em_tasks em = [] \<and> em_next em = 1 \<and> em_failures em = 1"
proof -
  let ?em1 = "emit_event blocked_request emitter_init"
  let ?em2 = "on_task_done 0 (Finished (Inl RedisConnectionError)) ?em1"
  have "emitter_step (\<lambda>_. ''0.0'') refusing (emitter_init, (), [], []) (?em1, (), [], [])" by (rule step_emit)
  moreover have "emitter_step (\<lambda>_. ''0.0'') refusing (?em1, (), [], []) (?em2, (), [], [])"
    by (rule step_failed [where e = blocked_request])
      (simp_all add: emit_event_def emitter_init_def emit_task_def refusing_def)
  ultimately have run: "(emitter_step (\<lambda>_. ''0.0'') refusing)\<^sup>*\<^sup>* (emitter_init, (), [], []) (?em2, (), [], [])"
    by (rule converse_rtranclp_into_rtranclp [OF _ r_into_rtranclp])
  have "em_tasks ?em2 = []" "em_next ?em2 = 1" by (simp_all add: emit_event_def emitter_init_def on_task_done_def)
  with emitter_accounts_for_events [OF run] run show ?thesis by (intro exI [of _ ?em2]) simp
qed

end
