(* ===== verification/Enforcement.thy ===== *)
theory Enforcement
  imports Rate_Limiter Fallback_Limiter Policy Events
begin

section \<open>Rate limiting on the request path\<close>

text \<open>
  \<open>gateway/app/middleware/rate_limit.py\<close>, with the counters of \<open>gateway/app/metrics.py\<close>: the
  dependency that finds the policy of a request, asks the distributed limiter, falls back to the
  in-memory one while Redis is unreachable, and turns a refusal into a 429 response with an event.
  The state is that of one gateway process: the Redis server it talks to and its module-level
  variables.
\<close>

subsection \<open>The gateway process\<close>

record 'r gateway =
  gw_redis :: 'r
  gw_limiter :: limiter_state
  gw_fallback :: fallback_state
  gw_emitter :: emitter
  gw_requests_total :: "string \<Rightarrow> nat"
  gw_rate_limit_hits :: nat
  gw_latencies :: "real list"

text \<open>
  What the process is linked with: the string and script commands of Redis, the text of the Lua script,
  \<open>repr\<close> of floats, SHA-256, and the setting \<open>rate_limit_fail_open\<close>.
\<close>

record 'r services =
  sv_kv :: "'r kv_ops"
  sv_scripts :: "'r script_ops"
  sv_lua :: string
  sv_repr :: "pyfloat \<Rightarrow> string"
  sv_sha256 :: "string \<Rightarrow> string"
  sv_fail_open :: bool

text \<open>What the handlers read of a request; header names arrive in lower case.\<close>

record http_request =
  rq_method :: string
  rq_url_path :: string
  rq_query :: string
  rq_query_params :: "(string \<times> string) list"
  rq_client :: "string option"
  rq_headers :: "(string \<times> string) list"
  rq_request_id :: string
  rq_body :: string

text \<open>The clock readings, the identifier and the trace context drawn while a request is checked.\<close>

record readings =
  rd_check_time :: real
  rd_check_id :: string
  rd_fallback_time :: real
  rd_event_time :: real
  rd_traceparent :: string

subsection \<open>Metrics\<close>

definition status_class :: "int \<Rightarrow> string" where
  "status_class status_code = str_int (status_code div 100) @ ''xx''"

definition count_request :: "int \<Rightarrow> 'r gateway \<Rightarrow> 'r gateway" where
  "count_request status_code g = g\<lparr>gw_requests_total := (gw_requests_total g)
     (status_class status_code := gw_requests_total g (status_class status_code) + 1)\<rparr>"

subsection \<open>Reading dictionaries\<close>

text \<open>
  \<open>tenant["id"]\<close> and \<open>policy["rate_limit_rps"]\<close>: the dictionaries come from the database or from the cache.
  A value of another type than the code expects is a \<open>TypeError\<close>; the cache never holds one.
\<close>

definition json_item :: "string \<Rightarrow> json \<Rightarrow> json res" where
  "json_item k v = (case v of
     JObj kvs \<Rightarrow> (case dict_get kvs k of None \<Rightarrow> Inl KeyError | Some x \<Rightarrow> Inr x)
   | _ \<Rightarrow> Inl TypeError)"

definition item_str :: "string \<Rightarrow> json \<Rightarrow> string res" where
  "item_str k v = res_bind (json_item k v) (\<lambda>x. case x of JStr s \<Rightarrow> Inr s | _ \<Rightarrow> Inl TypeError)"

definition item_int :: "string \<Rightarrow> json \<Rightarrow> int res" where
  "item_int k v = res_bind (json_item k v) (\<lambda>x. case x of JInt n \<Rightarrow> Inr n | _ \<Rightarrow> Inl TypeError)"

definition policy_limits :: "json \<Rightarrow> (int \<times> int) res" where
  "policy_limits policy = res_bind (item_int ''rate_limit_rps'' policy)
     (\<lambda>rps. res_bind (item_int ''rate_limit_window_s'' policy) (\<lambda>window_s. Inr (rps, window_s)))"

subsection \<open>The check\<close>

record rate_info =
  ri_limit :: "int option"
  ri_remaining :: "int option"

text \<open>The \<open>try\<close> around \<open>check_rate_limit\<close>.\<close>

definition limit_decision :: "'r services \<Rightarrow> readings \<Rightarrow> string \<Rightarrow> string \<Rightarrow> int \<Rightarrow> int \<Rightarrow> 'r gateway \<Rightarrow>
    (bool \<times> int) res \<times> 'r gateway" where
  "limit_decision V rd tenant_id route rps window_s g =
     (case check_rate_limit (sv_scripts V) (sv_lua V) tenant_id route rps window_s (rd_check_time rd) (rd_check_id rd)
             (gw_limiter g) (gw_redis g) of
        (Inr answer, st, r) \<Rightarrow> (Inr answer, g\<lparr>gw_limiter := st, gw_redis := r\<rparr>)
      | (Inl e, st, r) \<Rightarrow>
          (let g1 = g\<lparr>gw_limiter := st, gw_redis := r\<rparr>
           in if \<not> is_redis_error e then (Inl e, g1)
              else if \<not> sv_fail_open V
              then (Inl (HTTPException 503 ''rate limiter unavailable, failing closed'' []), g1)
              else (case in_memory_check tenant_id route rps window_s (rd_fallback_time rd) (gw_fallback g1) of
                      (answer, fb) \<Rightarrow> (Inr answer, g1\<lparr>gw_fallback := fb\<rparr>))))"

text \<open>The event of a request.\<close>

definition user_agent_of :: "http_request \<Rightarrow> string" where
  "user_agent_of q = (case dict_get (rq_headers q) ''user-agent'' of None \<Rightarrow> [] | Some a \<Rightarrow> a)"

definition blocked_event :: "'r services \<Rightarrow> readings \<Rightarrow> http_request \<Rightarrow> string \<Rightarrow> string \<Rightarrow> request_event" where
  "blocked_event V rd q tenant_id salt = \<lparr>re_request_id = rq_request_id q, re_tenant_id = tenant_id,
     re_endpoint = rq_url_path q, re_method = rq_method q, re_status_code = 429, re_latency_ms = Fin 0,
     re_rate_limited = True, re_remote_ip_hash = hash_ip (sv_sha256 V) (client_ip (rq_client q)) salt,
     re_timestamp_ms = py_int (rd_event_time rd * 1000), re_query_string = rq_query q,
     re_user_agent = user_agent_of q, re_traceparent = rd_traceparent rd\<rparr>"

text \<open>The branch \<open>if not allowed\<close>.\<close>

definition reject :: "'r services \<Rightarrow> readings \<Rightarrow> http_request \<Rightarrow> json \<Rightarrow> string \<Rightarrow> int \<Rightarrow> int \<Rightarrow> 'r gateway \<Rightarrow>
    rate_info res \<times> 'r gateway" where
  "reject V rd q tenant tenant_id rps window_s g =
     (case item_str ''ip_hash_salt'' tenant of
        Inl e \<Rightarrow> (Inl e, g)
      | Inr salt \<Rightarrow>
          (let g1 = g\<lparr>gw_emitter := emit_event (blocked_event V rd q tenant_id salt) (gw_emitter g)\<rparr>;
               g2 = g1\<lparr>gw_rate_limit_hits := gw_rate_limit_hits g1 + 1\<rparr>;
               g3 = count_request 429 g2
           in (Inl (HTTPException 429 ''rate limit exceeded''
                 [(''Retry-After'', str_int window_s), (''X-RateLimit-Limit'', str_int rps),
                  (''X-RateLimit-Remaining'', ''0'')]), g3)))"

definition apply_limits :: "'r services \<Rightarrow> readings \<Rightarrow> http_request \<Rightarrow> json \<Rightarrow> string \<Rightarrow> int \<Rightarrow> int \<Rightarrow> 'r gateway \<Rightarrow>
    rate_info res \<times> 'r gateway" where
  "apply_limits V rd q tenant tenant_id rps window_s g =
     (case limit_decision V rd tenant_id (rq_url_path q) rps window_s g of
        (Inl e, g1) \<Rightarrow> (Inl e, g1)
      | (Inr (allowed, remaining), g1) \<Rightarrow>
          if \<not> allowed then reject V rd q tenant tenant_id rps window_s g1
          else (Inr \<lparr>ri_limit = Some rps, ri_remaining = Some remaining\<rparr>, g1))"

definition enforce_rate_limit :: "'r services \<Rightarrow> policy_row list res \<Rightarrow> readings \<Rightarrow> http_request \<Rightarrow> json \<Rightarrow> 'r gateway \<Rightarrow>
    rate_info res \<times> 'r gateway" where
  "enforce_rate_limit V db rd q tenant g =
     (case item_str ''id'' tenant of
        Inl e \<Rightarrow> (Inl e, g)
      | Inr tenant_id \<Rightarrow>
          (case get_policy (sv_kv V) (sv_repr V) db tenant_id (rq_url_path q) (gw_redis g) of
             (Inl e, r) \<Rightarrow> (Inl e, g\<lparr>gw_redis := r\<rparr>)
           | (Inr None, r) \<Rightarrow> (Inr \<lparr>ri_limit = None, ri_remaining = None\<rparr>, g\<lparr>gw_redis := r\<rparr>)
           | (Inr (Some policy), r) \<Rightarrow>
               (case policy_limits policy of
                  Inl e \<Rightarrow> (Inl e, g\<lparr>gw_redis := r\<rparr>)
                | Inr (rps, window_s) \<Rightarrow> apply_limits V rd q tenant tenant_id rps window_s (g\<lparr>gw_redis := r\<rparr>))))"

subsection \<open>What a check leaves alone\<close>

text \<open>The events, counters and latencies of the process.\<close>

definition same_books :: "'r gateway \<Rightarrow> 'r gateway \<Rightarrow> bool" where
  "same_books g g' \<longleftrightarrow> gw_emitter g' = gw_emitter g \<and> gw_requests_total g' = gw_requests_total g \<and>
     gw_rate_limit_hits g' = gw_rate_limit_hits g \<and> gw_latencies g' = gw_latencies g"

lemma same_books_refl [simp]: "same_books g g" "same_books g (g\<lparr>gw_redis := r\<rparr>)"
  by (simp_all add: same_books_def)

lemma same_books_trans: "same_books g g' \<Longrightarrow> same_books g' g'' \<Longrightarrow> same_books g g''"
  by (simp add: same_books_def)

lemma limit_decision_books: "limit_decision V rd tid route rps w g = (x, g') \<Longrightarrow> same_books g g'"
  by (auto simp: limit_decision_def same_books_def Let_def split: prod.splits sum.splits if_splits)

text \<open>The books after a refusal: one event and one count more.\<close>

definition books_of_refusal :: "request_event \<Rightarrow> 'r gateway \<Rightarrow> 'r gateway \<Rightarrow> bool" where
  "books_of_refusal e g g' \<longleftrightarrow> gw_emitter g' = emit_event e (gw_emitter g) \<and>
     gw_requests_total g' = (gw_requests_total g)(''4xx'' := gw_requests_total g ''4xx'' + 1) \<and>
     gw_rate_limit_hits g' = gw_rate_limit_hits g + 1 \<and> gw_latencies g' = gw_latencies g"

definition too_many :: "int \<Rightarrow> int \<Rightarrow> exn" where
  "too_many rps window_s = HTTPException 429 ''rate limit exceeded''
     [(''Retry-After'', str_int window_s), (''X-RateLimit-Limit'', str_int rps), (''X-RateLimit-Remaining'', ''0'')]"

lemma status_class_429: "status_class 429 = ''4xx''"
  by code_simp

lemma reject_books:
  assumes "item_str ''ip_hash_salt'' tenant = Inr salt"
  shows "\<exists>g'. reject V rd q tenant tid rps w g = (Inl (too_many rps w), g') \<and>
    books_of_refusal (blocked_event V rd q tid salt) g g' \<and> gw_redis g' = gw_redis g \<and>
    gw_fallback g' = gw_fallback g \<and> gw_limiter g' = gw_limiter g"
  using assms by (simp add: reject_def too_many_def books_of_refusal_def count_request_def status_class_429)

text \<open>
  What the limiter decides about a request of a tenant, read off the policy that applies and the answer of the check
  alone: the request is admitted, with or without a limit, refused under a limit, or cannot be decided because the
  look-up, the policy or the check failed.
\<close>

datatype verdict = Admits rate_info | Refuses int int | Fails exn

definition limiter_verdict :: "'r services \<Rightarrow> policy_row list res \<Rightarrow> readings \<Rightarrow> http_request \<Rightarrow> string \<Rightarrow> 'r gateway \<Rightarrow> verdict" where
  "limiter_verdict V db rd q tenant_id g =
     (case get_policy (sv_kv V) (sv_repr V) db tenant_id (rq_url_path q) (gw_redis g) of
        (Inl e, r) \<Rightarrow> Fails e
      | (Inr None, r) \<Rightarrow> Admits \<lparr>ri_limit = None, ri_remaining = None\<rparr>
      | (Inr (Some policy), r) \<Rightarrow>
          (case policy_limits policy of
             Inl e \<Rightarrow> Fails e
           | Inr (rps, window_s) \<Rightarrow>
               (case fst (limit_decision V rd tenant_id (rq_url_path q) rps window_s (g\<lparr>gw_redis := r\<rparr>)) of
                  Inl e \<Rightarrow> Fails e
                | Inr (True, remaining) \<Rightarrow> Admits \<lparr>ri_limit = Some rps, ri_remaining = Some remaining\<rparr>
                | Inr (False, remaining) \<Rightarrow> Refuses rps window_s)))"

text \<open>The dependency acts on the verdict: only a refusal is written to the books, once.\<close>

lemma apply_limits_verdict:
  assumes "item_str ''ip_hash_salt'' tenant = Inr salt"
    and "apply_limits V rd q tenant tid rps w g = (x, g')"
  shows "case fst (limit_decision V rd tid (rq_url_path q) rps w g) of
      Inl e \<Rightarrow> x = Inl e \<and> same_books g g'
    | Inr (True, remaining) \<Rightarrow> x = Inr \<lparr>ri_limit = Some rps, ri_remaining = Some remaining\<rparr> \<and> same_books g g'
    | Inr (False, remaining) \<Rightarrow> x = Inl (too_many rps w) \<and> books_of_refusal (blocked_event V rd q tid salt) g g'"
proof -
  obtain d g1 where d: "limit_decision V rd tid (rq_url_path q) rps w g = (d, g1)" by (metis surj_pair)
  note books = limit_decision_books [OF d]
  obtain g2 where "reject V rd q tenant tid rps w g1 = (Inl (too_many rps w), g2)"
    "books_of_refusal (blocked_event V rd q tid salt) g1 g2"
    using reject_books [OF assms(1)] by blast
  with assms(2) books d show ?thesis
    by (auto simp: apply_limits_def same_books_def books_of_refusal_def split: sum.splits if_splits bool.splits)
qed

lemma enforce_verdict:
  assumes "item_str ''id'' tenant = Inr tid" "item_str ''ip_hash_salt'' tenant = Inr salt"
    and "enforce_rate_limit V db rd q tenant g = (x, g')"
  shows "case limiter_verdict V db rd q tid g of
      Admits info \<Rightarrow> x = Inr info \<and> same_books g g'
    | Refuses rps w \<Rightarrow> x = Inl (too_many rps w) \<and> books_of_refusal (blocked_event V rd q tid salt) g g'
    | Fails e \<Rightarrow> x = Inl e \<and> same_books g g'"
proof -
  obtain pol r where pol: "get_policy (sv_kv V) (sv_repr V) db tid (rq_url_path q) (gw_redis g) = (pol, r)"
    by (metis surj_pair)
  consider "pol = Inr None \<or> (\<exists>e. pol = Inl e)" | e policy where "pol = Inr (Some policy)" "policy_limits policy = Inl e"
    | policy rps w where "pol = Inr (Some policy)" "policy_limits policy = Inr (rps, w)"
    by (metis not_None_eq sum.exhaust surj_pair)
  then show ?thesis
  proof cases
    case 3
    with assms(1,3) pol have "apply_limits V rd q tenant tid rps w (g\<lparr>gw_redis := r\<rparr>) = (x, g')"
      by (simp add: enforce_rate_limit_def)
    from apply_limits_verdict [OF assms(2) this] 3 pol show ?thesis
      by (auto simp: limiter_verdict_def same_books_def books_of_refusal_def split: sum.splits bool.splits)
  qed (use assms(1,3) pol in \<open>auto simp: enforce_rate_limit_def limiter_verdict_def\<close>)
qed

end
