(* ===== verification/Gateway_Limits.thy ===== *)
theory Gateway_Limits
  imports Enforcement
begin

section \<open>Rate limiting end to end\<close>

text \<open>
  The whole dependency \<open>enforce_rate_limit\<close>, policy lookup, cache, script and fallback together,
  as a sliding-window limiter in the sense of \<open>Sliding_Log\<close>. The locale \<open>gateway_world\<close> is the one
  server that holds the cached policies, the script and the sorted sets; on it, with Redis
  reachable, the dependency admits at most a policy's limit per window, and, with Redis down, at most
  ten times as many.
\<close>

subsection \<open>Runs of requests\<close>

record gateway_req =
  gr_request :: http_request
  gr_tenant :: json
  gr_readings :: readings

definition request_admitted :: "'a res \<Rightarrow> bool" where
  "request_admitted x = (case x of Inl _ \<Rightarrow> False | Inr _ \<Rightarrow> True)"

lemma request_admitted_simps [simp]: "request_admitted (Inr a)" "\<not> request_admitted (Inl e)"
  by (simp_all add: request_admitted_def)

text \<open>A request at the millisecond \<open>now\<close>, after the time since the previous one has passed on the server.\<close>

definition redis_admit :: "'r services \<Rightarrow> policy_row list \<Rightarrow> (int \<Rightarrow> 'r \<Rightarrow> 'r) \<Rightarrow> int \<Rightarrow> gateway_req \<Rightarrow>
    int \<times> 'r gateway \<Rightarrow> bool \<times> (int \<times> 'r gateway)" where
  "redis_admit V rows elapse now q s =
     (case enforce_rate_limit V (Inr rows) (gr_readings q\<lparr>rd_check_time := of_int now / 1000\<rparr>) (gr_request q) (gr_tenant q)
             ((snd s)\<lparr>gw_redis := elapse (now - fst s) (gw_redis (snd s))\<rparr>) of
        (x, g) \<Rightarrow> (request_admitted x, (now, g)))"

text \<open>A request at the second \<open>now\<close> of an outage.\<close>

definition outage_admit :: "'r services \<Rightarrow> policy_row list \<Rightarrow> real \<Rightarrow> gateway_req \<Rightarrow> 'r gateway \<Rightarrow> bool \<times> 'r gateway" where
  "outage_admit V rows now q g =
     (case enforce_rate_limit V (Inr rows) (gr_readings q\<lparr>rd_fallback_time := now\<rparr>) (gr_request q) (gr_tenant q) g of
        (x, g') \<Rightarrow> (request_admitted x, g'))"

text \<open>
  An authenticated request: its tenant has an identifier, which is a UUID and so has neither a
  colon nor a brace, and a salt.
\<close>

definition authentic :: "gateway_req \<Rightarrow> bool" where
  "authentic q \<longleftrightarrow> (\<exists>tid salt. item_str ''id'' (gr_tenant q) = Inr tid \<and> item_str ''ip_hash_salt'' (gr_tenant q) = Inr salt \<and>
     CHR '':'' \<notin> set tid \<and> CHR ''}'' \<notin> set tid)"

definition request_of :: "string \<Rightarrow> string \<Rightarrow> gateway_req \<Rightarrow> bool" where
  "request_of tenant_id route q \<longleftrightarrow>
     item_str ''id'' (gr_tenant q) = Inr tenant_id \<and> rq_url_path (gr_request q) = route"

lemma policy_limits_json [simp]:
  "policy_limits (policy_json p) = Inr (pr_rate_limit_rps p, pr_rate_limit_window_s p)"
  by (simp add: policy_limits_def item_int_def json_item_def policy_json_def)

lemma enforce_found:
  assumes "item_str ''id'' tenant = Inr tid"
    and "get_policy (sv_kv V) (sv_repr V) db tid (rq_url_path q) (gw_redis g) = (Inr (Some (policy_json p)), r)"
  shows "enforce_rate_limit V db rd q tenant g =
    apply_limits V rd q tenant tid (pr_rate_limit_rps p) (pr_rate_limit_window_s p) (g\<lparr>gw_redis := r\<rparr>)"
  using assms by (simp add: enforce_rate_limit_def)

lemma enforce_not_found:
  assumes "item_str ''id'' tenant = Inr tid"
    and "get_policy (sv_kv V) (sv_repr V) db tid (rq_url_path q) (gw_redis g) = (pol, r)" "\<nexists>v. pol = Inr (Some v)"
  shows "snd (enforce_rate_limit V db rd q tenant g) = g\<lparr>gw_redis := r\<rparr>"
  using assms by (auto simp: enforce_rate_limit_def split: sum.split option.split)

text \<open>A refusal changes nothing but the books.\<close>

lemma apply_limits_decision:
  assumes "item_str ''ip_hash_salt'' tenant = Inr salt"
    and "limit_decision V rd tid (rq_url_path q) rps w g = (Inr (allowed, n), g1)"
  shows "\<exists>x g'. apply_limits V rd q tenant tid rps w g = (x, g') \<and> request_admitted x = allowed \<and>
    gw_redis g' = gw_redis g1 \<and> gw_fallback g' = gw_fallback g1 \<and> gw_limiter g' = gw_limiter g1"
proof (cases allowed)
  case True
  then show ?thesis using assms by (simp add: apply_limits_def)
next
  case False
  obtain g' where "reject V rd q tenant tid rps w g1 = (Inl (too_many rps w), g')" "gw_redis g' = gw_redis g1"
    "gw_fallback g' = gw_fallback g1" "gw_limiter g' = gw_limiter g1"
    using reject_books [OF assms(1)] by blast
  with False assms(2) show ?thesis by (simp add: apply_limits_def)
qed

subsection \<open>One server\<close>

text \<open>
  The commands of one server on one key space: commands on one key leave every other key alone,
  and loading a script leaves all keys alone. Time passing removes strings but does not change them.
\<close>

locale gateway_world =
  limiter_client Z zview zttl elapse "sv_scripts V" up cached_script digest script_sem "sv_lua V" +
  redis_kv "sv_kv V" up kv_view kv_elapse
  for V :: "'r services" and Z zview zttl elapse up cached_script digest script_sem kv_view kv_elapse +
  assumes zrem_other: "k' \<noteq> k \<Longrightarrow> kv_view (zremrangebyscore Z k lo hi r) k' = kv_view r k'"
    and zadd_other: "k' \<noteq> k \<Longrightarrow> kv_view (zadd Z k sc m r) k' = kv_view r k'"
    and pexpire_other: "k' \<noteq> k \<Longrightarrow> kv_view (pexpire Z k ms r) k' = kv_view r k'"
    and zrem_server: "up (zremrangebyscore Z k lo hi r) = up r" "cached_script (zremrangebyscore Z k lo hi r) = cached_script r"
    and zadd_server: "up (zadd Z k sc m r) = up r" "cached_script (zadd Z k sc m r) = cached_script r"
    and pexpire_server: "up (pexpire Z k ms r) = up r" "cached_script (pexpire Z k ms r) = cached_script r"
    and load_strings: "kv_view (snd (script_load (sv_scripts V) b r)) = kv_view r"
    and set_other: "k' \<noteq> k \<Longrightarrow> zview (snd (kv_set_ex (sv_kv V) k v ttl r)) k' = zview r k'"
      "k' \<noteq> k \<Longrightarrow> zttl (snd (kv_set_ex (sv_kv V) k v ttl r)) k' = zttl r k'"
    and set_scripts: "cached_script (snd (kv_set_ex (sv_kv V) k v ttl r)) = cached_script r"
    and elapse_up: "up (elapse d r) = up r"
    and elapse_scripts: "cached_script (elapse d r) h \<in> {None, cached_script r h}"
    and elapse_strings: "kv_view (elapse d r) k = Some (v, left) \<Longrightarrow> \<exists>left'. kv_view r k = Some (v, left')"
begin

subsection \<open>An outage\<close>

lemma decision_outage:
  assumes "\<not> up (gw_redis g)" "sv_fail_open V"
  shows "\<exists>st. limit_decision V rd tid route rps w g =
    (Inr (fst (in_memory_check tid route rps w (rd_fallback_time rd) (gw_fallback g))),
     g\<lparr>gw_limiter := st, gw_fallback := snd (in_memory_check tid route rps w (rd_fallback_time rd) (gw_fallback g))\<rparr>)"
proof -
  obtain e st where "check_rate_limit (sv_scripts V) (sv_lua V) tid route rps w (rd_check_time rd) (rd_check_id rd)
      (gw_limiter g) (gw_redis g) = (Inl e, st, gw_redis g)" "is_redis_error e"
    using check_down [OF assms(1)] by blast
  with assms(2) show ?thesis
    by (intro exI [of _ st]) (simp add: limit_decision_def Let_def split_beta)
qed

lemma outage_step:
  assumes "\<not> up (gw_redis g)" "sv_fail_open V" "item_str ''id'' (gr_tenant q) = Inr tid"
    "item_str ''ip_hash_salt'' (gr_tenant q) = Inr salt"
    "fetch_matching_policy (Inr rows) tid (rq_url_path (gr_request q)) = Inr (Some (policy_json p))"
  defines "req \<equiv> \<lparr>fq_tenant = tid, fq_route = rq_url_path (gr_request q), fq_limit = pr_rate_limit_rps p,
    fq_window_s = pr_rate_limit_window_s p\<rparr>"
  shows "fst (outage_admit V rows now q g) = fst (fallback_check now req (gw_fallback g))"
    and "gw_fallback (snd (outage_admit V rows now q g)) = snd (fallback_check now req (gw_fallback g))"
    and "gw_redis (snd (outage_admit V rows now q g)) = gw_redis g"
proof -
  have pol: "get_policy (sv_kv V) (sv_repr V) (Inr rows) tid (rq_url_path (gr_request q)) (gw_redis g) =
      (Inr (Some (policy_json p)), gw_redis g)"
    using read_through_down [OF assms(1)] assms(5) by (simp add: get_policy_def)
  obtain allowed n fb where c: "in_memory_check tid (rq_url_path (gr_request q)) (pr_rate_limit_rps p)
      (pr_rate_limit_window_s p) now (gw_fallback g) = ((allowed, n), fb)" by (metis surj_pair)
  obtain st where "limit_decision V (gr_readings q\<lparr>rd_fallback_time := now\<rparr>) tid (rq_url_path (gr_request q))
      (pr_rate_limit_rps p) (pr_rate_limit_window_s p) g = (Inr (allowed, n), g\<lparr>gw_limiter := st, gw_fallback := fb\<rparr>)"
    using decision_outage [OF assms(1,2), of "gr_readings q\<lparr>rd_fallback_time := now\<rparr>" tid "rq_url_path (gr_request q)"
      "pr_rate_limit_rps p" "pr_rate_limit_window_s p"] c by auto
  from apply_limits_decision [OF assms(4) this] obtain x g' where
    "apply_limits V (gr_readings q\<lparr>rd_fallback_time := now\<rparr>) (gr_request q) (gr_tenant q) tid (pr_rate_limit_rps p)
       (pr_rate_limit_window_s p) g = (x, g')" "request_admitted x = allowed" "gw_fallback g' = fb" "gw_redis g' = gw_redis g"
    by auto
  with enforce_found [OF assms(3) pol] c
  show "fst (outage_admit V rows now q g) = fst (fallback_check now req (gw_fallback g))"
    "gw_fallback (snd (outage_admit V rows now q g)) = snd (fallback_check now req (gw_fallback g))"
    "gw_redis (snd (outage_admit V rows now q g)) = gw_redis g"
    by (simp_all add: outage_admit_def fallback_check_def req_def)
qed

lemma outage_step_unlimited:
  assumes "\<not> up (gw_redis g)" "item_str ''id'' (gr_tenant q) = Inr tid"
    "\<nexists>v. fetch_matching_policy (Inr rows) tid (rq_url_path (gr_request q)) = Inr (Some v)"
  shows "snd (outage_admit V rows now q g) = g"
proof -
  have "get_policy (sv_kv V) (sv_repr V) (Inr rows) tid (rq_url_path (gr_request q)) (gw_redis g) =
      (fetch_matching_policy (Inr rows) tid (rq_url_path (gr_request q)), gw_redis g)"
    using read_through_down [OF assms(1)] by (simp add: get_policy_def)
  from enforce_not_found [OF assms(2) this assms(3)] show ?thesis
    by (simp add: outage_admit_def split_beta)
qed

subsection \<open>Redis reachable\<close>

text \<open>While the table does not change, every cached policy is what the query answers.\<close>

definition policies_cached :: "policy_row list \<Rightarrow> 'r \<Rightarrow> bool" where
  "policies_cached rows r \<longleftrightarrow> (\<forall>tid route doc left. CHR '':'' \<notin> set tid \<longrightarrow>
     kv_view r (policy_key tid route) = Some (doc, left) \<longrightarrow>
     (\<exists>v. fetch_matching_policy (Inr rows) tid route = Inr (Some v) \<and> doc = dumps (sv_repr V) v))"

definition server_ok :: "policy_row list \<Rightarrow> 'r gateway \<Rightarrow> bool" where
  "server_ok rows g \<longleftrightarrow> up (gw_redis g) \<and> policies_cached rows (gw_redis g) \<and>
     script_sha (gw_limiter g) \<in> {None, Some (digest (sv_lua V))} \<and>
     cached_script (gw_redis g) (digest (sv_lua V)) \<in> {None, Some (sv_lua V)}"

lemma rate_key_not_policy_key: "rate_key t route \<noteq> policy_key t' route'"
  by (simp add: rate_key_def policy_key_def)

lemma script_server:
  "up (snd (sliding_window Z k now w limit i r)) = up r"
  "cached_script (snd (sliding_window Z k now w limit i r)) = cached_script r"
  "k' \<noteq> k \<Longrightarrow> kv_view (snd (sliding_window Z k now w limit i r)) k' = kv_view r k'"
  by (simp_all add: sliding_window_def Let_def zrem_other zadd_other pexpire_other zrem_server zadd_server pexpire_server)

lemma server_ok_elapse: "server_ok rows g \<Longrightarrow> server_ok rows (g\<lparr>gw_redis := elapse d (gw_redis g)\<rparr>)"
  using elapse_scripts [of d "gw_redis g" "digest (sv_lua V)"] elapse_strings [of d "gw_redis g"]
  by (fastforce simp: server_ok_def policies_cached_def elapse_up)

text \<open>The cached lookup is the query, and touches no sorted set.\<close>

lemma get_policy_up:
  assumes "up r" "policies_cached rows r" "CHR '':'' \<notin> set tid"
  obtains r' where "get_policy (sv_kv V) (sv_repr V) (Inr rows) tid route r = (fetch_matching_policy (Inr rows) tid route, r')"
    "up r'" "policies_cached rows r'" "cached_script r' = cached_script r"
    "\<And>t p. zview r' (rate_key t p) = zview r (rate_key t p)" "\<And>t p. zttl r' (rate_key t p) = zttl r (rate_key t p)"
proof (cases "kv_view r (policy_key tid route)")
  case (Some entry)
  then obtain v left where v: "kv_view r (policy_key tid route) = Some (dumps (sv_repr V) v, left)"
    "fetch_matching_policy (Inr rows) tid route = Inr (Some v)"
    using assms(2,3) unfolding policies_cached_def by (metis surj_pair)
  have "json_ok v" using fetch_json [OF v(2)] by auto
  from read_through_hit [OF assms(1) v(1) this] v(2)
  have "get_policy (sv_kv V) (sv_repr V) (Inr rows) tid route r = (fetch_matching_policy (Inr rows) tid route, r)"
    by (simp add: get_policy_def)
  with that assms show thesis by blast
next
  case None
  then have miss: "cached_text (kv_get (sv_kv V) (policy_key tid route) r) = Inr None"
    using assms(1) by (simp add: get_up cached_text_def)
  show thesis
  proof (cases "\<exists>v. fetch_matching_policy (Inr rows) tid route = Inr (Some v)")
    case False
    with read_through_miss [OF assms(1) None]
    have "get_policy (sv_kv V) (sv_repr V) (Inr rows) tid route r = (fetch_matching_policy (Inr rows) tid route, r)"
      unfolding get_policy_def by blast
    with that assms show thesis by blast
  next
    case True
    then obtain v where v: "fetch_matching_policy (Inr rows) tid route = Inr (Some v)" by blast
    define r' where "r' = snd (kv_set_ex (sv_kv V) (policy_key tid route) (dumps (sv_repr V) v) POLICY_CACHE_TTL_S r)"
    have r': "kv_set_ex (sv_kv V) (policy_key tid route) (dumps (sv_repr V) v) POLICY_CACHE_TTL_S r = (Inr (), r')"
      "up r'" "kv_view r' = (kv_view r)(policy_key tid route \<mapsto> (dumps (sv_repr V) v, of_int POLICY_CACHE_TTL_S))"
      using set_up [OF assms(1), of POLICY_CACHE_TTL_S "policy_key tid route" "dumps (sv_repr V) v"]
      by (auto simp: r'_def POLICY_CACHE_TTL_S_def)
    show thesis
    proof (rule that)
      show "get_policy (sv_kv V) (sv_repr V) (Inr rows) tid route r = (fetch_matching_policy (Inr rows) tid route, r')"
        using miss v r'(1) by (simp add: get_policy_def read_through_def store_text_def)
      show "policies_cached rows r'"
        using assms(2,3) v by (auto simp: policies_cached_def r'(3) policy_key_inj)
      show "cached_script r' = cached_script r" by (simp add: r'_def set_scripts)
      show "zview r' (rate_key t p) = zview r (rate_key t p)" "zttl r' (rate_key t p) = zttl r (rate_key t p)" for t p
        by (simp_all add: r'_def set_other rate_key_not_policy_key)
    qed (rule r'(2))
  qed
qed

lemma decision_up:
  assumes ok: "server_ok rows g" and "rd_check_time rd = of_int now / 1000"
  shows "\<exists>r n st. zview r = zview (gw_redis g) \<and> zttl r = zttl (gw_redis g) \<and>
    (let out = sliding_window Z (rate_key tid route) now (w * 1000) rps (rd_check_id rd) r; g' = g\<lparr>gw_limiter := st, gw_redis := snd out\<rparr>
     in limit_decision V rd tid route rps w g = (Inr (fst (fst out) = 1, n), g') \<and> server_ok rows g')"
proof -
  let ?rw = "\<lambda>r. sliding_window Z (rate_key tid route) now (w * 1000) rps (rd_check_id rd) r"
  let ?st = "observe_lua ((gw_limiter g)\<lparr>script_sha := Some (digest (sv_lua V))\<rparr>)"
  have now: "py_int (rd_check_time rd * 1000) = now" using assms(2) by simp
  obtain r where r: "r \<in> {gw_redis g, snd (script_load (sv_scripts V) (sv_lua V) (gw_redis g))}"
    "zview r = zview (gw_redis g)" "zttl r = zttl (gw_redis g)"
    "check_rate_limit (sv_scripts V) (sv_lua V) tid route rps w (rd_check_time rd) (rd_check_id rd) (gw_limiter g) (gw_redis g) =
     script_answer Z (rate_key tid route) now (w * 1000) rps (rd_check_id rd) ?st r"
    using check_answers_at [of "gw_redis g" "gw_limiter g" tid route rps w "rd_check_time rd" "rd_check_id rd"] ok
    unfolding now server_ok_def by blast
  have server: "up r" "kv_view r = kv_view (gw_redis g)" "cached_script r (digest (sv_lua V)) \<in> {None, Some (sv_lua V)}"
    using r(1) ok load_up [of "gw_redis g" "sv_lua V"] load_strings [of "sv_lua V" "gw_redis g"]
    by (auto simp: server_ok_def)
  have allowed: "fst (fst (?rw r)) \<noteq> 0 \<longleftrightarrow> fst (fst (?rw r)) = 1" by (simp add: sliding_window_def Let_def)
  have "limit_decision V rd tid route rps w g =
      (Inr (fst (fst (?rw r)) = 1, snd (fst (?rw r))), g\<lparr>gw_limiter := ?st, gw_redis := snd (?rw r)\<rparr>)"
    by (simp add: limit_decision_def r(4) script_answer_def allowed split_beta)
  moreover have "server_ok rows (g\<lparr>gw_limiter := ?st, gw_redis := snd (?rw r)\<rparr>)"
    using ok server by (simp add: server_ok_def policies_cached_def script_server rate_key_not_policy_key [symmetric] observe_lua_def)
  ultimately show ?thesis using r(2,3) unfolding Let_def by blast
qed

end

subsection \<open>The dependency as a window limiter\<close>

text \<open>A tenant and a route with the policy \<open>policy\<close>, over a table whose windows are positive.\<close>

locale gateway_limits = gateway_world +
  fixes rows :: "policy_row list" and tenant_id route :: string and policy :: policy_row
  assumes found: "fetch_matching_policy (Inr rows) tenant_id route = Inr (Some (policy_json policy))"
    and windows: "row \<in> set rows \<Longrightarrow> 0 < pr_rate_limit_window_s row"
    and tenant_uuid: "CHR '':'' \<notin> set tenant_id" "CHR ''}'' \<notin> set tenant_id"
begin

abbreviation limit :: int where "limit \<equiv> pr_rate_limit_rps policy"
abbreviation window_s :: int where "window_s \<equiv> pr_rate_limit_window_s policy"

lemma window_positive: "0 < window_s"
proof -
  obtain row where "row \<in> set rows" "policy_json policy = policy_json row" using fetch_row [OF found] by blast
  with windows [of row] show ?thesis by (simp add: policy_json_def)
qed

lemma script: "redis_limiter Z zview zttl elapse (window_s * 1000)"
  using window_positive redis_zset_axioms by (intro redis_limiterI) simp_all

text \<open>The relation of the script, on the gateway's server.\<close>

definition gateway_fits :: "int \<Rightarrow> int \<times> 'a gateway \<Rightarrow> int list \<Rightarrow> string set \<Rightarrow> bool" where
  "gateway_fits t s hist used \<longleftrightarrow> server_ok rows (snd s) \<and>
     redis_fits zview zttl (rate_key tenant_id route) (window_s * 1000) t (fst s, gw_redis (snd s)) hist used"

lemma redis_admit_step:
  assumes "server_ok rows g" "item_str ''id'' (gr_tenant q) = Inr tid" "item_str ''ip_hash_salt'' (gr_tenant q) = Inr salt"
    "CHR '':'' \<notin> set tid" "fetch_matching_policy (Inr rows) tid (rq_url_path (gr_request q)) = Inr (Some (policy_json p))"
    and g: "(snd s)\<lparr>gw_redis := elapse (now - fst s) (gw_redis (snd s))\<rparr> = g"
  obtains r g' where "\<forall>t rt. zview r (rate_key t rt) = zview (gw_redis g) (rate_key t rt)"
    "\<forall>t rt. zttl r (rate_key t rt) = zttl (gw_redis g) (rate_key t rt)"
    "gw_redis g' = snd (sliding_window Z (rate_key tid (rq_url_path (gr_request q))) now (pr_rate_limit_window_s p * 1000)
       (pr_rate_limit_rps p) (rd_check_id (gr_readings q)) r)" "server_ok rows g'"
    "redis_admit V rows elapse now q s = (fst (fst (sliding_window Z (rate_key tid (rq_url_path (gr_request q))) now
       (pr_rate_limit_window_s p * 1000) (pr_rate_limit_rps p) (rd_check_id (gr_readings q)) r)) = 1, (now, g'))"
proof -
  let ?rd = "gr_readings q\<lparr>rd_check_time := of_int now / 1000\<rparr>" and ?route = "rq_url_path (gr_request q)"
  obtain r\<^sub>1 where r\<^sub>1: "get_policy (sv_kv V) (sv_repr V) (Inr rows) tid ?route (gw_redis g) = (Inr (Some (policy_json p)), r\<^sub>1)"
    "up r\<^sub>1" "policies_cached rows r\<^sub>1" "cached_script r\<^sub>1 = cached_script (gw_redis g)"
    "\<And>t p. zview r\<^sub>1 (rate_key t p) = zview (gw_redis g) (rate_key t p)" "\<And>t p. zttl r\<^sub>1 (rate_key t p) = zttl (gw_redis g) (rate_key t p)"
    using get_policy_up [of "gw_redis g" rows tid ?route] assms(1,4,5) unfolding server_ok_def by metis
  have ok: "server_ok rows (g\<lparr>gw_redis := r\<^sub>1\<rparr>)" using assms(1) r\<^sub>1(2-4) by (simp add: server_ok_def)
  obtain r n st where d: "zview r = zview r\<^sub>1" "zttl r = zttl r\<^sub>1"
    "let out = sliding_window Z (rate_key tid ?route) now (pr_rate_limit_window_s p * 1000) (pr_rate_limit_rps p) (rd_check_id ?rd) r;
         g' = g\<lparr>gw_redis := r\<^sub>1, gw_limiter := st, gw_redis := snd out\<rparr>
     in limit_decision V ?rd tid ?route (pr_rate_limit_rps p) (pr_rate_limit_window_s p) (g\<lparr>gw_redis := r\<^sub>1\<rparr>) =
          (Inr (fst (fst out) = 1, n), g') \<and> server_ok rows g'"
    using decision_up [OF ok, of ?rd now tid ?route "pr_rate_limit_window_s p" "pr_rate_limit_rps p"] by auto
  let ?out = "sliding_window Z (rate_key tid ?route) now (pr_rate_limit_window_s p * 1000) (pr_rate_limit_rps p) (rd_check_id ?rd) r"
  let ?g = "g\<lparr>gw_redis := r\<^sub>1, gw_limiter := st, gw_redis := snd ?out\<rparr>"
  have dec: "limit_decision V ?rd tid ?route (pr_rate_limit_rps p) (pr_rate_limit_window_s p) (g\<lparr>gw_redis := r\<^sub>1\<rparr>) =
      (Inr (fst (fst ?out) = 1, n), ?g)" and ok': "server_ok rows ?g"
    using d(3) unfolding Let_def by blast+
  from apply_limits_decision [OF assms(3) dec] enforce_found [OF assms(2) r\<^sub>1(1)] obtain x g' where
    "enforce_rate_limit V (Inr rows) ?rd (gr_request q) (gr_tenant q) g = (x, g')" "request_admitted x = (fst (fst ?out) = 1)"
    "gw_redis g' = gw_redis ?g" "gw_limiter g' = gw_limiter ?g" by auto
  then have "redis_admit V rows elapse now q s = (fst (fst ?out) = 1, (now, g'))" "server_ok rows g'" "gw_redis g' = snd ?out"
    using g ok' by (simp_all add: redis_admit_def server_ok_def)
  with r\<^sub>1(5,6) d(1,2) show thesis by (intro that [of r g']) simp_all
qed

lemma gateway_fits_later:
  assumes "gateway_fits t s hist used" "t \<le> now"
  defines "g \<equiv> (snd s)\<lparr>gw_redis := elapse (now - fst s) (gw_redis (snd s))\<rparr>"
  shows "server_ok rows g"
    and "zset_fits (zview (gw_redis g) (rate_key tenant_id route)) (zttl (gw_redis g) (rate_key tenant_id route))
      (window_s * 1000) now hist used"
proof -
  show "server_ok rows g" using assms(1) server_ok_elapse by (simp add: gateway_fits_def g_def)
  from redis_limiter.elapse_fits [OF script, of "rate_key tenant_id route" t "(fst s, gw_redis (snd s))" hist used now] assms
  show "zset_fits (zview (gw_redis g) (rate_key tenant_id route)) (zttl (gw_redis g) (rate_key tenant_id route))
      (window_s * 1000) now hist used"
    by (simp add: gateway_fits_def g_def)
qed

lemma redis_admit_own:
  assumes fits: "gateway_fits t s hist used" "t \<le> now" and q: "authentic q" "request_of tenant_id route q"
    and fresh: "rd_check_id (gr_readings q) \<notin> used"
  shows "fst (redis_admit V rows elapse now q s) = fst (spec_check limit (window_s * 1000) now hist)"
    and "gateway_fits now (snd (redis_admit V rows elapse now q s)) (snd (spec_check limit (window_s * 1000) now hist))
      (insert (rd_check_id (gr_readings q)) used)"
proof -
  note later = gateway_fits_later [OF fits]
  obtain salt where id: "item_str ''id'' (gr_tenant q) = Inr tenant_id" "item_str ''ip_hash_salt'' (gr_tenant q) = Inr salt"
    "rq_url_path (gr_request q) = route" using q by (auto simp: authentic_def request_of_def)
  have found': "fetch_matching_policy (Inr rows) tenant_id (rq_url_path (gr_request q)) = Inr (Some (policy_json policy))"
    using found id(3) by simp
  let ?g = "(snd s)\<lparr>gw_redis := elapse (now - fst s) (gw_redis (snd s))\<rparr>"
  let ?out = "sliding_window Z (rate_key tenant_id route) now (window_s * 1000) limit (rd_check_id (gr_readings q))"
  obtain r g' where step: "\<forall>t rt. zview r (rate_key t rt) = zview (gw_redis ?g) (rate_key t rt)"
      "\<forall>t rt. zttl r (rate_key t rt) = zttl (gw_redis ?g) (rate_key t rt)"
      "gw_redis g' = snd (?out r)" "server_ok rows g'" "redis_admit V rows elapse now q s = (fst (fst (?out r)) = 1, (now, g'))"
    by (rule redis_admit_step [OF later(1) id(1,2) tenant_uuid(1) found' refl, unfolded id(3)])
  have at: "zset_fits (zview r (rate_key tenant_id route)) (zttl r (rate_key tenant_id route)) (window_s * 1000) now hist used"
    using later(2) step(1,2) by simp
  note sim = redis_limiter.script_simulates [OF script at fresh, where limit = limit]
  show "fst (redis_admit V rows elapse now q s) = fst (spec_check limit (window_s * 1000) now hist)"
    using sim(1) step(5) by simp
  show "gateway_fits now (snd (redis_admit V rows elapse now q s)) (snd (spec_check limit (window_s * 1000) now hist))
      (insert (rd_check_id (gr_readings q)) used)"
    using sim(2) step(3-5) by (simp add: gateway_fits_def redis_fits_def)
qed

lemma redis_admit_other:
  assumes fits: "gateway_fits t s hist used" "t \<le> now" and q: "authentic q" "\<not> request_of tenant_id route q"
  shows "gateway_fits now (snd (redis_admit V rows elapse now q s)) hist used"
proof -
  note later = gateway_fits_later [OF fits]
  let ?g = "(snd s)\<lparr>gw_redis := elapse (now - fst s) (gw_redis (snd s))\<rparr>"
  obtain tid salt where id: "item_str ''id'' (gr_tenant q) = Inr tid" "item_str ''ip_hash_salt'' (gr_tenant q) = Inr salt"
    "CHR '':'' \<notin> set tid" "CHR ''}'' \<notin> set tid" using q by (auto simp: authentic_def)
  have key: "rate_key tid (rq_url_path (gr_request q)) \<noteq> rate_key tenant_id route"
    using q(2) id tenant_uuid by (auto simp: rate_key_inj request_of_def)
  show ?thesis
  proof (cases "\<exists>v. fetch_matching_policy (Inr rows) tid (rq_url_path (gr_request q)) = Inr (Some v)")
    case True
    then obtain p where p: "fetch_matching_policy (Inr rows) tid (rq_url_path (gr_request q)) = Inr (Some (policy_json p))"
      "0 < pr_rate_limit_window_s p" using fetch_row windows by blast
    obtain r g' where step: "\<forall>t rt. zview r (rate_key t rt) = zview (gw_redis ?g) (rate_key t rt)"
        "\<forall>t rt. zttl r (rate_key t rt) = zttl (gw_redis ?g) (rate_key t rt)"
        "gw_redis g' = snd (sliding_window Z (rate_key tid (rq_url_path (gr_request q))) now (pr_rate_limit_window_s p * 1000)
           (pr_rate_limit_rps p) (rd_check_id (gr_readings q)) r)"
        "server_ok rows g'" "redis_admit V rows elapse now q s = (fst (fst (sliding_window Z (rate_key tid (rq_url_path (gr_request q))) now
           (pr_rate_limit_window_s p * 1000) (pr_rate_limit_rps p) (rd_check_id (gr_readings q)) r)) = 1, (now, g'))"
      by (rule redis_admit_step [OF later(1) id(1-3) p(1) refl])
    with script_frame [of "pr_rate_limit_window_s p * 1000" "rate_key tenant_id route"] key p(2) later(2)
    show ?thesis by (simp add: gateway_fits_def redis_fits_def)
  next
    case False
    obtain r where r: "get_policy (sv_kv V) (sv_repr V) (Inr rows) tid (rq_url_path (gr_request q)) (gw_redis ?g) =
        (fetch_matching_policy (Inr rows) tid (rq_url_path (gr_request q)), r)"
      "up r" "policies_cached rows r" "cached_script r = cached_script (gw_redis ?g)"
      "\<And>t p. zview r (rate_key t p) = zview (gw_redis ?g) (rate_key t p)" "\<And>t p. zttl r (rate_key t p) = zttl (gw_redis ?g) (rate_key t p)"
      using get_policy_up [of "gw_redis ?g" rows tid "rq_url_path (gr_request q)"] later(1) id(3) unfolding server_ok_def by metis
    have "snd (redis_admit V rows elapse now q s) = (now, ?g\<lparr>gw_redis := r\<rparr>)"
      using enforce_not_found [OF id(1) r(1) False] by (simp add: redis_admit_def split_beta)
    with later r(2-6) show ?thesis by (simp add: gateway_fits_def redis_fits_def server_ok_def)
  qed
qed

text \<open>The relation of the fallback, during an outage.\<close>

definition outage_fits :: "real \<Rightarrow> 'a gateway \<Rightarrow> real list \<Rightarrow> unit set \<Rightarrow> bool" where
  "outage_fits t g hist used \<longleftrightarrow> \<not> up (gw_redis g) \<and>
     fallback_fits (fallback_key tenant_id route) (of_int window_s) t (gw_fallback g) hist used"

lemma outage_admit_own:
  assumes "sv_fail_open V" "window_s \<le> 300" and fits: "outage_fits t g hist used" "t \<le> now"
    and q: "authentic q" "request_of tenant_id route q"
  shows "fst (outage_admit V rows now q g) = fst (spec_check (limit * FALLBACK_MULTIPLIER) (of_int window_s) now hist)"
    and "outage_fits now (snd (outage_admit V rows now q g))
      (snd (spec_check (limit * FALLBACK_MULTIPLIER) (of_int window_s) now hist)) used"
proof -
  let ?q = "\<lparr>fq_tenant = tenant_id, fq_route = route, fq_limit = limit, fq_window_s = window_s\<rparr>"
  have down: "\<not> up (gw_redis g)" using fits(1) by (simp add: outage_fits_def)
  obtain salt where id: "item_str ''id'' (gr_tenant q) = Inr tenant_id" "item_str ''ip_hash_salt'' (gr_tenant q) = Inr salt"
    "rq_url_path (gr_request q) = route" using q by (auto simp: authentic_def request_of_def)
  note step = outage_step [OF down assms(1) id(1,2) found [folded id(3)], of now, unfolded id(3)]
  have at: "fallback_fits (fallback_key tenant_id route) (of_int (fq_window_s ?q)) now (evict_stale now (gw_fallback g)) hist used"
    using fits assms(2) by (auto simp: outage_fits_def EVICT_IDLE_S_def intro: evict_fits)
  have key: "fq_key ?q = fallback_key tenant_id route" by (simp add: fq_key_def)
  show "fst (outage_admit V rows now q g) = fst (spec_check (limit * FALLBACK_MULTIPLIER) (of_int window_s) now hist)"
    using fallback_own(1) [OF at key] step(1) by simp
  show "outage_fits now (snd (outage_admit V rows now q g))
      (snd (spec_check (limit * FALLBACK_MULTIPLIER) (of_int window_s) now hist)) used"
    using fallback_own(2) [OF at key] step(2,3) down by (simp add: outage_fits_def)
qed

lemma outage_admit_other:
  assumes "sv_fail_open V" "window_s \<le> 300" and fits: "outage_fits t g hist used" "t \<le> now"
    and q: "authentic q" "\<not> request_of tenant_id route q"
  shows "outage_fits now (snd (outage_admit V rows now q g)) hist used"
proof -
  have down: "\<not> up (gw_redis g)" using fits(1) by (simp add: outage_fits_def)
  obtain tid salt where id: "item_str ''id'' (gr_tenant q) = Inr tid" "item_str ''ip_hash_salt'' (gr_tenant q) = Inr salt"
    "CHR '':'' \<notin> set tid" using q by (auto simp: authentic_def)
  show ?thesis
  proof (cases "\<exists>v. fetch_matching_policy (Inr rows) tid (rq_url_path (gr_request q)) = Inr (Some v)")
    case False
    from outage_step_unlimited [OF down id(1) False] fits show ?thesis
      by (auto simp: outage_fits_def intro: fallback_fits_later)
  next
    case True
    then obtain p where p: "fetch_matching_policy (Inr rows) tid (rq_url_path (gr_request q)) = Inr (Some (policy_json p))"
      using fetch_row by blast
    have "fallback_fits (fallback_key tenant_id route) (of_int window_s) now (evict_stale now (gw_fallback g)) hist used"
      using fits assms(2) by (auto simp: outage_fits_def EVICT_IDLE_S_def intro: evict_fits)
    from fallback_other [OF this, of "\<lparr>fq_tenant = tid, fq_route = rq_url_path (gr_request q), fq_limit = pr_rate_limit_rps p,
        fq_window_s = pr_rate_limit_window_s p\<rparr>"] outage_step [OF down assms(1) id(1,2) p] q(2) id(1,3) tenant_uuid down
    show ?thesis by (auto simp: outage_fits_def fq_key_def fallback_key_inj request_of_def)
  qed
qed

end

sublocale gateway_limits \<subseteq> redis_run: window_limiter "redis_admit V rows elapse" "request_of tenant_id route"
  "\<lambda>q. {rd_check_id (gr_readings q)}" authentic limit "window_s * 1000" gateway_fits
  by unfold_locales (simp_all add: redis_admit_own redis_admit_other)

sublocale gateway_limits \<subseteq> outage_run: window_limiter "outage_admit V rows" "request_of tenant_id route" "\<lambda>_. {} :: unit set"
  "\<lambda>q. authentic q \<and> sv_fail_open V \<and> window_s \<le> 300" "limit * FALLBACK_MULTIPLIER" "real_of_int window_s" outage_fits
  by unfold_locales (simp_all add: outage_admit_own outage_admit_other)

context gateway_limits
begin

lemma admits_limit:
  assumes "gateway_fits t (t, g) [] {}"
    and "schedule (request_of tenant_id route) (\<lambda>q. {rd_check_id (gr_readings q)}) authentic t {} reqs"
  shows "int (in_window (window_s * 1000) a (admitted (request_of tenant_id route) reqs
      (fst (run_checks (redis_admit V rows elapse) reqs (t, g))))) \<le> max 0 limit"
  by (rule redis_run.run_bound [OF assms])

lemma decides_like_spec:
  assumes "gateway_fits t (t, g) [] {}"
    and "schedule (request_of tenant_id route) (\<lambda>q. {rd_check_id (gr_readings q)}) authentic t {} reqs"
  shows "own_decisions (request_of tenant_id route) reqs (fst (run_checks (redis_admit V rows elapse) reqs (t, g))) =
    fst (spec_run limit (window_s * 1000) (own_times (request_of tenant_id route) reqs) [])"
  by (rule redis_run.run_refines [OF assms])

lemma outage_admits_limit:
  assumes "sv_fail_open V" "window_s \<le> 300" "\<not> up (gw_redis g)" "gw_fallback g = fb_init"
    and "schedule (request_of tenant_id route) (\<lambda>_. {} :: unit set) authentic t {} reqs"
  shows "int (in_window (real_of_int window_s) a (admitted (request_of tenant_id route) reqs
      (fst (run_checks (outage_admit V rows) reqs g)))) \<le> max 0 (limit * FALLBACK_MULTIPLIER)"
proof (rule outage_run.run_bound)
  show "outage_fits t g [] {}" using assms(3,4) by (simp add: outage_fits_def fb_init_fits)
  show "schedule (request_of tenant_id route) (\<lambda>_. {} :: unit set)
      (\<lambda>q. authentic q \<and> sv_fail_open V \<and> window_s \<le> 300) t {} reqs"
    using assms(1,2) by (intro schedule_weaken [OF assms(5)]) simp
qed

end

subsection \<open>The reference server\<close>

text \<open>The reference server as one key space on which time passes for sorted sets and strings alike.\<close>

definition ref_pass :: "int \<Rightarrow> redis_ref \<Rightarrow> redis_ref" where
  "ref_pass d r = ref_kv_elapse (of_int d / 1000) (ref_elapse d r)"

definition ref_services :: "redis_ref services" where
  "ref_services = \<lparr>sv_kv = ref_kv, sv_scripts = ref_script, sv_lua = ''lua'', sv_repr = (\<lambda>_. []),
     sv_sha256 = (\<lambda>s. s), sv_fail_open = True\<rparr>"

lemma ref_services_simps [simp]:
  "sv_kv ref_services = ref_kv" "sv_scripts ref_services = ref_script" "sv_lua ref_services = ''lua''"
  "sv_fail_open ref_services"
  by (simp_all add: ref_services_def)

lemma ref_kv_elapse_zsets [simp]:
  "ref_zview (ref_kv_elapse d r) = ref_zview r" "ref_zttl (ref_kv_elapse d r) = ref_zttl r"
  by (simp_all add: fun_eq_iff ref_zview_def ref_zttl_def ref_kv_elapse_def)

interpretation ref_pass: redis_zset ref_zset ref_zview ref_zttl ref_pass
  by unfold_locales (simp_all add: ref_pass_def ref.zview_finite ref.zcard_view ref.zrem_view ref.zrem_ttl
    ref.zrem_ttl_other ref.zadd_view ref.zadd_ttl ref.pexpire_view ref.pexpire_ttl ref.pexpire_ttl_other
    ref.elapse_view ref.elapse_ttl del: insert_iff)

interpretation ref_world: gateway_world ref_services ref_zset ref_zview ref_zttl ref_pass ref_up ref_scripts
  "\<lambda>b. ''sha1:'' @ b" "\<lambda>_. sliding_window ref_zset" ref_strings ref_kv_elapse
proof (intro gateway_world.intro gateway_world_axioms.intro limiter_client.intro redis_scripts.intro
    ref_pass.redis_zset_axioms)
  show "redis_scripts_axioms ref_zview ref_zttl (sv_scripts ref_services) ref_up ref_scripts (\<lambda>b. ''sha1:'' @ b) (\<lambda>_. sliding_window ref_zset)"
    using ref_client.redis_scripts_axioms by (simp add: redis_scripts_def)
  show "limiter_client_axioms ref_zset (\<lambda>_. sliding_window ref_zset) (sv_lua ref_services)"
    by (simp add: limiter_client_axioms_def)
  show "redis_kv (sv_kv ref_services) ref_up ref_strings ref_kv_elapse"
    using ref.redis_kv_axioms by simp
  fix d r k v left
  assume "ref_strings (ref_pass d r) k = Some (v, left)"
  then show "\<exists>left'. ref_strings r k = Some (v, left')"
    by (auto simp: ref_pass_def ref_kv_elapse_def ref_elapse_def split: option.splits if_splits)
qed (auto simp: ref_zset_def ref_script_def ref_kv_def ref_pass_def ref_kv_elapse_def ref_elapse_def ref_zview_def ref_zttl_def)

interpretation ref_limits: gateway_limits ref_services ref_zset ref_zview ref_zttl ref_pass ref_up ref_scripts
  "\<lambda>b. ''sha1:'' @ b" "\<lambda>_. sliding_window ref_zset" ref_strings ref_kv_elapse two_policies "''acme''" "''/proxy/admin/x''"
  "two_policies ! 1"
  by unfold_locales (use two_policies_admin in \<open>auto simp: two_policies_def policy_json_def\<close>)

subsection \<open>Properties\<close>

text \<open>The relation holds between a server without any key and the empty log.\<close>

lemma fresh_server_fits:
  assumes "gateway_world V Z zview zttl elapse up cached_script digest script_sem kv_view kv_elapse"
    and "fetch_matching_policy (Inr rows) tenant_id route = Inr (Some (policy_json policy))"
    and "\<forall>row \<in> set rows. 0 < pr_rate_limit_window_s row"
    and "CHR '':'' \<notin> set tenant_id" "CHR ''}'' \<notin> set tenant_id"
    and "0 \<le> t" "up (gw_redis g)" "script_sha (gw_limiter g) = None" "cached_script (gw_redis g) = Map.empty"
    and "kv_view (gw_redis g) = Map.empty" "zview (gw_redis g) = (\<lambda>_. Map.empty)"
  shows "gateway_limits V Z zview zttl elapse up cached_script digest script_sem kv_view kv_elapse rows tenant_id route policy"
    and "gateway_limits.gateway_fits V zview zttl up cached_script digest kv_view rows tenant_id route policy t (t, g) [] {}"
proof -
  show limits: "gateway_limits V Z zview zttl elapse up cached_script digest script_sem kv_view kv_elapse rows tenant_id route policy"
    using assms(1-5) by (intro gateway_limits.intro gateway_limits_axioms.intro) auto
  show "gateway_limits.gateway_fits V zview zttl up cached_script digest kv_view rows tenant_id route policy t (t, g) [] {}"
    using assms(6-11) by (simp add: gateway_limits.gateway_fits_def [OF limits] gateway_world.server_ok_def [OF assms(1)]
      gateway_world.policies_cached_def [OF assms(1)] redis_fits_def empty_zset_fits)
qed

text \<open>
  C1: The gateway keeps a policy's limit. Take one Redis server that satisfies the documented behaviour of
  its commands, a policies table with positive windows, and any authenticated requests of
  any tenants to any routes in clock order, each with a fresh identifier, through the
  whole dependency: cached policy lookup, script loading, script, refusal. No half-open interval
  of the window's length contains more admitted requests of a tenant to a route than the limit of
  the policy that applies to them.
\<close>

theorem gateway_window_bound:
  assumes "gateway_world V Z zview zttl elapse up cached_script digest script_sem kv_view kv_elapse"
    and "fetch_matching_policy (Inr rows) tenant_id route = Inr (Some (policy_json policy))"
    and "\<forall>row \<in> set rows. 0 < pr_rate_limit_window_s row"
    and "CHR '':'' \<notin> set tenant_id" "CHR ''}'' \<notin> set tenant_id"
    and "0 \<le> t" "up (gw_redis g)" "script_sha (gw_limiter g) = None" "cached_script (gw_redis g) = Map.empty"
    and "kv_view (gw_redis g) = Map.empty" "zview (gw_redis g) = (\<lambda>_. Map.empty)"
    and "schedule (request_of tenant_id route) (\<lambda>q. {rd_check_id (gr_readings q)}) authentic t {} reqs"
  shows "int (in_window (pr_rate_limit_window_s policy * 1000) a (admitted (request_of tenant_id route) reqs
      (fst (run_checks (redis_admit V rows elapse) reqs (t, g))))) \<le> max 0 (pr_rate_limit_rps policy)"
  by (rule gateway_limits.admits_limit [OF fresh_server_fits [OF assms(1-11)] assms(12)])

text \<open>Eight requests in a row to a route with a limit of five.\<close>

definition probe :: "string \<Rightarrow> gateway_req" where
  "probe i = \<lparr>gr_request = \<lparr>rq_method = ''GET'', rq_url_path = ''/proxy/admin/x'', rq_query = [], rq_query_params = [],
       rq_client = None, rq_headers = [], rq_request_id = i, rq_body = []\<rparr>,
     gr_tenant = JObj [(''id'', JStr ''acme''), (''ip_hash_salt'', JStr ''s'')],
     gr_readings = \<lparr>rd_check_time = 0, rd_check_id = i, rd_fallback_time = 0, rd_event_time = 0, rd_traceparent = []\<rparr>\<rparr>"

definition probes :: "(int \<times> gateway_req) list" where
  "probes = map (\<lambda>i. (int i, probe (replicate i CHR ''x''))) [0, 1, 2, 3, 4, 5, 6, 7]"

lemma probe_simps [simp]: "authentic (probe i)" "request_of ''acme'' ''/proxy/admin/x'' (probe i)" "rd_check_id (gr_readings (probe i)) = i"
  by (simp_all add: authentic_def request_of_def probe_def item_str_def json_item_def)

definition idle_gateway :: "bool \<Rightarrow> redis_ref gateway" where
  "idle_gateway reachable = \<lparr>gw_redis = ref_empty\<lparr>ref_up := reachable\<rparr>, gw_limiter = \<lparr>script_sha = None, lua_observations = 0\<rparr>,
     gw_fallback = fb_init, gw_emitter = emitter_init, gw_requests_total = (\<lambda>_. 0), gw_rate_limit_hits = 0, gw_latencies = []\<rparr>"

lemma idle_gateway_simps [simp]:
  "gw_redis (idle_gateway b) = ref_empty\<lparr>ref_up := b\<rparr>" "script_sha (gw_limiter (idle_gateway b)) = None"
  "gw_fallback (idle_gateway b) = fb_init"
  by (simp_all add: idle_gateway_def)

theorem gateway_window_bound_witness:
  "int (in_window (60 * 1000) (-1) (admitted (request_of ''acme'' ''/proxy/admin/x'') probes
     (fst (run_checks (redis_admit ref_services two_policies ref_pass) probes (0, idle_gateway True))))) \<le> max 0 5"
proof -
  have "schedule (request_of ''acme'' ''/proxy/admin/x'') (\<lambda>q. {rd_check_id (gr_readings q)}) authentic 0 {} probes"
    by (simp add: probes_def numeral_eq_Suc)
  from gateway_window_bound [OF ref_world.gateway_world_axioms ref_limits.found _ _ _ _ _ _ _ _ _ this, of "idle_gateway True" "-1"]
  show ?thesis by (simp add: two_policies_def ref_empty_def ref_zview_def fun_eq_iff)
qed

text \<open>
  C7: An outage multiplies the limit by ten and no more. While Redis is down, with fail-open
  configured and a window of at most 300 seconds, the whole dependency of one gateway process admits
  at most ten times the limit of the policy in the table, in any half-open interval of the window's
  length, whatever the other tenants and routes do.
\<close>

theorem gateway_outage_bound:
  assumes "gateway_world V Z zview zttl elapse up cached_script digest script_sem kv_view kv_elapse"
    and "fetch_matching_policy (Inr rows) tenant_id route = Inr (Some (policy_json policy))"
    and "\<forall>row \<in> set rows. 0 < pr_rate_limit_window_s row"
    and "CHR '':'' \<notin> set tenant_id" "CHR ''}'' \<notin> set tenant_id"
    and "sv_fail_open V" "pr_rate_limit_window_s policy \<le> 300" "\<not> up (gw_redis g)" "gw_fallback g = fb_init"
    and "schedule (request_of tenant_id route) (\<lambda>_. {} :: unit set) authentic t {} reqs"
  shows "int (in_window (real_of_int (pr_rate_limit_window_s policy)) a (admitted (request_of tenant_id route) reqs
      (fst (run_checks (outage_admit V rows) reqs g)))) \<le> max 0 (10 * pr_rate_limit_rps policy)"
proof -
  have limits: "gateway_limits V Z zview zttl elapse up cached_script digest script_sem kv_view kv_elapse rows tenant_id route policy"
    using assms(1-5) by (intro gateway_limits.intro gateway_limits_axioms.intro) auto
  from gateway_limits.outage_admits_limit [OF limits assms(6-10)] show ?thesis
    by (simp add: FALLBACK_MULTIPLIER_def mult.commute)
qed

definition outage_probes :: "(real \<times> gateway_req) list" where
  "outage_probes = map (\<lambda>i. (real i, probe [])) [0, 1, 2, 3, 4, 5, 6, 7]"

theorem gateway_outage_bound_witness:
  "int (in_window (real_of_int 60) (-1) (admitted (request_of ''acme'' ''/proxy/admin/x'') outage_probes
     (fst (run_checks (outage_admit ref_services two_policies) outage_probes (idle_gateway False))))) \<le> max 0 (10 * 5)"
proof -
  have "schedule (request_of ''acme'' ''/proxy/admin/x'') (\<lambda>_. {} :: unit set) authentic 0 {} outage_probes"
    by (simp add: outage_probes_def)
  from gateway_outage_bound [OF ref_world.gateway_world_axioms ref_limits.found _ _ _ _ _ _ _ this, of "idle_gateway False" "-1"]
  show ?thesis by (simp add: two_policies_def)
qed

text \<open>
  C18: A limit is per path, not per policy. The window is keyed by the literal path of the request, so a tenant whose requests go to
  pairwise different paths is never refused, however many there are and however fast, as long as the policies that
  apply (possibly one and the same wildcard policy) allow one request per window.
\<close>

theorem distinct_paths_not_limited:
  assumes "gateway_world V Z zview zttl elapse up cached_script digest script_sem kv_view kv_elapse"
    and "\<forall>row \<in> set rows. 0 < pr_rate_limit_window_s row \<and> 0 < pr_rate_limit_rps row"
    and "CHR '':'' \<notin> set tenant_id" "CHR ''}'' \<notin> set tenant_id"
    and "0 \<le> t" "up (gw_redis g)" "script_sha (gw_limiter g) = None" "cached_script (gw_redis g) = Map.empty"
    and "kv_view (gw_redis g) = Map.empty" "zview (gw_redis g) = (\<lambda>_. Map.empty)"
    and "sorted (t # map fst reqs)" "distinct (map (\<lambda>(t, q). rq_url_path (gr_request q)) reqs)"
    and "\<forall>(t, q) \<in> set reqs. authentic q \<and> item_str ''id'' (gr_tenant q) = Inr tenant_id \<and>
      (\<exists>v. fetch_matching_policy (Inr rows) tenant_id (rq_url_path (gr_request q)) = Inr (Some v))"
  shows "fst (run_checks (redis_admit V rows elapse) reqs (t, g)) = replicate (length reqs) True"
proof (rule nth_equalityI)
  let ?oks = "fst (run_checks (redis_admit V rows elapse) reqs (t, g))"
  fix i assume "i < length ?oks"
  then have i: "i < length reqs" by simp
  define pre post where "pre = take i reqs" and "post = drop (Suc i) reqs"
  obtain t' q where req: "reqs ! i = (t', q)" by (metis surj_pair)
  have reqs: "reqs = pre @ (t', q) # post" using id_take_nth_drop [OF i] req by (simp add: pre_def post_def)
  have oks: "?oks = take i ?oks @ ?oks ! i # drop (Suc i) ?oks" using id_take_nth_drop [of i ?oks] i by simp
  let ?route = "rq_url_path (gr_request q)" and ?own = "request_of tenant_id (rq_url_path (gr_request q))"
  have q: "item_str ''id'' (gr_tenant q) = Inr tenant_id" "\<exists>v. fetch_matching_policy (Inr rows) tenant_id ?route = Inr (Some v)"
    using assms(13) reqs by auto
  then obtain p where p: "fetch_matching_policy (Inr rows) tenant_id ?route = Inr (Some (policy_json p))" "p \<in> set rows"
    using fetch_row by blast
  have others: "\<forall>(t, q) \<in> set pre \<union> set post. \<not> ?own q"
    using assms(12) by (auto simp: reqs request_of_def image_iff)
  have windows: "\<forall>row \<in> set rows. 0 < pr_rate_limit_window_s row" using assms(2) by blast
  note fresh = fresh_server_fits [OF assms(1) p(1) windows assms(3-10)]
  have sched: "schedule ?own (\<lambda>q. {rd_check_id (gr_readings q)}) authentic t {} reqs"
    unfolding reqs using assms(11,13) others by (intro schedule_once) (auto simp: reqs)
  have own: "?own q" using q(1) by (simp add: request_of_def)
  have "own_decisions ?own reqs ?oks = [?oks ! i]"
    using run_lists_once(2) [OF others own, of "take i ?oks" t' "?oks ! i" "drop (Suc i) ?oks"] i oks
    by (metis reqs length_take length_run_checks min.absorb4 pre_def)
  moreover have "own_times ?own reqs = [t']" using run_lists_once(1) [OF others own, of "map (\<lambda>_. True) pre" t'] reqs by simp
  ultimately have "[?oks ! i] = fst (spec_run (pr_rate_limit_rps p) (pr_rate_limit_window_s p * 1000) [t'] [])"
    using gateway_limits.decides_like_spec [OF fresh sched] by simp
  then show "?oks ! i = replicate (length reqs) True ! i" using i p(2) assms(2) by (simp add: spec_check_def recent_def)
qed simp

text \<open>Three requests in the same millisecond under a wildcard policy with a limit of one.\<close>

definition one_per_minute :: "policy_row list" where
  "one_per_minute = [(two_policies ! 0)\<lparr>pr_rate_limit_rps := 1\<rparr>]"

definition spread :: "string \<Rightarrow> gateway_req" where
  "spread p = (probe p)\<lparr>gr_request := gr_request (probe p)\<lparr>rq_url_path := ''/proxy/'' @ p\<rparr>\<rparr>"

theorem distinct_paths_not_limited_witness:
  "fst (run_checks (redis_admit ref_services one_per_minute ref_pass) [(0, spread ''a''), (0, spread ''b''), (0, spread ''c'')]
     (0, idle_gateway True)) = [True, True, True]"
proof -
  have "authentic (spread p) \<and> item_str ''id'' (gr_tenant (spread p)) = Inr ''acme'' \<and>
      rq_url_path (gr_request (spread p)) = ''/proxy/'' @ p" for p
    using probe_simps(1,2) [of p] by (simp add: spread_def authentic_def request_of_def)
  moreover have "\<exists>v. fetch_matching_policy (Inr one_per_minute) ''acme'' (''/proxy/'' @ p) = Inr (Some v)" if "p \<in> {''a'', ''b'', ''c''}" for p
    using that by (auto simp: one_per_minute_def fetch_matching_policy_def two_policies_def star_to_percent_def)
  moreover have "\<forall>row \<in> set one_per_minute. 0 < pr_rate_limit_window_s row \<and> 0 < pr_rate_limit_rps row"
    by (simp add: one_per_minute_def two_policies_def)
  ultimately show ?thesis
    using distinct_paths_not_limited [OF ref_world.gateway_world_axioms, of one_per_minute "''acme''" 0 "idle_gateway True"
        "[(0, spread ''a''), (0, spread ''b''), (0, spread ''c'')]"]
    by (simp add: ref_empty_def ref_zview_def fun_eq_iff)
qed

end
