(* ===== verification/Auth.thy ===== *)
theory Auth
  imports Read_Cache
begin

section \<open>Authentication\<close>

text \<open>
  \<open>gateway/app/auth.py\<close>: the tenant an API key belongs to, read from the table \<open>tenants\<close> by the
  hash of the key, through the same kind of cache as the policies. SHA-256 is the argument
  \<open>sha256_hex\<close>. A key is shown to be accepted only for the tenant that had it less than thirty seconds ago, plus what the
  authentication that cached it took to store it, and refused with 401 only when the database did not know it during the
  authentication.
\<close>

text \<open>The columns of \<open>tenants\<close> the code reads.\<close>

record tenant_row =
  tn_id :: string
  tn_name :: string
  tn_api_key_hash :: string
  tn_upstream_base_url :: string
  tn_ip_hash_salt :: string

definition AUTH_CACHE_TTL_S :: int where
  "AUTH_CACHE_TTL_S = 30"

definition hash_key :: "(string \<Rightarrow> string) \<Rightarrow> string \<Rightarrow> string" where
  "hash_key sha256_hex raw_key = sha256_hex raw_key"

definition tenant_json :: "tenant_row \<Rightarrow> json" where
  "tenant_json row = JObj [(''id'', JStr (tn_id row)), (''name'', JStr (tn_name row)),
     (''upstream_base_url'', JStr (tn_upstream_base_url row)), (''ip_hash_salt'', JStr (tn_ip_hash_salt row))]"

text \<open>\<open>one_or_none\<close> raises when there is more than one row; \<open>api_key_hash\<close> is unique.\<close>

definition lookup_tenant_by_key_hash :: "tenant_row list res \<Rightarrow> string \<Rightarrow> json option res" where
  "lookup_tenant_by_key_hash db key_hash =
     res_bind db (\<lambda>rows. case filter (\<lambda>row. tn_api_key_hash row = key_hash) rows of
        [] \<Rightarrow> Inr None
      | [row] \<Rightarrow> Inr (Some (tenant_json row))
      | _ \<Rightarrow> Inl DatabaseError)"

definition tenant_key :: "string \<Rightarrow> string" where
  "tenant_key key_hash = ''tenant:apikey:'' @ key_hash"

definition get_tenant :: "'r kv_ops \<Rightarrow> (pyfloat \<Rightarrow> string) \<Rightarrow> (string \<Rightarrow> string) \<Rightarrow> tenant_row list res \<Rightarrow> string \<Rightarrow> 'r \<Rightarrow>
    json res \<times> 'r" where
  "get_tenant K rep sha256_hex db x_api_key r =
     (let key_hash = hash_key sha256_hex x_api_key
      in case read_through K rep (tenant_key key_hash) AUTH_CACHE_TTL_S (lookup_tenant_by_key_hash db key_hash) r of
           (Inl e, r') \<Rightarrow> (Inl e, r')
         | (Inr None, r') \<Rightarrow> (Inl (HTTPException 401 ''invalid API key'' []), r')
         | (Inr (Some tenant), r') \<Rightarrow> (Inr tenant, r'))"

subsection \<open>The lookup\<close>

lemma lookup_tenant_Some:
  assumes "lookup_tenant_by_key_hash db h = Inr (Some v)"
  shows "\<exists>rows row. db = Inr rows \<and> row \<in> set rows \<and> tn_api_key_hash row = h \<and> v = tenant_json row"
proof -
  obtain rows row where rows: "db = Inr rows" "filter (\<lambda>row. tn_api_key_hash row = h) rows = [row]" "v = tenant_json row"
    using assms unfolding lookup_tenant_by_key_hash_def res_bind_Inr_iff by (fastforce split: list.split_asm)
  from filter_singletonD [OF rows(2)] have "row \<in> set rows" "tn_api_key_hash row = h" by simp_all
  with rows(1,3) show ?thesis by blast
qed

lemma lookup_tenant_None:
  "lookup_tenant_by_key_hash db h = Inr None \<Longrightarrow>
   \<exists>rows. db = Inr rows \<and> (\<forall>row \<in> set rows. tn_api_key_hash row \<noteq> h)"
  unfolding lookup_tenant_by_key_hash_def res_bind_Inr_iff by (fastforce simp: filter_empty_conv split: list.split_asm)

lemma tenant_json_ok [simp]: "json_ok (tenant_json row)"
  by (simp add: tenant_json_def)

text \<open>Only \<open>get_tenant\<close> writes tenant entries; anything may remove them.\<close>

definition keeps_tenants :: "('r \<Rightarrow> string \<Rightarrow> (string \<times> real) option) \<Rightarrow> ('r \<Rightarrow> 'r \<Rightarrow> bool) \<Rightarrow> bool" where
  "keeps_tenants kv_view env \<longleftrightarrow> (\<forall>r r' h. env r r' \<longrightarrow>
     kv_view r' (tenant_key h) = None \<or> kv_view r' (tenant_key h) = kv_view r (tenant_key h))"

lemma tenant_cache:
  assumes "redis_kv K kv_up kv_view kv_elapse" "keeps_tenants kv_view env"
  shows "read_cache K kv_up kv_view kv_elapse (\<lambda>key. tenant_key (hash_key sha256_hex key)) (\<lambda>_. True)
    AUTH_CACHE_TTL_S (\<lambda>t key. lookup_tenant_by_key_hash (db t) (hash_key sha256_hex key)) env"
proof (intro read_cache.intro read_cache_axioms.intro assms(1))
  show "json_ok v" if "lookup_tenant_by_key_hash (db t) (hash_key sha256_hex key) = Inr (Some v)" for t key v
    using lookup_tenant_Some [OF that] by auto
qed (use assms(2) in \<open>auto simp: tenant_key_def AUTH_CACHE_TTL_S_def keeps_tenants_def\<close>)

interpretation ref_tenants: read_cache ref_kv ref_up ref_strings ref_kv_elapse
  "\<lambda>key. tenant_key (hash_key sha256_hex key)" "\<lambda>_. True" AUTH_CACHE_TTL_S
  "\<lambda>t key. lookup_tenant_by_key_hash (db t) (hash_key sha256_hex key)" rep
  "\<lambda>r r'. ref_strings r' = ref_strings r" for sha256_hex db rep
  by (rule tenant_cache [OF ref.redis_kv_axioms]) (simp add: keeps_tenants_def)

definition tenant_result :: "json option res \<Rightarrow> json res" where
  "tenant_result answer = res_bind answer (\<lambda>found. case found of
     None \<Rightarrow> Inl (HTTPException 401 ''invalid API key'' []) | Some v \<Rightarrow> Inr v)"

lemma get_tenant_parts:
  "fst (get_tenant K rep sha256_hex db key r) = tenant_result (fst (read_through K rep
     (tenant_key (hash_key sha256_hex key)) AUTH_CACHE_TTL_S (lookup_tenant_by_key_hash db (hash_key sha256_hex key)) r))"
  "snd (get_tenant K rep sha256_hex db key r) = snd (read_through K rep
     (tenant_key (hash_key sha256_hex key)) AUTH_CACHE_TTL_S (lookup_tenant_by_key_hash db (hash_key sha256_hex key)) r)"
  by (auto simp: get_tenant_def tenant_result_def Let_def split: prod.split sum.split option.split)

text \<open>While Redis is down the database decides.\<close>

lemma get_tenant_down:
  assumes "redis_kv K kv_up kv_view kv_elapse" "\<not> kv_up r"
  shows "fst (get_tenant K rep sha256_hex db key r) =
    tenant_result (lookup_tenant_by_key_hash db (hash_key sha256_hex key))"
  by (simp add: get_tenant_parts redis_kv.read_through_down [OF assms])

lemma tenant_result_Inr: "tenant_result answer = Inr v \<longleftrightarrow> answer = Inr (Some v)"
  by (auto simp: tenant_result_def res_bind_Inr_iff split: option.splits)

text \<open>Authentications in flight together; the stages are those of \<open>get_tenant\<close> (\<open>get_tenant_parts\<close>, \<open>read_through_stages\<close>).\<close>

abbreviation tenant_lookups ::
    "'r kv_ops \<Rightarrow> (pyfloat \<Rightarrow> string) \<Rightarrow> (string \<Rightarrow> string) \<Rightarrow> (real \<Rightarrow> tenant_row list res) \<Rightarrow> (real \<Rightarrow> 'r \<Rightarrow> 'r) \<Rightarrow> ('r \<Rightarrow> 'r \<Rightarrow> bool) \<Rightarrow> real \<Rightarrow>
     real \<times> 'r \<times> (nat \<Rightarrow> string flight option) \<Rightarrow> real \<Rightarrow> 'r \<Rightarrow> (nat \<Rightarrow> string flight option) \<Rightarrow> bool" where
  "tenant_lookups K rep sha256_hex db kv_elapse env \<equiv>
     lookups_run K rep (\<lambda>key. tenant_key (hash_key sha256_hex key)) AUTH_CACHE_TTL_S
       (\<lambda>t key. lookup_tenant_by_key_hash (db t) (hash_key sha256_hex key)) kv_elapse env (\<lambda>_. True)"

text \<open>
  C9: Who gets in. Take any number of authentications, their stages interleaved with each other, time passing and
  outages of Redis, over a tenants table that changes in any way, starting with an empty cache; every one that stores a
  tenant does so within \<open>delay\<close> of reading it. A key that is accepted had a row in the table, with the returned
  values, less than thirty seconds plus \<open>delay\<close> before: a revoked or rotated key stops working by then. A key that is refused
  with 401 was in no row of the table at some moment during the authentication, however Redis behaves, and every other
  failure is one of the database during it.
\<close>

theorem auth_never_stale:
  assumes "redis_kv K kv_up kv_view kv_elapse" "keeps_tenants kv_view env"
    and "tenant_lookups K rep sha256_hex db kv_elapse env delay (t\<^sub>0, r\<^sub>0, \<lambda>_. None) t r fl" "0 \<le> delay"
    and "\<forall>h. kv_view r\<^sub>0 (tenant_key h) = None"
    and "fl i = Some (Answered key c a x)"
  shows "case tenant_result x of
      Inr v \<Rightarrow> \<exists>s rows row. s \<le> a \<and> a - s < 30 + delay \<and> db s = Inr rows \<and> row \<in> set rows \<and>
         tn_api_key_hash row = sha256_hex key \<and> v = tenant_json row
    | Inl e \<Rightarrow> \<exists>s. c \<le> s \<and> s \<le> a \<and> (case lookup_tenant_by_key_hash (db s) (sha256_hex key) of
         Inr _ \<Rightarrow> e = HTTPException 401 ''invalid API key'' [] \<and>
           (\<exists>rows. db s = Inr rows \<and> (\<forall>row \<in> set rows. tn_api_key_hash row \<noteq> sha256_hex key))
       | Inl e' \<Rightarrow> e = e')"
proof -
  note cache = tenant_cache [OF assms(1,2), where db = db and sha256_hex = sha256_hex]
  obtain s where s: "s \<le> a" "a - s < 30 + delay" "lookup_tenant_by_key_hash (db s) (sha256_hex key) = x"
    "(\<forall>v. x \<noteq> Inr (Some v)) \<longrightarrow> c \<le> s"
    using read_cache.lookups_fresh_start [OF cache assms(3,4) _ assms(6)] assms(5) by (auto simp: AUTH_CACHE_TTL_S_def hash_key_def)
  show ?thesis
  proof (cases x)
    case (Inl e)
    with s show ?thesis by (auto simp: tenant_result_def)
  next
    case (Inr found)
    then show ?thesis
    proof (cases found)
      case None
      with s(3) Inr have "\<exists>rows. db s = Inr rows \<and> (\<forall>row \<in> set rows. tn_api_key_hash row \<noteq> sha256_hex key)"
        by (blast dest: lookup_tenant_None)
      with s None Inr show ?thesis by (auto simp: tenant_result_def)
    next
      case (Some v)
      with s(3) Inr lookup_tenant_Some [of "db s" "sha256_hex key" v] s(1,2) show ?thesis by (auto simp: tenant_result_def)
    qed
  qed
qed

definition acme_row :: tenant_row where
  "acme_row = \<lparr>tn_id = ''acme'', tn_name = ''acme-corp'', tn_api_key_hash = ''h:sk'',
     tn_upstream_base_url = ''http://up'', tn_ip_hash_salt = ''s''\<rparr>"

text \<open>The key is in the table at time 0 and then revoked; the authentication that read it stores it a second later, and it is accepted at time 30.\<close>

theorem auth_never_stale_witness:
  "\<exists>s rows row. s \<le> (30::real) \<and> 30 - s < 31 \<and> (if s = 0 then Inr [acme_row] else Inr []) = (Inr rows :: tenant_row list res) \<and>
     row \<in> set rows \<and> tn_api_key_hash row = ''h:sk'' \<and> tenant_json acme_row = tenant_json row"
proof -
  let ?db = "\<lambda>s::real. if s = 0 then Inr [acme_row] else Inr []" and ?sha = "(@) ''h:''" and ?rep = "\<lambda>_::pyfloat. []"
  let ?env = "\<lambda>r r'. ref_strings r' = ref_strings r" and ?v = "tenant_json acme_row" and ?fl = "[0 \<mapsto> Fetched ''sk'' 0 0 (tenant_json acme_row)]"
  let ?run = "tenant_lookups ref_kv ?rep ?sha ?db ref_kv_elapse ?env 1"
  have up: "ref_up (ref_kv_elapse d r) = ref_up r" for d r by (simp add: ref_kv_elapse_def)
  have "?run (0, ref_empty, \<lambda>_. None) 0 ref_empty ?fl"
    by (rule ref_tenants.lookup_reads) (simp_all add: lookup_tenant_by_key_hash_def hash_key_def acme_row_def)
  then have "?run (0, ref_empty, \<lambda>_. None) (0 + 1) (ref_kv_elapse 1 ref_empty) ?fl" by (rule run_wait) simp
  then have run\<^sub>1: "?run (0, ref_empty, \<lambda>_. None) 1 (ref_kv_elapse 1 ref_empty) ?fl" by simp
  have "\<exists>r fl. ?run (1, ref_kv_elapse 1 ref_empty, ?fl) (1 + 29) r fl \<and> fl 1 = Some (Answered ''sk'' (1 + 29) (1 + 29) (Inr (Some ?v)))"
    by (rule ref_tenants.late_store_served [where s = 0 and i = 0 and c = 0]) (simp_all add: up AUTH_CACHE_TTL_S_def)
  then obtain r fl where "?run (0, ref_empty, \<lambda>_. None) (1 + 29) r fl" "fl 1 = Some (Answered ''sk'' (1 + 29) (1 + 29) (Inr (Some ?v)))"
    using lookups_run_trans [OF _ refl run\<^sub>1] by blast
  then have run: "?run (0, ref_empty, \<lambda>_. None) 30 r fl" "fl 1 = Some (Answered ''sk'' 30 30 (Inr (Some ?v)))" by simp_all
  have "keeps_tenants ref_strings ?env" by (simp add: keeps_tenants_def)
  from auth_never_stale [OF ref.redis_kv_axioms this run(1) _ _ run(2)]
  show ?thesis by (simp add: tenant_result_def)
qed

end
