(* ===== verification/Proxy.thy ===== *)
theory Proxy
  imports Enforcement Auth
begin

section \<open>The reverse proxy\<close>

text \<open>
  \<open>gateway/app/routes/proxy.py\<close>, \<open>gateway/app/http_client.py\<close> and
  \<open>gateway/app/middleware/request_id.py\<close>: the handler that forwards an authenticated, admitted
  request to the tenant's upstream, and the dependencies and middleware around it. The upstream
  service, reached through httpx, is a function from what is sent to a response or an exception.
\<close>

subsection \<open>The HTTP client\<close>

record outbound =
  ob_method :: string
  ob_url :: string
  ob_headers :: "(string, string) dict"
  ob_content :: string
  ob_params :: "(string \<times> string) list"

record upstream_response =
  ur_status_code :: int
  ur_headers :: "(string \<times> string) list"
  ur_content :: string

type_synonym http_client = "outbound \<Rightarrow> upstream_response res"

definition get_http_client :: "http_client option \<Rightarrow> http_client res" where
  "get_http_client client = (case client of None \<Rightarrow> Inl AssertionError | Some c \<Rightarrow> Inr c)"

subsection \<open>Headers\<close>

definition HOP_BY_HOP :: "string list" where
  "HOP_BY_HOP = [''host'', ''content-length'', ''connection'']"

definition STRIP_INBOUND :: "string list" where
  "STRIP_INBOUND = HOP_BY_HOP @ [''x-api-key'']"

text \<open>\<open>{k: v for k, v in headers.items() if k.lower() not in strip}\<close>\<close>

definition header_dict :: "string list \<Rightarrow> (string \<times> string) list \<Rightarrow> (string, string) dict" where
  "header_dict strip items =
     fold (\<lambda>(k, v) d. dict_set k v d) (filter (\<lambda>(k, v). py_lower k \<notin> set strip) items) []"

text \<open>A response. Starlette keeps header names in lower case.\<close>

record http_response =
  rs_status_code :: int
  rs_headers :: "(string, string) dict"
  rs_content :: string

definition set_header :: "string \<Rightarrow> string \<Rightarrow> http_response \<Rightarrow> http_response" where
  "set_header k v resp = resp\<lparr>rs_headers := dict_set (py_lower k) v (rs_headers resp)\<rparr>"

definition str_opt :: "int option \<Rightarrow> string" where
  "str_opt x = (case x of None \<Rightarrow> ''None'' | Some n \<Rightarrow> str_int n)"

subsection \<open>The handler\<close>

text \<open>The readings of \<open>perf_counter()\<close> at the start and the end, of the clock, and the trace context.\<close>

record proxy_readings =
  px_start :: real
  px_end :: real
  px_event_time :: real
  px_traceparent :: string

definition proxied_event :: "'r services \<Rightarrow> proxy_readings \<Rightarrow> string \<Rightarrow> http_request \<Rightarrow> string \<Rightarrow> string \<Rightarrow> int \<Rightarrow> real \<Rightarrow> request_event" where
  "proxied_event V pd path q tenant_id salt status_code latency_ms =
     \<lparr>re_request_id = rq_request_id q, re_tenant_id = tenant_id,
      re_endpoint = ''/proxy/'' @ path, re_method = rq_method q, re_status_code = status_code,
      re_latency_ms = Fin latency_ms, re_rate_limited = False,
      re_remote_ip_hash = hash_ip (sv_sha256 V) (client_ip (rq_client q)) salt,
      re_timestamp_ms = py_int (px_event_time pd * 1000), re_query_string = rq_query q,
      re_user_agent = user_agent_of q, re_traceparent = px_traceparent pd\<rparr>"

definition build_response :: "rate_info \<Rightarrow> upstream_response \<Rightarrow> http_response" where
  "build_response rate_limit up =
     (let resp = \<lparr>rs_status_code = ur_status_code up,
                  rs_headers = map (\<lambda>(k, v). (py_lower k, v)) (header_dict HOP_BY_HOP (ur_headers up)),
                  rs_content = ur_content up\<rparr>
      in if ri_limit rate_limit = None then resp
         else set_header ''X-RateLimit-Remaining'' (str_opt (ri_remaining rate_limit))
                (set_header ''X-RateLimit-Limit'' (str_opt (ri_limit rate_limit)) resp))"

text \<open>The third component of the result is the list of requests sent upstream.\<close>

definition forwarded :: "string \<Rightarrow> string \<Rightarrow> http_request \<Rightarrow> outbound" where
  "forwarded base path q = \<lparr>ob_method = rq_method q, ob_url = base @ ''/'' @ path,
     ob_headers = header_dict STRIP_INBOUND (rq_headers q), ob_content = rq_body q, ob_params = rq_query_params q\<rparr>"

definition proxy :: "'r services \<Rightarrow> proxy_readings \<Rightarrow> http_client \<Rightarrow> string \<Rightarrow> http_request \<Rightarrow> json \<Rightarrow> rate_info \<Rightarrow> 'r gateway \<Rightarrow>
    http_response res \<times> 'r gateway \<times> outbound list" where
  "proxy V pd client path q tenant rate_limit g =
     (case item_str ''upstream_base_url'' tenant of
        Inl e \<Rightarrow> (Inl e, g, [])
      | Inr base \<Rightarrow>
     (case item_str ''id'' tenant of
        Inl e \<Rightarrow> (Inl e, g, [])
      | Inr tenant_id \<Rightarrow>
          (let out = forwarded base path q
           in case client out of
                Inl e \<Rightarrow> (Inl e, g, [out])
              | Inr up \<Rightarrow>
                  (let latency_ms = of_int (round_half_even ((px_end pd - px_start pd) * 1000 * 100)) / 100;
                       g1 = count_request (ur_status_code up) g;
                       g2 = g1\<lparr>gw_latencies := gw_latencies g1 @ [latency_ms]\<rparr>
                   in case item_str ''ip_hash_salt'' tenant of
                        Inl e \<Rightarrow> (Inl e, g2, [out])
                      | Inr salt \<Rightarrow>
                          (let e = proxied_event V pd path q tenant_id salt (ur_status_code up) latency_ms;
                               g3 = g2\<lparr>gw_emitter := emit_event e (gw_emitter g2)\<rparr>
                           in (Inr (build_response rate_limit up), g3, [out]))))))"

text \<open>
  The dependencies in the order FastAPI resolves them: the tenant, the rate limit, the HTTP client. \<open>tenants\<close> and
  \<open>policies\<close> are the tables at the time of the request.
\<close>

definition limited_proxy :: "'r services \<Rightarrow> policy_row list res \<Rightarrow> readings \<Rightarrow> proxy_readings \<Rightarrow> http_client option \<Rightarrow>
    string \<Rightarrow> http_request \<Rightarrow> json \<Rightarrow> 'r gateway \<Rightarrow> http_response res \<times> 'r gateway \<times> outbound list" where
  "limited_proxy V policies rd pd client path q tenant g =
     (case enforce_rate_limit V policies rd q tenant g of
        (Inl e, g1) \<Rightarrow> (Inl e, g1, [])
      | (Inr rate_limit, g1) \<Rightarrow>
          (case get_http_client client of
             Inl e \<Rightarrow> (Inl e, g1, [])
           | Inr c \<Rightarrow> proxy V pd c path q tenant rate_limit g1))"

definition proxy_route :: "'r services \<Rightarrow> tenant_row list res \<Rightarrow> policy_row list res \<Rightarrow> readings \<Rightarrow> proxy_readings \<Rightarrow>
    http_client option \<Rightarrow> string \<Rightarrow> string \<Rightarrow> http_request \<Rightarrow> 'r gateway \<Rightarrow> http_response res \<times> 'r gateway \<times> outbound list" where
  "proxy_route V tenants policies rd pd client x_api_key path q g =
     (case get_tenant (sv_kv V) (sv_repr V) (sv_sha256 V) tenants x_api_key (gw_redis g) of
        (Inl e, r) \<Rightarrow> (Inl e, g\<lparr>gw_redis := r\<rparr>, [])
      | (Inr tenant, r) \<Rightarrow> limited_proxy V policies rd pd client path q tenant (g\<lparr>gw_redis := r\<rparr>))"

subsection \<open>The request identifier\<close>

text \<open>
  FastAPI turns an \<open>HTTPException\<close> into a response inside the middleware, with a body it renders from the
  detail (\<open>render\<close>); any other exception passes through. \<open>request_id\<close> is the fresh UUID.
\<close>

definition error_response :: "(string \<Rightarrow> string) \<Rightarrow> int \<Rightarrow> string \<Rightarrow> (string \<times> string) list \<Rightarrow> http_response" where
  "error_response render status detail headers = \<lparr>rs_status_code = status,
     rs_headers = map (\<lambda>(k, v). (py_lower k, v)) headers, rs_content = render detail\<rparr>"

definition dispatch :: "(string \<Rightarrow> string) \<Rightarrow> string \<Rightarrow> (http_request \<Rightarrow> 'g \<Rightarrow> http_response res \<times> 'g) \<Rightarrow> http_request \<Rightarrow> 'g \<Rightarrow>
    http_response res \<times> 'g" where
  "dispatch render request_id call_next q g =
     (case call_next (q\<lparr>rq_request_id := request_id\<rparr>) g of
        (Inr resp, g') \<Rightarrow> (Inr (set_header ''X-Request-Id'' request_id resp), g')
      | (Inl (HTTPException status detail headers), g') \<Rightarrow>
          (Inr (set_header ''X-Request-Id'' request_id (error_response render status detail headers)), g')
      | (Inl e, g') \<Rightarrow> (Inl e, g'))"

end
