(* ===== verification/Proxy_Properties.thy ===== *)
theory Proxy_Properties
  imports Proxy
begin

section \<open>What the proxy guarantees\<close>

text \<open>
  Properties of the request path as a whole: every outcome is booked exactly once, credentials and
  hop-by-hop headers stay behind, the upstream's answer reaches the client, and every answer carries the
  request identifier.
\<close>

subsection \<open>Header dictionaries\<close>

lemma header_dict_get:
  "dict_get (header_dict strip items) k =
     (if py_lower k \<in> set strip then None else dict_get (rev items) k)"
proof -
  have fold_get: "dict_get (fold (\<lambda>(k, v) d. dict_set k v d) xs d) k =
      (case dict_get (rev xs) k of None \<Rightarrow> dict_get d k | Some v \<Rightarrow> Some v)" for xs d
    by (induction xs arbitrary: d) (auto simp: dict_simps map_add_def split: option.splits)
  have kept: "dict_get (rev (filter (\<lambda>(k, v). py_lower k \<notin> set strip) items)) k =
      (if py_lower k \<in> set strip then None else dict_get (rev items) k)"
    by (induction items) (auto simp: map_add_def split: option.splits)
  show ?thesis unfolding header_dict_def fold_get kept by (simp split: option.split)
qed

lemma header_dict_keys: "fst ` set (header_dict strip items) \<subseteq> fst ` set items"
proof -
  have "fst ` set (header_dict strip items) = dom (dict_get (header_dict strip items))"
    by (simp add: dom_map_of_conv_image_fst)
  also have "\<dots> \<subseteq> dom (dict_get (rev items))" by (auto simp: header_dict_get split: if_splits)
  also have "\<dots> = fst ` set items" by (simp add: dom_map_of_conv_image_fst)
  finally show ?thesis .
qed

subsection \<open>Books\<close>

lemma tenant_items [simp]:
  "item_str ''id'' (tenant_json t) = Inr (tn_id t)"
  "item_str ''upstream_base_url'' (tenant_json t) = Inr (tn_upstream_base_url t)"
  "item_str ''ip_hash_salt'' (tenant_json t) = Inr (tn_ip_hash_salt t)"
  by (simp_all add: item_str_def json_item_def tenant_json_def)

text \<open>The books after a proxied request.\<close>

definition books_of_response :: "request_event \<Rightarrow> 'r gateway \<Rightarrow> 'r gateway \<Rightarrow> bool" where
  "books_of_response e g g' \<longleftrightarrow> gw_emitter g' = emit_event e (gw_emitter g) \<and>
     (let c = status_class (re_status_code e) in gw_requests_total g' = (gw_requests_total g)(c := gw_requests_total g c + 1)) \<and>
     gw_rate_limit_hits g' = gw_rate_limit_hits g \<and>
     map Fin (gw_latencies g') = map Fin (gw_latencies g) @ [re_latency_ms e]"

text \<open>The latency of a proxied request, in milliseconds with two decimals.\<close>

abbreviation latency_of :: "proxy_readings \<Rightarrow> real" where
  "latency_of pd \<equiv> of_int (round_half_even ((px_end pd - px_start pd) * 1000 * 100)) / 100"

lemma proxy_outcome:
  "proxy V pd c path q (tenant_json t) info g = (x, g', sent) \<Longrightarrow>
   sent = [forwarded (tn_upstream_base_url t) path q] \<and>
   (case c (forwarded (tn_upstream_base_url t) path q) of
      Inl e \<Rightarrow> x = Inl e \<and> g' = g
    | Inr up \<Rightarrow> x = Inr (build_response info up) \<and>
        books_of_response (proxied_event V pd path q (tn_id t) (tn_ip_hash_salt t) (ur_status_code up) (latency_of pd)) g g')"
  by (auto simp: proxy_def books_of_response_def proxied_event_def count_request_def Let_def split: sum.splits)

lemma proxy_sends:
  "proxy V pd c path q (tenant_json t) info g = (x, g', sent) \<Longrightarrow> sent = [forwarded (tn_upstream_base_url t) path q]"
  using proxy_outcome by (rule conjunct1)

lemma books_after_check:
  "same_books g g1 \<Longrightarrow> books_of_response e g1 g' \<Longrightarrow> books_of_response e g g'"
  by (simp add: books_of_response_def same_books_def)

text \<open>The whole path acts on the verdict.\<close>

lemma limited_proxy_by_verdict:
  assumes "limited_proxy V policies rd pd client path q (tenant_json t) g = (x, g', sent)"
  shows "case limiter_verdict V policies rd q (tn_id t) g of
      Refuses rps w \<Rightarrow> x = Inl (too_many rps w) \<and> sent = [] \<and>
        books_of_refusal (blocked_event V rd q (tn_id t) (tn_ip_hash_salt t)) g g'
    | Fails e \<Rightarrow> x = Inl e \<and> sent = [] \<and> same_books g g'
    | Admits info \<Rightarrow> (case client of
          None \<Rightarrow> x = Inl AssertionError \<and> sent = [] \<and> same_books g g'
        | Some c \<Rightarrow> sent = [forwarded (tn_upstream_base_url t) path q] \<and>
            (case c (forwarded (tn_upstream_base_url t) path q) of
               Inl e \<Rightarrow> x = Inl e \<and> same_books g g'
             | Inr up \<Rightarrow> x = Inr (build_response info up) \<and>
                 books_of_response (proxied_event V pd path q (tn_id t) (tn_ip_hash_salt t) (ur_status_code up) (latency_of pd)) g g'))"
proof -
  obtain y g1 where enf: "enforce_rate_limit V policies rd q (tenant_json t) g = (y, g1)" by (metis surj_pair)
  note verdict = enforce_verdict [OF tenant_items(1,3) enf]
  show ?thesis
  proof (cases "limiter_verdict V policies rd q (tn_id t) g")
    case (Admits info)
    with verdict have y: "y = Inr info" and same: "same_books g g1" by simp_all
    show ?thesis
    proof (cases client)
      case None
      with Admits y same enf assms show ?thesis by (simp add: limited_proxy_def get_http_client_def)
    next
      case (Some c)
      with y enf assms have "proxy V pd c path q (tenant_json t) info g1 = (x, g', sent)"
        by (simp add: limited_proxy_def get_http_client_def)
      from proxy_outcome [OF this] Some Admits same books_after_check [OF same] show ?thesis
        by (simp split: sum.splits)
    qed
  qed (use verdict enf assms in \<open>simp_all add: limited_proxy_def\<close>)
qed

lemma limited_proxy_emits:
  assumes "limited_proxy V policies rd pd client path q (tenant_json t) g = (x, g', sent)"
  shows "gw_emitter g' = gw_emitter g \<or>
    (\<exists>e. gw_emitter g' = emit_event e (gw_emitter g) \<and> re_tenant_id e = tn_id t)"
  using limited_proxy_by_verdict [OF assms]
  by (auto simp: books_of_refusal_def books_of_response_def same_books_def blocked_event_def proxied_event_def
      split: verdict.splits option.splits sum.splits)

lemma limited_proxy_sent:
  assumes "limited_proxy V policies rd pd client path q (tenant_json t) g = (x, g', sent)"
  shows "sent \<in> {[], [forwarded (tn_upstream_base_url t) path q]}"
  using assms by (auto simp: limited_proxy_def dest: proxy_sends split: prod.splits sum.splits)

text \<open>
  C6: Every request is booked exactly once, by what was decided about it. Let the verdict on an authenticated request be
  what its policy and the check of the limiter say. If they refuse it, the answer is the 429 with the limit and the
  window of the policy, exactly one event with status 429 marked as rate limited is emitted, one request is counted
  as \<open>4xx\<close> and one rate-limit hit, and nothing is sent upstream. If they admit it, one request is sent upstream; when
  the upstream answers, the client gets its response, exactly one event with the upstream's status and not marked as
  rate limited is emitted, one request is counted under its status class and its latency is observed once; when
  the upstream fails, its exception is raised and nothing is booked, nor is anything booked or sent before the HTTP client exists.
  If they cannot decide (the database failed, or the limiter failed closed), that exception is raised, nothing is sent and nothing is booked.
\<close>

theorem request_booked_once:
  assumes "limited_proxy V policies rd pd client path q (tenant_json t) g = (x, g', sent)"
  shows "case limiter_verdict V policies rd q (tn_id t) g of
      Refuses rps w \<Rightarrow> x = Inl (too_many rps w) \<and> sent = [] \<and>
        books_of_refusal (blocked_event V rd q (tn_id t) (tn_ip_hash_salt t)) g g'
    | Fails e \<Rightarrow> x = Inl e \<and> sent = [] \<and> same_books g g'
    | Admits info \<Rightarrow> (case client of
          None \<Rightarrow> x = Inl AssertionError \<and> sent = [] \<and> same_books g g'
        | Some c \<Rightarrow> sent = [forwarded (tn_upstream_base_url t) path q] \<and>
            (case c (forwarded (tn_upstream_base_url t) path q) of
               Inl e \<Rightarrow> x = Inl e \<and> same_books g g'
             | Inr up \<Rightarrow> x = Inr (build_response info up) \<and>
                 books_of_response (proxied_event V pd path q (tn_id t) (tn_ip_hash_salt t) (ur_status_code up) (latency_of pd)) g g'))"
  by (rule limited_proxy_by_verdict [OF assms])

text \<open>
  C26: The API key stays at the gateway. Whatever the request, at most one request is sent upstream; it goes to
  the tenant's base URL with the method and body of the client, and its headers are the client's,
  except that no header whose name is, in any mix of cases, \<open>x-api-key\<close>, \<open>host\<close>,
  \<open>content-length\<close> or \<open>connection\<close> is among them; of a repeated header the last value is sent. A request that is
  refused sends nothing.
\<close>

theorem api_key_not_forwarded:
  assumes "limited_proxy V policies rd pd client path q (tenant_json t) g = (x, g', sent)"
  shows "sent = [] \<or> (\<exists>out. sent = [out] \<and> ob_method out = rq_method q \<and> ob_content out = rq_body q \<and>
      ob_url out = tn_upstream_base_url t @ ''/'' @ path \<and>
      (\<forall>k. dict_get (ob_headers out) k =
         (if py_lower k \<in> {''x-api-key'', ''host'', ''content-length'', ''connection''} then None
          else dict_get (rev (rq_headers q)) k)))"
proof -
  have "sent = [] \<or> sent = [forwarded (tn_upstream_base_url t) path q]"
    using assms by (auto simp: limited_proxy_def dest: proxy_sends split: prod.splits sum.splits)
  moreover have "dict_get (ob_headers (forwarded (tn_upstream_base_url t) path q)) k =
      (if py_lower k \<in> {''x-api-key'', ''host'', ''content-length'', ''connection''} then None
       else dict_get (rev (rq_headers q)) k)" for k
    by (auto simp: forwarded_def header_dict_get STRIP_INBOUND_def HOP_BY_HOP_def)
  ultimately show ?thesis by (force simp: forwarded_def)
qed

subsection \<open>Responses\<close>

lemma lower_names_id: "(\<And>k v. (k, v) \<in> set d \<Longrightarrow> py_lower k = k) \<Longrightarrow> map (\<lambda>(k, v). (py_lower k, v)) d = d"
  by (induction d) auto

text \<open>
  The client gets the upstream's answer. The response has the status and the body the HTTP client
  returned, and, for upstream headers with lower-case names as httpx gives them, exactly the upstream's headers except
  \<open>host\<close>, \<open>content-length\<close> and \<open>connection\<close>, with \<open>x-ratelimit-limit\<close> and
  \<open>x-ratelimit-remaining\<close> set if a policy applied. In particular a \<open>content-encoding\<close> header is relayed.
\<close>

theorem response_relays_upstream:
  assumes "\<forall>(k, v) \<in> set (ur_headers up). py_lower k = k"
  shows "rs_status_code (build_response info up) = ur_status_code up \<and> rs_content (build_response info up) = ur_content up \<and>
    (\<forall>k. dict_get (rs_headers (build_response info up)) k =
      (case ri_limit info of
         None \<Rightarrow> if py_lower k \<in> {''host'', ''content-length'', ''connection''} then None else dict_get (rev (ur_headers up)) k
       | Some n \<Rightarrow>
           if k = ''x-ratelimit-limit'' then Some (str_int n)
           else if k = ''x-ratelimit-remaining'' then Some (str_opt (ri_remaining info))
           else if py_lower k \<in> {''host'', ''content-length'', ''connection''} then None else dict_get (rev (ur_headers up)) k))"
proof -
  have "map (\<lambda>(k, v). (py_lower k, v)) (header_dict HOP_BY_HOP (ur_headers up)) = header_dict HOP_BY_HOP (ur_headers up)"
    using header_dict_keys [of HOP_BY_HOP "ur_headers up"] assms by (intro lower_names_id) force
  moreover have "py_lower ''X-RateLimit-Limit'' = ''x-ratelimit-limit''" "py_lower ''X-RateLimit-Remaining'' = ''x-ratelimit-remaining''"
    by code_simp+
  ultimately show ?thesis
    by (auto simp: build_response_def set_header_def dict_simps header_dict_get HOP_BY_HOP_def str_opt_def Let_def split: option.splits)
qed

definition gzipped :: upstream_response where
  "gzipped = \<lparr>ur_status_code = 200, ur_headers = [(''content-length'', ''31''), (''content-encoding'', ''gzip'')], ur_content = ''plain''\<rparr>"

theorem response_relays_upstream_witness:
  "dict_get (rs_headers (build_response \<lparr>ri_limit = Some 5, ri_remaining = Some 4\<rparr> gzipped)) ''content-encoding'' = Some ''gzip'' \<and>
   dict_get (rs_headers (build_response \<lparr>ri_limit = Some 5, ri_remaining = Some 4\<rparr> gzipped)) ''x-ratelimit-limit'' = Some (str_int 5)"
proof -
  have low: "py_lower ''content-length'' = ''content-length''" "py_lower ''content-encoding'' = ''content-encoding''"
    by code_simp+
  then have "\<forall>(k, v) \<in> set (ur_headers gzipped). py_lower k = k" by (simp add: gzipped_def)
  from response_relays_upstream [OF this, of "\<lparr>ri_limit = Some 5, ri_remaining = Some 4\<rparr>"] low
  show ?thesis by (simp add: gzipped_def)
qed

text \<open>Every answer, a refusal included, carries the identifier under which the request is logged and reported.\<close>

lemma dispatch_identifies:
  "dispatch render i call_next q g = (Inr resp, g') \<Longrightarrow> dict_get (rs_headers resp) (py_lower ''X-Request-Id'') = Some i"
  by (auto simp: dispatch_def set_header_def dict_simps split: prod.splits sum.splits exn.splits)

lemma dispatch_answers_http_exceptions:
  "fst (dispatch render i call_next q g) \<noteq> Inl (HTTPException status detail headers)"
  by (auto simp: dispatch_def split: prod.splits sum.splits exn.splits)

subsection \<open>Witnesses\<close>

definition any_request :: http_request where
  "any_request = \<lparr>rq_method = ''GET'', rq_url_path = ''/proxy/x'', rq_query = [], rq_query_params = [], rq_client = Some ''10.0.0.1'',
     rq_headers = [(''X-Api-Key'', ''sk''), (''accept'', ''*/*'')], rq_request_id = ''r1'', rq_body = ''b''\<rparr>"

definition up_services :: "unit services" where
  "up_services = \<lparr>sv_kv = \<lparr>kv_get = (\<lambda>_ _. Inr None), kv_set_ex = (\<lambda>_ _ _ r. (Inr (), r))\<rparr>,
     sv_scripts = \<lparr>script_load = (\<lambda>_ r. (Inr [], r)), evalsha = (\<lambda>_ _ _ _ _ _ r. (Inr (1, 0), r))\<rparr>,
     sv_lua = [], sv_repr = (\<lambda>_. []), sv_sha256 = (\<lambda>s. s), sv_fail_open = True\<rparr>"

definition up_gateway :: "unit gateway" where
  "up_gateway = \<lparr>gw_redis = (), gw_limiter = \<lparr>script_sha = None, lua_observations = 0\<rparr>, gw_fallback = fb_init,
     gw_emitter = emitter_init, gw_requests_total = (\<lambda>_. 0), gw_rate_limit_hits = 0, gw_latencies = []\<rparr>"

definition zero_readings :: readings where
  "zero_readings = \<lparr>rd_check_time = 0, rd_check_id = [], rd_fallback_time = 0, rd_event_time = 0, rd_traceparent = []\<rparr>"

definition zero_proxy_readings :: proxy_readings where
  "zero_proxy_readings = \<lparr>px_start = 0, px_end = 1, px_event_time = 0, px_traceparent = []\<rparr>"

abbreviation served :: "http_response res \<times> unit gateway \<times> outbound list" where
  "served \<equiv> limited_proxy up_services (Inr []) zero_readings zero_proxy_readings (Some (\<lambda>_. Inr gzipped)) ''x'' any_request
     (tenant_json acme_row) up_gateway"

lemma served_result:
  "fst served = Inr (build_response \<lparr>ri_limit = None, ri_remaining = None\<rparr> gzipped)"
  "snd (snd served) = [forwarded ''http://up'' ''x'' any_request]"
  by (simp_all add: limited_proxy_def enforce_rate_limit_def get_policy_def read_through_def cached_text_def up_services_def
      up_gateway_def fetch_matching_policy_def get_http_client_def proxy_def acme_row_def gzipped_def Let_def)

definition full_services :: "unit services" where
  "full_services = up_services\<lparr>sv_scripts := \<lparr>script_load = (\<lambda>_ r. (Inr [], r)), evalsha = (\<lambda>_ _ _ _ _ _ r. (Inr (0, 0), r))\<rparr>\<rparr>"

lemma full_verdict: "limiter_verdict full_services (Inr two_policies) zero_readings any_request ''acme'' up_gateway = Refuses 100 60"
  by (simp add: limiter_verdict_def full_services_def up_services_def get_policy_def read_through_def cached_text_def store_text_def any_request_def
      fetch_matching_policy_def two_policies_def star_to_percent_def policy_json_def policy_limits_def item_int_def json_item_def
      limit_decision_def check_rate_limit_def load_script_def up_gateway_def Let_def)

theorem request_booked_once_witness:
  "em_next (gw_emitter (fst (snd served))) = 1 \<and>
   (\<exists>g'. limited_proxy full_services (Inr two_policies) zero_readings zero_proxy_readings None ''x'' any_request (tenant_json acme_row) up_gateway =
       (Inl (too_many 100 60), g', []) \<and> em_next (gw_emitter g') = 1 \<and> gw_rate_limit_hits g' = 1)"
proof
  obtain x g' sent where s: "served = (x, g', sent)" by (metis prod_cases3)
  have "limiter_verdict up_services (Inr []) zero_readings any_request (tn_id acme_row) up_gateway = Admits \<lparr>ri_limit = None, ri_remaining = None\<rparr>"
    by (simp add: limiter_verdict_def get_policy_def read_through_def cached_text_def up_services_def fetch_matching_policy_def)
  with request_booked_once [OF s] have "\<exists>e. gw_emitter g' = emit_event e (gw_emitter up_gateway)"
    by (auto simp: books_of_response_def)
  then have "em_next (gw_emitter g') = 1" by (auto simp: emit_event_def up_gateway_def emitter_init_def)
  with s show "em_next (gw_emitter (fst (snd served))) = 1" by simp
next
  obtain x g' sent where r: "limited_proxy full_services (Inr two_policies) zero_readings zero_proxy_readings None ''x'' any_request
      (tenant_json acme_row) up_gateway = (x, g', sent)" by (metis prod_cases3)
  have "tn_id acme_row = ''acme''" by (simp add: acme_row_def)
  with request_booked_once [OF r] full_verdict have "x = Inl (too_many 100 60)" "sent = []"
    "books_of_refusal (blocked_event full_services zero_readings any_request ''acme'' (tn_ip_hash_salt acme_row)) up_gateway g'" by simp_all
  with r show "\<exists>g'. limited_proxy full_services (Inr two_policies) zero_readings zero_proxy_readings None ''x'' any_request (tenant_json acme_row) up_gateway =
       (Inl (too_many 100 60), g', []) \<and> em_next (gw_emitter g') = 1 \<and> gw_rate_limit_hits g' = 1"
    by (simp add: books_of_refusal_def emit_event_def up_gateway_def emitter_init_def)
qed

theorem api_key_not_forwarded_witness:
  "\<exists>out. snd (snd served) = [out] \<and> dict_get (ob_headers out) ''X-Api-Key'' = None \<and> dict_get (ob_headers out) ''accept'' = Some ''*/*''"
proof -
  obtain x g' where s: "served = (x, g', [forwarded ''http://up'' ''x'' any_request])"
    using served_result(2) by (metis snd_conv surj_pair)
  have low: "py_lower ''X-Api-Key'' = ''x-api-key''" "py_lower ''accept'' = ''accept''" by code_simp+
  from api_key_not_forwarded [OF s] obtain out where
    out: "[forwarded ''http://up'' ''x'' any_request] = [out]" and
    "\<forall>k. dict_get (ob_headers out) k = (if py_lower k \<in> {''x-api-key'', ''host'', ''content-length'', ''connection''} then None
          else dict_get (rev (rq_headers any_request)) k)" by blast
  then have "dict_get (ob_headers out) ''X-Api-Key'' = None" "dict_get (ob_headers out) ''accept'' = Some ''*/*''"
    by (simp_all add: low any_request_def)
  with s out show ?thesis by simp
qed

end
