(* ===== verification/Gateway_Properties.thy ===== *)
theory Gateway_Properties
  imports Gateway_Limits Proxy_Properties
begin

section \<open>The request path during an outage\<close>

text \<open>
  Authentication, rate limiting and proxying together, as the route composes them, while Redis is
  unreachable, and while the database is.
\<close>

context gateway_world
begin

lemma get_tenant_outage:
  assumes "\<not> up r"
  shows "get_tenant (sv_kv V) (sv_repr V) sha db key r = (tenant_result (lookup_tenant_by_key_hash db (hash_key sha key)), r)"
  by (simp add: prod_eq_iff get_tenant_parts read_through_down [OF assms])

lemma get_policy_outage: "\<not> up r \<Longrightarrow> get_policy (sv_kv V) (sv_repr V) db tid route r = (fetch_matching_policy db tid route, r)"
  by (simp add: get_policy_def read_through_down)

text \<open>The dependency during an outage: the database's policy, decided by the fallback.\<close>

lemma enforce_outage:
  assumes "\<not> up (gw_redis g)" "sv_fail_open V"
    and "fetch_matching_policy db (tn_id t) (rq_url_path q) = Inr (Some (policy_json p))"
  shows "fst (enforce_rate_limit V db rd q (tenant_json t) g) =
    (case fst (in_memory_check (tn_id t) (rq_url_path q) (pr_rate_limit_rps p) (pr_rate_limit_window_s p)
        (rd_fallback_time rd) (gw_fallback g)) of
       (allowed, n) \<Rightarrow> if allowed then Inr \<lparr>ri_limit = Some (pr_rate_limit_rps p), ri_remaining = Some n\<rparr>
                       else Inl (too_many (pr_rate_limit_rps p) (pr_rate_limit_window_s p)))"
proof -
  note pol = get_policy_outage [OF assms(1), of db "tn_id t" "rq_url_path q", unfolded assms(3)]
  let ?c = "in_memory_check (tn_id t) (rq_url_path q) (pr_rate_limit_rps p) (pr_rate_limit_window_s p) (rd_fallback_time rd) (gw_fallback g)"
  obtain allowed n where c: "fst ?c = (allowed, n)" by (metis surj_pair)
  obtain st where d: "limit_decision V rd (tn_id t) (rq_url_path q) (pr_rate_limit_rps p) (pr_rate_limit_window_s p) g =
      (Inr (allowed, n), g\<lparr>gw_limiter := st, gw_fallback := snd ?c\<rparr>)"
    using decision_outage [OF assms(1,2), of rd "tn_id t" "rq_url_path q" "pr_rate_limit_rps p" "pr_rate_limit_window_s p"] c by auto
  obtain g' where "reject V rd q (tenant_json t) (tn_id t) (pr_rate_limit_rps p) (pr_rate_limit_window_s p)
      (g\<lparr>gw_limiter := st, gw_fallback := snd ?c\<rparr>) = (Inl (too_many (pr_rate_limit_rps p) (pr_rate_limit_window_s p)), g')"
    using reject_books [OF tenant_items(3)] by blast
  with d c show ?thesis
    by (simp add: enforce_found [OF tenant_items(1) pol] apply_limits_def)
qed

lemma enforce_closed:
  assumes "\<not> up (gw_redis g)" "\<not> sv_fail_open V"
    and "fetch_matching_policy db (tn_id t) (rq_url_path q) = Inr (Some (policy_json p))"
  shows "fst (enforce_rate_limit V db rd q (tenant_json t) g) = Inl (HTTPException 503 ''rate limiter unavailable, failing closed'' [])"
proof -
  note pol = get_policy_outage [OF assms(1), of db "tn_id t" "rq_url_path q", unfolded assms(3)]
  obtain e st where "check_rate_limit (sv_scripts V) (sv_lua V) (tn_id t) (rq_url_path q) (pr_rate_limit_rps p) (pr_rate_limit_window_s p)
      (rd_check_time rd) (rd_check_id rd) (gw_limiter g) (gw_redis g) = (Inl e, st, gw_redis g)" "is_redis_error e"
    using check_down [OF assms(1)] by blast
  with assms(2) show ?thesis
    by (simp add: enforce_found [OF tenant_items(1) pol] apply_limits_def limit_decision_def Let_def)
qed

end

lemma limited_proxy_served:
  assumes "fst (enforce_rate_limit V policies rd q (tenant_json t) g) = Inr info"
    and "client = Some c" "c (forwarded (tn_upstream_base_url t) path q) = Inr answer"
  shows "fst (limited_proxy V policies rd pd client path q (tenant_json t) g) = Inr (build_response info answer)"
  using assms by (simp add: limited_proxy_def get_http_client_def proxy_def Let_def split_beta split: sum.split)

lemma limited_proxy_refused:
  assumes "fst (enforce_rate_limit V policies rd q (tenant_json t) g) = Inl e"
  shows "fst (limited_proxy V policies rd pd client path q (tenant_json t) g) = Inl e"
    and "snd (snd (limited_proxy V policies rd pd client path q (tenant_json t) g)) = []"
  using assms by (simp_all add: limited_proxy_def split_beta)

text \<open>
  C16: Losing Redis does not take the gateway down. With Redis unreachable, fail-open configured, the key in
  the tenants table, a policy for the route and an upstream that answers, the request is answered: with the
  upstream's response if the in-memory limiter admits it, with the policy's limit in its headers, and with 429
  otherwise. No error of Redis reaches the client. And with fail-open switched off the answer is 503, and nothing is sent upstream.
\<close>

theorem outage_keeps_serving:
  assumes "gateway_world V Z zview zttl elapse up cached_script digest script_sem kv_view kv_elapse"
    and "\<not> up (gw_redis g)"
    and "lookup_tenant_by_key_hash tenants (hash_key (sv_sha256 V) key) = Inr (Some (tenant_json t))"
    and "fetch_matching_policy policies (tn_id t) (rq_url_path q) = Inr (Some (policy_json p))"
    and "c (forwarded (tn_upstream_base_url t) path q) = Inr answer"
  shows "(sv_fail_open V \<longrightarrow>
      fst (proxy_route V tenants policies rd pd (Some c) key path q g) =
        (case fst (in_memory_check (tn_id t) (rq_url_path q) (pr_rate_limit_rps p) (pr_rate_limit_window_s p)
            (rd_fallback_time rd) (gw_fallback g)) of
           (allowed, n) \<Rightarrow> if allowed then Inr (build_response \<lparr>ri_limit = Some (pr_rate_limit_rps p), ri_remaining = Some n\<rparr> answer)
                           else Inl (too_many (pr_rate_limit_rps p) (pr_rate_limit_window_s p)))) \<and>
    (\<not> sv_fail_open V \<longrightarrow>
      fst (proxy_route V tenants policies rd pd (Some c) key path q g) =
        Inl (HTTPException 503 ''rate limiter unavailable, failing closed'' []) \<and>
      snd (snd (proxy_route V tenants policies rd pd (Some c) key path q g)) = [])"
proof -
  have route: "proxy_route V tenants policies rd pd (Some c) key path q g =
      limited_proxy V policies rd pd (Some c) path q (tenant_json t) g"
    using gateway_world.get_tenant_outage [OF assms(1,2)] assms(3) by (simp add: proxy_route_def tenant_result_def)
  show ?thesis
  proof (intro conjI impI)
    assume "sv_fail_open V"
    note enf = gateway_world.enforce_outage [OF assms(1,2) this assms(4), of rd]
    obtain allowed n where "fst (in_memory_check (tn_id t) (rq_url_path q) (pr_rate_limit_rps p) (pr_rate_limit_window_s p)
        (rd_fallback_time rd) (gw_fallback g)) = (allowed, n)" by (metis surj_pair)
    with enf show "fst (proxy_route V tenants policies rd pd (Some c) key path q g) =
        (case fst (in_memory_check (tn_id t) (rq_url_path q) (pr_rate_limit_rps p) (pr_rate_limit_window_s p)
            (rd_fallback_time rd) (gw_fallback g)) of
           (allowed, n) \<Rightarrow> if allowed then Inr (build_response \<lparr>ri_limit = Some (pr_rate_limit_rps p), ri_remaining = Some n\<rparr> answer)
                           else Inl (too_many (pr_rate_limit_rps p) (pr_rate_limit_window_s p)))"
      unfolding route using limited_proxy_served [where client = "Some c" and c = c, OF _ refl assms(5)] limited_proxy_refused(1) by (cases allowed) simp_all
  next
    assume closed: "\<not> sv_fail_open V"
    have "fst (enforce_rate_limit V policies rd q (tenant_json t) g) = Inl (HTTPException 503 ''rate limiter unavailable, failing closed'' [])"
      by (rule gateway_world.enforce_closed [OF assms(1,2) closed assms(4)])
    from limited_proxy_refused [OF this] show "fst (proxy_route V tenants policies rd pd (Some c) key path q g) =
        Inl (HTTPException 503 ''rate limiter unavailable, failing closed'' [])"
      "snd (snd (proxy_route V tenants policies rd pd (Some c) key path q g)) = []" unfolding route by blast+
  qed
qed

text \<open>A request of the seeded kind while the reference server is down.\<close>

definition admin_request :: http_request where
  "admin_request = any_request\<lparr>rq_url_path := ''/proxy/admin/x''\<rparr>"

definition check_readings :: readings where
  "check_readings = \<lparr>rd_check_time = 0, rd_check_id = [], rd_fallback_time = 0, rd_event_time = 0, rd_traceparent = []\<rparr>"

theorem outage_keeps_serving_witness:
  "fst (proxy_route ref_services (Inr [acme_row]) (Inr two_policies) check_readings
     \<lparr>px_start = 0, px_end = 1, px_event_time = 0, px_traceparent = []\<rparr> (Some (\<lambda>_. Inr gzipped)) ''h:sk'' ''admin/x'' admin_request
     (idle_gateway False)) = Inr (build_response \<lparr>ri_limit = Some 5, ri_remaining = Some 0\<rparr> gzipped)"
proof -
  have down: "\<not> ref_up (gw_redis (idle_gateway False))" by simp
  have key: "lookup_tenant_by_key_hash (Inr [acme_row]) (hash_key (sv_sha256 ref_services) ''h:sk'') = Inr (Some (tenant_json acme_row))"
    by (simp add: lookup_tenant_by_key_hash_def hash_key_def ref_services_def acme_row_def)
  have pol: "fetch_matching_policy (Inr two_policies) (tn_id acme_row) (rq_url_path admin_request) = Inr (Some (policy_json (two_policies ! 1)))"
    using ref_limits.found by (simp add: acme_row_def admin_request_def)
  have "fst (in_memory_check ''acme'' ''/proxy/admin/x'' 5 60 0 fb_init) = (True, 0)"
    by (simp add: in_memory_check_def fb_init_def evict_stale_def bucket_of_def dict_pops_def FALLBACK_MULTIPLIER_def Let_def)
  then show ?thesis
    using conjunct1 [OF outage_keeps_serving [OF ref_world.gateway_world_axioms down key pol,
      where c = "\<lambda>_. Inr gzipped" and answer = gzipped and path = "''admin/x''" and rd = check_readings
        and pd = "\<lparr>px_start = 0, px_end = 1, px_event_time = 0, px_traceparent = []\<rparr>"]]
    by (simp add: acme_row_def admin_request_def check_readings_def two_policies_def)
qed

subsection \<open>The database unreachable\<close>

context gateway_world
begin

lemma get_tenant_cached:
  assumes "up r" "kv_view r (tenant_key (hash_key sha key)) = Some (dumps (sv_repr V) (tenant_json t), left)"
  shows "get_tenant (sv_kv V) (sv_repr V) sha db key r = (Inr (tenant_json t), r)"
  by (simp add: prod_eq_iff get_tenant_parts tenant_result_def read_through_hit [OF assms])

lemma get_policy_cached:
  assumes "up r" "kv_view r (policy_key tid route) = Some (dumps (sv_repr V) (policy_json p), left)"
  shows "get_policy (sv_kv V) (sv_repr V) db tid route r = (Inr (Some (policy_json p)), r)"
  by (simp add: get_policy_def read_through_hit [OF assms] policy_json_def)

lemma get_policy_uncached:
  assumes "up r" "kv_view r (policy_key tid route) = None" "\<nexists>v. fetch_matching_policy db tid route = Inr (Some v)"
  shows "get_policy (sv_kv V) (sv_repr V) db tid route r = (fetch_matching_policy db tid route, r)"
  unfolding get_policy_def by (rule read_through_miss [OF assms])

text \<open>Without a policy the request is not limited, and Redis is left alone.\<close>

lemma limited_proxy_unlimited:
  assumes "get_policy (sv_kv V) (sv_repr V) policies (tn_id t) (rq_url_path q) (gw_redis g) = (Inr None, gw_redis g)"
  shows "gw_redis (fst (snd (limited_proxy V policies rd pd client path q (tenant_json t) g))) = gw_redis g"
  using assms
  by (auto simp: limited_proxy_def enforce_rate_limit_def proxy_def Let_def count_request_def split: sum.split)

end

text \<open>
  C17: A database outage spares what is cached. Let the tenant of the key be cached. If the policy of the route is cached too, the
  request is handled the same whatever the two tables are, unreachable ones included, and is limited by the cached policy. If it is not
  cached and the database fails, the request fails with the database's error and nothing is sent upstream. And that
  a route has no policy is never cached, so that requests to it depend on the database every time.
\<close>

theorem database_outage_spares_cached:
  assumes "gateway_world V Z zview zttl elapse up cached_script digest script_sem kv_view kv_elapse"
    and "up (gw_redis g)"
    and "kv_view (gw_redis g) (tenant_key (hash_key (sv_sha256 V) key)) = Some (dumps (sv_repr V) (tenant_json t), left)"
  shows "(\<forall>p left'. kv_view (gw_redis g) (policy_key (tn_id t) (rq_url_path q)) = Some (dumps (sv_repr V) (policy_json p), left') \<longrightarrow>
      proxy_route V (Inl e\<^sub>1) (Inl e\<^sub>2) rd pd client key path q g = proxy_route V tenants policies rd pd client key path q g \<and>
      enforce_rate_limit V (Inl e\<^sub>2) rd q (tenant_json t) g =
        apply_limits V rd q (tenant_json t) (tn_id t) (pr_rate_limit_rps p) (pr_rate_limit_window_s p) g) \<and>
    (kv_view (gw_redis g) (policy_key (tn_id t) (rq_url_path q)) = None \<longrightarrow>
      proxy_route V tenants (Inl e\<^sub>2) rd pd client key path q g = (Inl e\<^sub>2, g, []) \<and>
      (fetch_matching_policy policies (tn_id t) (rq_url_path q) = Inr None \<longrightarrow>
        gw_redis (fst (snd (proxy_route V tenants policies rd pd client key path q g))) = gw_redis g))"
proof -
  have route: "proxy_route V tenants policies rd pd client key path q g = limited_proxy V policies rd pd client path q (tenant_json t) g"
    for tenants policies
    using gateway_world.get_tenant_cached [OF assms] by (simp add: proxy_route_def)
  have cached: "enforce_rate_limit V policies rd q (tenant_json t) g =
      apply_limits V rd q (tenant_json t) (tn_id t) (pr_rate_limit_rps p) (pr_rate_limit_window_s p) g"
    if "kv_view (gw_redis g) (policy_key (tn_id t) (rq_url_path q)) = Some (dumps (sv_repr V) (policy_json p), left')" for p left' policies
    using enforce_found [OF tenant_items(1) gateway_world.get_policy_cached [OF assms(1,2) that]] by simp
  show ?thesis
  proof (intro conjI allI impI)
    assume none: "kv_view (gw_redis g) (policy_key (tn_id t) (rq_url_path q)) = None"
    note uncached = gateway_world.get_policy_uncached [OF assms(1,2) none]
    have "fetch_matching_policy (Inl e\<^sub>2) (tn_id t) (rq_url_path q) = Inl e\<^sub>2" by (simp add: fetch_matching_policy_def)
    with uncached [of "Inl e\<^sub>2"] show "proxy_route V tenants (Inl e\<^sub>2) rd pd client key path q g = (Inl e\<^sub>2, g, [])"
      by (simp add: route limited_proxy_def enforce_rate_limit_def)
    assume "fetch_matching_policy policies (tn_id t) (rq_url_path q) = Inr None"
    with uncached [of policies] show "gw_redis (fst (snd (proxy_route V tenants policies rd pd client key path q g))) = gw_redis g"
      by (simp add: route gateway_world.limited_proxy_unlimited [OF assms(1)])
  qed (simp_all add: route limited_proxy_def cached)
qed

definition second_readings :: proxy_readings where
  "second_readings = \<lparr>px_start = 0, px_end = 1, px_event_time = 0, px_traceparent = []\<rparr>"

text \<open>A gateway whose cache holds the tenant and, for one route, the policy.\<close>

definition warm_gateway :: "redis_ref gateway" where
  "warm_gateway = (idle_gateway True)\<lparr>gw_redis := ref_empty\<lparr>ref_strings :=
     [tenant_key ''h:sk'' \<mapsto> (dumps (\<lambda>_. []) (tenant_json acme_row), 30),
      policy_key ''acme'' ''/proxy/admin/x'' \<mapsto> (dumps (\<lambda>_. []) (policy_json (two_policies ! 1)), 10)]\<rparr>\<rparr>"

theorem database_outage_spares_cached_witness:
  "fst (proxy_route ref_services (Inl DatabaseError) (Inl DatabaseError) check_readings second_readings (Some (\<lambda>_. Inr gzipped)) ''h:sk''
     ''admin/x'' admin_request warm_gateway) =
   fst (proxy_route ref_services (Inr [acme_row]) (Inr two_policies) check_readings second_readings (Some (\<lambda>_. Inr gzipped)) ''h:sk''
     ''admin/x'' admin_request warm_gateway) \<and>
   proxy_route ref_services (Inr [acme_row]) (Inl DatabaseError) check_readings second_readings (Some (\<lambda>_. Inr gzipped)) ''h:sk'' ''x'' any_request warm_gateway =
     (Inl DatabaseError, warm_gateway, [])"
proof -
  have ten: "ref_strings (gw_redis warm_gateway) (tenant_key (hash_key (sv_sha256 ref_services) ''h:sk'')) =
      Some (dumps (sv_repr ref_services) (tenant_json acme_row), 30)"
    by (simp add: warm_gateway_def ref_services_def hash_key_def tenant_key_def policy_key_def)
  have pol: "ref_strings (gw_redis warm_gateway) (policy_key (tn_id acme_row) (rq_url_path admin_request)) =
      Some (dumps (sv_repr ref_services) (policy_json (two_policies ! 1)), 10)"
    and none: "ref_strings (gw_redis warm_gateway) (policy_key (tn_id acme_row) (rq_url_path any_request)) = None"
    by (simp_all add: warm_gateway_def ref_services_def tenant_key_def policy_key_def acme_row_def admin_request_def any_request_def)
  have "ref_up (gw_redis warm_gateway)" by (simp add: warm_gateway_def)
  note spared = database_outage_spares_cached [OF ref_world.gateway_world_axioms this ten]
  from spared [where q = admin_request] spared [where q = any_request] pol none show ?thesis by metis
qed

end
