(* ===== verification/Admin.thy ===== *)
theory Admin
  imports Enforcement
begin

section \<open>The admin API\<close>

text \<open>
  \<open>gateway/app/routes/admin.py\<close>: the optimistically locked update of a policy. The database executes the
  conditional \<open>UPDATE\<close> as one step (a second writer of the row waits for the first and
  then re-evaluates the condition), so concurrent calls are sequences of calls. Parsing a UUID,
  publishing and the outcome of \<open>COMMIT\<close> are arguments.
\<close>

record policy_update =
  pu_rate_limit_rps :: int
  pu_expected_version :: int

record policy_updated =
  up_policy_id :: string
  up_rate_limit_rps :: int
  up_policy_version :: int

text \<open>The range of PostgreSQL's \<open>INT\<close>.\<close>

definition int4 :: "int \<Rightarrow> bool" where
  "int4 n \<longleftrightarrow> - (2 ^ 31) \<le> n \<and> n < 2 ^ 31"

definition locked_row :: "string \<Rightarrow> string \<Rightarrow> int \<Rightarrow> policy_row \<Rightarrow> bool" where
  "locked_row pid tenant_id expected_version row \<longleftrightarrow>
     pr_id row = pid \<and> pr_tenant_id row = tenant_id \<and> pr_policy_version row = expected_version"

definition set_policy :: "int \<Rightarrow> real \<Rightarrow> policy_row \<Rightarrow> policy_row" where
  "set_policy rps now row = row\<lparr>pr_rate_limit_rps := rps, pr_policy_version := pr_policy_version row + 1, pr_updated_at := now\<rparr>"

text \<open>
  The \<open>UPDATE ... RETURNING\<close>: the rows it returns and the table after it. A value outside \<open>INT\<close> is an
  error, of an argument or of the incremented version.
\<close>

definition sql_update :: "string \<Rightarrow> string \<Rightarrow> int \<Rightarrow> int \<Rightarrow> real \<Rightarrow> policy_row list \<Rightarrow> (policy_row list \<times> policy_row list) res" where
  "sql_update pid tenant_id rps expected_version now rows =
     (let hit = locked_row pid tenant_id expected_version
      in if \<not> int4 rps \<or> \<not> int4 expected_version \<or> list_ex (\<lambda>row. hit row \<and> \<not> int4 (pr_policy_version row + 1)) rows
         then Inl DatabaseError
         else Inr (map (set_policy rps now) (filter hit rows), map (\<lambda>row. if hit row then set_policy rps now row else row) rows))"

definition INVALIDATION_CHANNEL :: string where
  "INVALIDATION_CHANNEL = ''policy:invalidate''"

definition invalidation_json :: "policy_row \<Rightarrow> json" where
  "invalidation_json row = JObj [(''tenant_id'', JStr (pr_tenant_id row)), (''route_pattern'', JStr (pr_route_pattern row)),
     (''new_version'', JInt (pr_policy_version row))]"

text \<open>
  How \<open>COMMIT\<close> ends: it succeeds, it fails and the transaction is rolled back, or it takes
  effect and the answer is lost.
\<close>

datatype commit_outcome = Committed | RolledBack exn | CommitLost exn

text \<open>
  The result, the committed table and the Redis server. Closing the session without a commit rolls
  the transaction back.
\<close>

definition update_policy :: "(string \<Rightarrow> string option) \<Rightarrow> (string \<Rightarrow> string \<Rightarrow> 'r \<Rightarrow> unit res \<times> 'r) \<Rightarrow> (pyfloat \<Rightarrow> string) \<Rightarrow>
    string \<Rightarrow> policy_update \<Rightarrow> json \<Rightarrow> real \<Rightarrow> commit_outcome \<Rightarrow> policy_row list \<Rightarrow> 'r \<Rightarrow>
    policy_updated res \<times> policy_row list \<times> 'r" where
  "update_policy uuid_of pub rep policy_id u tenant now commit rows r =
     (case item_str ''id'' tenant of
        Inl e \<Rightarrow> (Inl e, rows, r)
      | Inr tenant_id \<Rightarrow>
     (case uuid_of policy_id of
        None \<Rightarrow> (Inl DatabaseError, rows, r)
      | Some pid \<Rightarrow>
     (case sql_update pid tenant_id (pu_rate_limit_rps u) (pu_expected_version u) now rows of
        Inl e \<Rightarrow> (Inl e, rows, r)
      | Inr (returned, rows') \<Rightarrow>
          (case returned of
             [] \<Rightarrow> if list_ex (\<lambda>row. pr_id row = pid \<and> pr_tenant_id row = tenant_id) rows
                   then (Inl (HTTPException 409 ''policy was modified concurrently, refetch and retry'' []), rows, r)
                   else (Inl (HTTPException 404 ''policy not found'' []), rows, r)
           | [row] \<Rightarrow>
               (case commit of
                  RolledBack e \<Rightarrow> (Inl e, rows, r)
                | CommitLost e \<Rightarrow> (Inl e, rows', r)
                | Committed \<Rightarrow>
                    (case pub INVALIDATION_CHANNEL (dumps rep (invalidation_json row)) r of
                       (Inl e, r') \<Rightarrow> (Inl e, rows', r')
                     | (Inr _, r') \<Rightarrow> (Inr \<lparr>up_policy_id = policy_id, up_rate_limit_rps = pu_rate_limit_rps u,
                                           up_policy_version = pr_policy_version row\<rparr>, rows', r')))
           | _ \<Rightarrow> (Inl DatabaseError, rows, r)))))"

subsection \<open>One call\<close>

text \<open>What a call that changes the table does to it.\<close>

definition updated_table :: "string \<Rightarrow> string \<Rightarrow> policy_update \<Rightarrow> real \<Rightarrow> policy_row list \<Rightarrow> policy_row list \<Rightarrow> bool" where
  "updated_table pid tenant_id u now rows rows' \<longleftrightarrow>
     (\<exists>row. filter (locked_row pid tenant_id (pu_expected_version u)) rows = [row]) \<and>
     rows' = map (\<lambda>row. if locked_row pid tenant_id (pu_expected_version u) row
                        then set_policy (pu_rate_limit_rps u) now row else row) rows"

lemma update_policy_table:
  assumes "update_policy uuid_of pub rep policy_id u tenant now commit rows r = (x, rows', r')"
  shows "rows' = rows \<and> (\<forall>v. x \<noteq> Inr v) \<or>
    (\<exists>pid tenant_id. uuid_of policy_id = Some pid \<and> item_str ''id'' tenant = Inr tenant_id \<and> updated_table pid tenant_id u now rows rows')"
  using assms
  by (auto simp: update_policy_def sql_update_def updated_table_def Let_def map_eq_Cons_conv
      split: sum.splits option.splits list.splits if_splits commit_outcome.splits prod.splits)

lemma update_policy_success:
  assumes "update_policy uuid_of pub rep policy_id u tenant now commit rows r = (Inr v, rows', r')"
  obtains pid tenant_id row where "uuid_of policy_id = Some pid" "item_str ''id'' tenant = Inr tenant_id"
    "filter (locked_row pid tenant_id (pu_expected_version u)) rows = [row]" "updated_table pid tenant_id u now rows rows'"
    "v = \<lparr>up_policy_id = policy_id, up_rate_limit_rps = pu_rate_limit_rps u, up_policy_version = pr_policy_version row + 1\<rparr>"
    "pub INVALIDATION_CHANNEL (dumps rep (invalidation_json (set_policy (pu_rate_limit_rps u) now row))) r = (Inr (), r')"
  using assms
  by (auto simp: update_policy_def sql_update_def updated_table_def Let_def map_eq_Cons_conv set_policy_def
      split: sum.splits option.splits list.splits if_splits commit_outcome.splits prod.splits)

subsection \<open>Sequences of calls\<close>

record admin_call =
  ac_policy_id :: string
  ac_update :: policy_update
  ac_tenant :: json
  ac_now :: real
  ac_commit :: commit_outcome

fun admin_run :: "(string \<Rightarrow> string option) \<Rightarrow> (string \<Rightarrow> string \<Rightarrow> 'r \<Rightarrow> unit res \<times> 'r) \<Rightarrow> (pyfloat \<Rightarrow> string) \<Rightarrow>
    admin_call list \<Rightarrow> policy_row list \<Rightarrow> 'r \<Rightarrow> policy_updated res list \<times> policy_row list" where
  "admin_run uuid_of pub rep [] rows r = ([], rows)"
| "admin_run uuid_of pub rep (c # cs) rows r =
     (let (x, rows1, r1) = update_policy uuid_of pub rep (ac_policy_id c) (ac_update c) (ac_tenant c) (ac_now c) (ac_commit c) rows r;
          (xs, rows2) = admin_run uuid_of pub rep cs rows1 r1
      in (x # xs, rows2))"

text \<open>The versions that the successful calls on one policy returned, in order.\<close>

definition versions_returned :: "(string \<Rightarrow> string option) \<Rightarrow> string \<Rightarrow> admin_call list \<Rightarrow> policy_updated res list \<Rightarrow> int list" where
  "versions_returned uuid_of pid cs xs = concat (map (\<lambda>(c, x). case x of Inl _ \<Rightarrow> []
     | Inr v \<Rightarrow> if uuid_of (ac_policy_id c) = Some pid then [up_policy_version v] else []) (zip cs xs))"

definition version_of :: "policy_row list \<Rightarrow> string \<Rightarrow> int option" where
  "version_of rows = map_of (map (\<lambda>row. (pr_id row, pr_policy_version row)) rows)"

lemma version_of_bump:
  "(\<And>row. row \<in> set rows \<Longrightarrow> P row \<longleftrightarrow> pr_id row = pid) \<Longrightarrow>
   map_of (map (\<lambda>row. (pr_id row, if P row then n else pr_policy_version row)) rows) k =
     (if k = pid \<and> pid \<in> pr_id ` set rows then Some n else version_of rows k)"
  by (induction rows) (auto simp: version_of_def)

lemma version_of_update:
  assumes "distinct (map pr_id rows)" "updated_table pid tid u now rows rows'"
  shows "version_of rows pid = Some (pu_expected_version u)" "version_of rows' = (version_of rows)(pid \<mapsto> pu_expected_version u + 1)"
    "map pr_id rows' = map pr_id rows"
proof -
  obtain row where row: "filter (locked_row pid tid (pu_expected_version u)) rows = [row]"
    using assms(2) by (auto simp: updated_table_def)
  then have in_rows: "row \<in> set rows" "locked_row pid tid (pu_expected_version u) row"
    using filter_singletonD [OF row] by simp_all
  let ?f = "\<lambda>row. (pr_id row, pr_policy_version row)" and ?g = "\<lambda>row. if locked_row pid tid (pu_expected_version u) row
     then set_policy (pu_rate_limit_rps u) now row else row"
  have rows': "rows' = map ?g rows" using assms(2) by (simp add: updated_table_def)
  show ids: "map pr_id rows' = map pr_id rows" by (simp add: rows' set_policy_def)
  have d: "distinct (map fst (map ?f rows))" using assms(1) by (simp add: comp_def)
  show v: "version_of rows pid = Some (pu_expected_version u)"
    unfolding version_of_def using in_rows by (intro map_of_is_SomeI [OF d]) (auto simp: locked_row_def)
  have hit: "locked_row pid tid (pu_expected_version u) row' \<longleftrightarrow> pr_id row' = pid" if "row' \<in> set rows" for row'
    using that in_rows assms(1) by (auto simp: locked_row_def inj_on_def distinct_map)
  have "map ?f rows' = map (\<lambda>row. (pr_id row, if locked_row pid tid (pu_expected_version u) row
      then pu_expected_version u + 1 else pr_policy_version row)) rows"
    by (simp add: rows' set_policy_def locked_row_def)
  then have "version_of rows' k = ((version_of rows)(pid \<mapsto> pu_expected_version u + 1)) k" for k
    using version_of_bump [of rows "locked_row pid tid (pu_expected_version u)" pid "pu_expected_version u + 1" k] hit in_rows
    by (auto simp: version_of_def locked_row_def)
  then show "version_of rows' = (version_of rows)(pid \<mapsto> pu_expected_version u + 1)" ..
qed

lemma admin_step_version:
  assumes "distinct (map pr_id rows)" and "update_policy uuid_of pub rep pol u tenant now commit rows r = (x, rows', r')"
  shows "map pr_id rows' = map pr_id rows"
    and "version_of rows pid = Some n \<Longrightarrow> \<exists>m. version_of rows' pid = Some m \<and> n \<le> m"
    and "x = Inr v \<Longrightarrow> uuid_of pol = Some pid \<Longrightarrow> version_of rows pid = Some (pu_expected_version u) \<and>
      up_policy_version v = pu_expected_version u + 1 \<and> version_of rows' pid = Some (up_policy_version v)"
proof -
  show "map pr_id rows' = map pr_id rows"
    using update_policy_table [OF assms(2)] version_of_update [OF assms(1)] by auto
  show "\<exists>m. version_of rows' pid = Some m \<and> n \<le> m" if "version_of rows pid = Some n"
    using update_policy_table [OF assms(2)] version_of_update [OF assms(1)] that by fastforce
  assume "x = Inr v" and pid: "uuid_of pol = Some pid"
  from update_policy_success [OF assms(2) [unfolded \<open>x = Inr v\<close>]] obtain tid row where
    row: "filter (locked_row pid tid (pu_expected_version u)) rows = [row]" "updated_table pid tid u now rows rows'"
      "up_policy_version v = pr_policy_version row + 1" using pid by (metis option.inject policy_updated.select_convs(3))
  have "locked_row pid tid (pu_expected_version u) row" using filter_singletonD [OF row(1)] by simp
  with row version_of_update [OF assms(1) row(2)]
  show "version_of rows pid = Some (pu_expected_version u) \<and>
      up_policy_version v = pu_expected_version u + 1 \<and> version_of rows' pid = Some (up_policy_version v)"
    by (simp add: locked_row_def)
qed

lemma admin_run_versions:
  assumes "distinct (map pr_id rows)"
  shows "sorted_wrt (<) (versions_returned uuid_of pid cs (fst (admin_run uuid_of pub rep cs rows r))) \<and>
    (\<forall>n. version_of rows pid = Some n \<longrightarrow>
      (\<forall>v \<in> set (versions_returned uuid_of pid cs (fst (admin_run uuid_of pub rep cs rows r))). n < v))"
  using assms
proof (induction cs arbitrary: rows r)
  case (Cons c cs)
  let ?run = "\<lambda>rows r. versions_returned uuid_of pid cs (fst (admin_run uuid_of pub rep cs rows r))"
  obtain x rows1 r1 where step: "update_policy uuid_of pub rep (ac_policy_id c) (ac_update c) (ac_tenant c) (ac_now c) (ac_commit c) rows r = (x, rows1, r1)"
    by (metis surj_pair)
  note v = admin_step_version [OF Cons.prems step]
  have IH: "sorted_wrt (<) (?run rows1 r1) \<and> (\<forall>n. version_of rows1 pid = Some n \<longrightarrow> (\<forall>v \<in> set (?run rows1 r1). n < v))"
    by (rule Cons.IH) (simp add: v(1) Cons.prems)
  consider "versions_returned uuid_of pid (c # cs) (fst (admin_run uuid_of pub rep (c # cs) rows r)) = ?run rows1 r1"
    | w where "x = Inr w" "uuid_of (ac_policy_id c) = Some pid"
        "versions_returned uuid_of pid (c # cs) (fst (admin_run uuid_of pub rep (c # cs) rows r)) = up_policy_version w # ?run rows1 r1"
    by (cases x; cases "uuid_of (ac_policy_id c) = Some pid") (auto simp: versions_returned_def step split_beta)
  then show ?case
  proof cases
    case 1
    with IH v(2) show ?thesis by fastforce
  next
    case (2 w)
    with v(3) [OF 2(1,2)] IH show ?thesis by auto
  qed
qed (simp add: versions_returned_def)

subsection \<open>Properties\<close>

text \<open>
  C5: No lost updates. For any sequence of calls by any tenants, with commits that fail, publications that
  fail and answers that get lost, on a table with distinct identifiers: the versions that the
  successful updates of a policy return strictly increase, and each is the version the
  caller expected plus one. So of two callers who read the same version at most one succeeds.
\<close>

theorem no_lost_update:
  assumes "distinct (map pr_id rows)"
  shows "sorted_wrt (<) (versions_returned uuid_of pid cs (fst (admin_run uuid_of pub rep cs rows r))) \<and>
    (\<forall>v rows' r'. update_policy uuid_of pub rep policy_id u tenant now commit rows r = (Inr v, rows', r') \<longrightarrow>
       up_policy_version v = pu_expected_version u + 1 \<and>
       version_of rows (the (uuid_of policy_id)) = Some (pu_expected_version u) \<and>
       version_of rows' (the (uuid_of policy_id)) = Some (pu_expected_version u + 1))"
proof (intro conjI allI impI)
  fix v rows' r'
  assume s: "update_policy uuid_of pub rep policy_id u tenant now commit rows r = (Inr v, rows', r')"
  then obtain p where "uuid_of policy_id = Some p" by (auto elim: update_policy_success)
  with admin_step_version(3) [OF assms s refl this] show "up_policy_version v = pu_expected_version u + 1"
    "version_of rows (the (uuid_of policy_id)) = Some (pu_expected_version u)"
    "version_of rows' (the (uuid_of policy_id)) = Some (pu_expected_version u + 1)" by simp_all
qed (rule conjunct1 [OF admin_run_versions [OF assms]])

text \<open>Two operators who read version 3 of the same policy.\<close>

definition raise_to :: "int \<Rightarrow> admin_call" where
  "raise_to n = \<lparr>ac_policy_id = ''p2'', ac_update = \<lparr>pu_rate_limit_rps = n, pu_expected_version = 3\<rparr>,
     ac_tenant = JObj [(''id'', JStr ''acme'')], ac_now = 0, ac_commit = Committed\<rparr>"

theorem no_lost_update_witness:
  "sorted_wrt (<) (versions_returned Some ''p2'' [raise_to 1, raise_to 2]
     (fst (admin_run Some (\<lambda>_ _ r. (Inr (), r)) (\<lambda>_. []) [raise_to 1, raise_to 2] two_policies ()))) \<and>
   fst (admin_run Some (\<lambda>_ _ r. (Inr (), r)) (\<lambda>_. []) [raise_to 1, raise_to 2] two_policies ()) =
     [Inr \<lparr>up_policy_id = ''p2'', up_rate_limit_rps = 1, up_policy_version = 4\<rparr>,
      Inl (HTTPException 409 ''policy was modified concurrently, refetch and retry'' [])]"
proof
  have "distinct (map pr_id two_policies)" by (simp add: two_policies_def)
  then show "sorted_wrt (<) (versions_returned Some ''p2'' [raise_to 1, raise_to 2]
     (fst (admin_run Some (\<lambda>_ _ r. (Inr (), r)) (\<lambda>_. []) [raise_to 1, raise_to 2] two_policies ())))"
    by (rule conjunct1 [OF no_lost_update])
qed (simp add: raise_to_def two_policies_def update_policy_def sql_update_def locked_row_def set_policy_def int4_def
    item_str_def json_item_def)

lemma sql_update_own:
  "sql_update pid tid rps ver now (filter (\<lambda>row. pr_tenant_id row = tid) rows) =
     map_sum id (\<lambda>(returned, rows'). (returned, filter (\<lambda>row. pr_tenant_id row = tid) rows')) (sql_update pid tid rps ver now rows)"
proof -
  have "filter (locked_row pid tid ver) (filter (\<lambda>row. pr_tenant_id row = tid) rows) = filter (locked_row pid tid ver) rows"
    by (auto simp: locked_row_def intro: filter_cong)
  moreover have "filter (\<lambda>row. pr_tenant_id row = tid) (map (\<lambda>row. if locked_row pid tid ver row then set_policy rps now row else row) rows) =
      map (\<lambda>row. if locked_row pid tid ver row then set_policy rps now row else row) (filter (\<lambda>row. pr_tenant_id row = tid) rows)"
    by (induction rows) (auto simp: set_policy_def)
  moreover have "list_ex (\<lambda>row. locked_row pid tid ver row \<and> \<not> int4 (pr_policy_version row + 1)) (filter (\<lambda>row. pr_tenant_id row = tid) rows) =
      list_ex (\<lambda>row. locked_row pid tid ver row \<and> \<not> int4 (pr_policy_version row + 1)) rows"
    by (auto simp: list_ex_iff locked_row_def)
  ultimately show ?thesis by (simp add: sql_update_def Let_def)
qed

lemma update_policy_others:
  assumes "item_str ''id'' tenant = Inr tid"
    and "update_policy uuid_of pub rep policy_id u tenant now commit rows r = (x, rows', r')"
  shows "filter (\<lambda>row. pr_tenant_id row \<noteq> tid) rows' = filter (\<lambda>row. pr_tenant_id row \<noteq> tid) rows"
proof -
  have "filter (\<lambda>row. pr_tenant_id row \<noteq> tid) (map (\<lambda>row. if locked_row pid tid ver row then set_policy rps now row else row) rows) =
      filter (\<lambda>row. pr_tenant_id row \<noteq> tid) rows" for pid ver rps
    by (induction rows) (auto simp: locked_row_def set_policy_def)
  with update_policy_table [OF assms(2)] assms(1) show ?thesis by (auto simp: updated_table_def)
qed

text \<open>
  Tenants cannot see or touch each other's policies. A call by a tenant leaves the policies of all other
  tenants as they are; and its result, its errors and what it publishes are the same as if the
  table held the tenant's own policies only, so a policy of another tenant is
  indistinguishable from one that does not exist.
\<close>

theorem admin_isolates_tenants:
  assumes "item_str ''id'' tenant = Inr tid"
  shows "filter (\<lambda>row. pr_tenant_id row \<noteq> tid) (fst (snd (update_policy uuid_of pub rep policy_id u tenant now commit rows r))) =
      filter (\<lambda>row. pr_tenant_id row \<noteq> tid) rows \<and>
    fst (update_policy uuid_of pub rep policy_id u tenant now commit (filter (\<lambda>row. pr_tenant_id row = tid) rows) r) =
      fst (update_policy uuid_of pub rep policy_id u tenant now commit rows r) \<and>
    snd (snd (update_policy uuid_of pub rep policy_id u tenant now commit (filter (\<lambda>row. pr_tenant_id row = tid) rows) r)) =
      snd (snd (update_policy uuid_of pub rep policy_id u tenant now commit rows r))"
proof -
  have ex: "list_ex (\<lambda>row. pr_id row = pid \<and> pr_tenant_id row = tid) (filter (\<lambda>row. pr_tenant_id row = tid) rows) =
      list_ex (\<lambda>row. pr_id row = pid \<and> pr_tenant_id row = tid) rows" for pid
    by (auto simp: list_ex_iff)
  obtain x rows' r' where out: "update_policy uuid_of pub rep policy_id u tenant now commit rows r = (x, rows', r')" by (metis surj_pair)
  have "filter (\<lambda>row. pr_tenant_id row \<noteq> tid) rows' = filter (\<lambda>row. pr_tenant_id row \<noteq> tid) rows"
    by (rule update_policy_others [OF assms out])
  moreover have "fst (update_policy uuid_of pub rep policy_id u tenant now commit (filter (\<lambda>row. pr_tenant_id row = tid) rows) r) =
      fst (update_policy uuid_of pub rep policy_id u tenant now commit rows r)"
    "snd (snd (update_policy uuid_of pub rep policy_id u tenant now commit (filter (\<lambda>row. pr_tenant_id row = tid) rows) r)) =
      snd (snd (update_policy uuid_of pub rep policy_id u tenant now commit rows r))"
    by (simp_all add: update_policy_def assms sql_update_own ex split: option.split sum.split prod.split list.split commit_outcome.split)
  ultimately show ?thesis using out by simp
qed

theorem admin_isolates_tenants_witness:
  "fst (update_policy Some (\<lambda>_ _ r. (Inr (), r)) (\<lambda>_. []) ''p2'' \<lparr>pu_rate_limit_rps = 9, pu_expected_version = 3\<rparr>
     (JObj [(''id'', JStr ''globex'')]) 0 Committed two_policies ()) = Inl (HTTPException 404 ''policy not found'' [])"
proof -
  have "item_str ''id'' (JObj [(''id'', JStr ''globex'')]) = Inr ''globex''" by (simp add: item_str_def json_item_def)
  from conjunct1 [OF conjunct2 [OF admin_isolates_tenants [OF this, of Some "\<lambda>_ _ r. (Inr (), r)" "\<lambda>_. []" "''p2''"
      "\<lparr>pu_rate_limit_rps = 9, pu_expected_version = 3\<rparr>" 0 Committed two_policies "()"]], symmetric]
  show ?thesis
    by (simp add: two_policies_def update_policy_def sql_update_def int4_def item_str_def json_item_def)
qed

end
