(* ===== verification/Policy_Invalidation.thy ===== *)
theory Policy_Invalidation
  imports Admin
begin

section \<open>Push invalidation of cached policies\<close>

text \<open>
  \<open>gateway/app/policy_invalidation.py\<close>: the listener that flushes a tenant's cached policies when
  one of them was updated. Together with \<open>Admin\<close> and \<open>Policy\<close> this gives hot reload: once the
  listener has handled the message of an update, no lookup returns the old policy, unless one that had already read it
  from the database stores it afterwards. \<open>SCAN\<close> and \<open>DEL\<close> are operations of the server.
\<close>

record 'r key_ops =
  scan_keys :: "string \<Rightarrow> 'r \<Rightarrow> string list res \<times> 'r"
  delete_keys :: "string list \<Rightarrow> 'r \<Rightarrow> unit res \<times> 'r"

definition invalidate_tenant_cache :: "'r key_ops \<Rightarrow> string \<Rightarrow> 'r \<Rightarrow> unit res \<times> 'r" where
  "invalidate_tenant_cache D tenant_id r =
     (case scan_keys D (''policy:'' @ tenant_id @ '':*'') r of
        (Inl e, r') \<Rightarrow> (Inl e, r')
      | (Inr keys, r') \<Rightarrow> if keys = [] then (Inr (), r') else delete_keys D keys r')"

record bus_message =
  bm_type :: string
  bm_data :: string

text \<open>How an f-string prints a JSON value: \<open>show_other\<close> for floats, lists and dictionaries.\<close>

definition format_json :: "(json \<Rightarrow> string) \<Rightarrow> json \<Rightarrow> string" where
  "format_json show_other v = (case v of JStr s \<Rightarrow> s | JInt n \<Rightarrow> str_int n | JNull \<Rightarrow> ''None''
     | JBool b \<Rightarrow> (if b then ''True'' else ''False'') | _ \<Rightarrow> show_other v)"

text \<open>
  The body of the loop in \<open>_listen_once\<close>. A \<open>KeyError\<close> and a \<open>JSONDecodeError\<close> (the \<open>ValueError\<close> of
  \<open>loads\<close>) are swallowed; indexing a payload that is not an object is a \<open>TypeError\<close>, which is not.
\<close>

definition handle_message :: "'r key_ops \<Rightarrow> (json \<Rightarrow> string) \<Rightarrow> bus_message \<Rightarrow> 'r \<Rightarrow> unit res \<times> 'r" where
  "handle_message D show_other m r =
     (if bm_type m \<noteq> ''message'' then (Inr (), r)
      else
        (let (outcome, r') =
           (case loads (bm_data m) of
              Inl e \<Rightarrow> (Inl e, r)
            | Inr payload \<Rightarrow>
                (case json_item ''tenant_id'' payload of
                   Inl e \<Rightarrow> (Inl e, r)
                 | Inr tenant_id \<Rightarrow> invalidate_tenant_cache D (format_json show_other tenant_id) r))
         in case outcome of
              Inr _ \<Rightarrow> (Inr (), r')
            | Inl e \<Rightarrow> if e = KeyError \<or> e = ValueError then (Inr (), r') else (Inl e, r')))"

text \<open>
  One connection: subscribing may fail; then messages arrive until the connection fails or the
  subscription ends.
\<close>

record bus_session =
  bs_subscribe :: "unit res"
  bs_messages :: "bus_message list"
  bs_end :: "unit res"

fun handle_messages :: "'r key_ops \<Rightarrow> (json \<Rightarrow> string) \<Rightarrow> bus_message list \<Rightarrow> 'r \<Rightarrow> unit res \<times> 'r" where
  "handle_messages D show_other [] r = (Inr (), r)"
| "handle_messages D show_other (m # ms) r =
     (case handle_message D show_other m r of
        (Inl e, r') \<Rightarrow> (Inl e, r')
      | (Inr _, r') \<Rightarrow> handle_messages D show_other ms r')"

definition listen_once :: "'r key_ops \<Rightarrow> (json \<Rightarrow> string) \<Rightarrow> bus_session \<Rightarrow> 'r \<Rightarrow> unit res \<times> 'r" where
  "listen_once D show_other s r =
     (case bs_subscribe s of
        Inl e \<Rightarrow> (Inl e, r)
      | Inr _ \<Rightarrow>
          (case handle_messages D show_other (bs_messages s) r of
             (Inl e, r') \<Rightarrow> (Inl e, r')
           | (Inr _, r') \<Rightarrow> (bs_end s, r')))"

text \<open>
  The listener over the connections of the process's lifetime so far: \<open>Inr ()\<close> is a listener that is still
  running, \<open>Inl e\<close> one that died of \<open>e\<close>.
\<close>

fun listen_for_invalidations :: "'r key_ops \<Rightarrow> (json \<Rightarrow> string) \<Rightarrow> bus_session list \<Rightarrow> 'r \<Rightarrow> unit res \<times> 'r" where
  "listen_for_invalidations D show_other [] r = (Inr (), r)"
| "listen_for_invalidations D show_other (s # ss) r =
     (case listen_once D show_other s r of
        (Inl e, r') \<Rightarrow> if is_redis_error e then listen_for_invalidations D show_other ss r' else (Inl e, r')
      | (Inr _, r') \<Rightarrow> listen_for_invalidations D show_other ss r')"

subsection \<open>The server\<close>

text \<open>
  \<open>SCAN\<close> with a pattern that ends in its only star returns keys with the prefix before it, and all of them that are
  present throughout; \<open>DEL\<close> removes the keys it is given. They fail with errors of Redis only.
\<close>

definition no_glob :: "string \<Rightarrow> bool" where
  "no_glob s \<longleftrightarrow> set s \<inter> {CHR ''*'', CHR ''?'', CHR ''['', CHR '']'', CHR 0x5C} = {}"

text \<open>A message whose payload, if it is JSON at all, is an object.\<close>

definition orderly :: "bus_message \<Rightarrow> bool" where
  "orderly m \<longleftrightarrow> bm_type m \<noteq> ''message'' \<or> (\<forall>v. loads (bm_data m) = Inr v \<longrightarrow> (\<exists>kvs. v = JObj kvs))"

locale policy_bus = redis_kv K kv_up kv_view kv_elapse
  for K :: "'r kv_ops" and kv_up kv_view kv_elapse +
  fixes D :: "'r key_ops"
  assumes scan_up: "kv_up r \<Longrightarrow> no_glob pre \<Longrightarrow> \<exists>keys. scan_keys D (pre @ ''*'') r = (Inr keys, r) \<and>
      (\<forall>k \<in> set keys. \<exists>rest. k = pre @ rest) \<and> (\<forall>rest. pre @ rest \<notin> set keys \<longrightarrow> kv_view r (pre @ rest) = None)"
    and scan_errors: "fst (scan_keys D pat r) = Inl e \<Longrightarrow> is_redis_error e"
    and delete_up: "kv_up r \<Longrightarrow> \<exists>r'. delete_keys D keys r = (Inr (), r') \<and> kv_up r' \<and>
      kv_view r' = (\<lambda>k. if k \<in> set keys then None else kv_view r k)"
    and delete_errors: "fst (delete_keys D keys r) = Inl e \<Longrightarrow> is_redis_error e"
begin

lemma invalidate_up:
  assumes "kv_up r" "no_glob tid"
  shows "\<exists>r'. invalidate_tenant_cache D tid r = (Inr (), r') \<and> kv_up r' \<and>
    (\<forall>route. kv_view r' (policy_key tid route) = None) \<and>
    (\<forall>k. (\<nexists>route. k = policy_key tid route) \<longrightarrow> kv_view r' k = kv_view r k)"
proof -
  let ?pre = "''policy:'' @ tid @ '':''"
  have "no_glob ?pre" using assms(2) by (simp add: no_glob_def)
  from scan_up [OF assms(1) this] obtain keys where keys: "scan_keys D (?pre @ ''*'') r = (Inr keys, r)"
    "\<forall>k \<in> set keys. \<exists>rest. k = ?pre @ rest" "\<forall>rest. ?pre @ rest \<notin> set keys \<longrightarrow> kv_view r (?pre @ rest) = None" by blast
  have scan: "scan_keys D (''policy:'' @ tid @ '':*'') r = (Inr keys, r)" using keys(1) by simp
  have key: "?pre @ route = policy_key tid route" for route by (simp add: policy_key_def)
  show ?thesis
  proof (cases "keys = []")
    case True
    with keys(3) have "\<forall>route. kv_view r (policy_key tid route) = None" unfolding key by simp
    with True scan assms(1) show ?thesis by (simp add: invalidate_tenant_cache_def)
  next
    case False
    obtain r' where r': "delete_keys D keys r = (Inr (), r')" "kv_up r'" "kv_view r' = (\<lambda>k. if k \<in> set keys then None else kv_view r k)"
      using delete_up [OF assms(1), of keys] by blast
    with False keys(2,3) scan show ?thesis unfolding key invalidate_tenant_cache_def by auto
  qed
qed

lemma invalidate_errors: "fst (invalidate_tenant_cache D tid r) = Inl e \<Longrightarrow> is_redis_error e"
  using scan_errors [of "''policy:'' @ tid @ '':*''" r] delete_errors
  by (auto simp: invalidate_tenant_cache_def split: prod.splits sum.splits if_splits)

lemma handle_message_errors:
  assumes "orderly m" "fst (handle_message D show_other m r) = Inl e"
  shows "is_redis_error e"
proof -
  obtain payload tid where "bm_type m = ''message''" "loads (bm_data m) = Inr payload" "json_item ''tenant_id'' payload = Inr tid"
    "fst (invalidate_tenant_cache D (format_json show_other tid) r) = Inl e"
    using assms by (auto simp: handle_message_def orderly_def loads_def json_item_def Let_def split_beta
        split: sum.splits if_splits option.splits)
  with invalidate_errors show ?thesis by blast
qed

lemma handle_messages_errors:
  "list_all orderly ms \<Longrightarrow> fst (handle_messages D show_other ms r) = Inl e \<Longrightarrow> is_redis_error e"
proof (induction ms arbitrary: r)
  case (Cons m ms)
  obtain x r' where x: "handle_message D show_other m r = (x, r')" by (metis surj_pair)
  with Cons handle_message_errors [of m show_other r e] show ?case by (cases x) auto
qed simp

lemma listen_once_errors:
  assumes "list_all orderly (bs_messages s)" "\<And>e. bs_subscribe s = Inl e \<Longrightarrow> is_redis_error e" "\<And>e. bs_end s = Inl e \<Longrightarrow> is_redis_error e"
    "fst (listen_once D show_other s r) = Inl e"
  shows "is_redis_error e"
  using assms handle_messages_errors [OF assms(1), of show_other r e]
  by (auto simp: listen_once_def split: sum.splits prod.splits)

end

text \<open>
  A reference server whose strings are a dictionary, so that its keys can be listed. A pattern is
  matched by the prefix before its last character.
\<close>

record bus_ref =
  br_up :: bool
  br_strings :: "(string, string \<times> real) dict"

definition bus_view :: "bus_ref \<Rightarrow> string \<Rightarrow> (string \<times> real) option" where
  "bus_view r = dict_get (br_strings r)"

definition bus_kv :: "bus_ref kv_ops" where
  "bus_kv = \<lparr>
     kv_get = (\<lambda>k r. if br_up r then Inr (map_option fst (bus_view r k)) else Inl RedisConnectionError),
     kv_set_ex = (\<lambda>k v ttl r. if \<not> br_up r then (Inl RedisConnectionError, r)
        else (Inr (), r\<lparr>br_strings := dict_set k (v, real_of_int ttl) (br_strings r)\<rparr>))\<rparr>"

definition bus_keys :: "bus_ref key_ops" where
  "bus_keys = \<lparr>
     scan_keys = (\<lambda>pat r. if br_up r then (Inr (filter (\<lambda>k. take (length pat - 1) k = butlast pat) (map fst (br_strings r))), r)
                          else (Inl RedisConnectionError, r)),
     delete_keys = (\<lambda>keys r. if br_up r then (Inr (), r\<lparr>br_strings := dict_pops keys (br_strings r)\<rparr>)
                             else (Inl RedisConnectionError, r))\<rparr>"

definition bus_elapse :: "real \<Rightarrow> bus_ref \<Rightarrow> bus_ref" where
  "bus_elapse d r = r\<lparr>br_strings := map (\<lambda>e. (fst e, (fst (snd e), snd (snd e) - d)))
     (filter (\<lambda>e. \<exists>v t. bus_view r (fst e) = Some (v, t) \<and> d < t) (br_strings r))\<rparr>"

lemma bus_elapse_view:
  "bus_view (bus_elapse d r) k = (case bus_view r k of None \<Rightarrow> None | Some (v, ttl) \<Rightarrow> if ttl \<le> d then None else Some (v, ttl - d))"
proof -
  have filt: "map_of (filter (\<lambda>e. P (fst e)) xs) k = (if P k then map_of xs k else None)" for P and xs :: "(string \<times> string \<times> real) list"
    by (induction xs) auto
  have shift: "map_of (map (\<lambda>e. (fst e, (fst (snd e), snd (snd e) - d))) xs) k = map_option (\<lambda>e. (fst e, snd e - d)) (map_of xs k)"
    for xs :: "(string \<times> string \<times> real) list" by (induction xs) auto
  have "bus_view (bus_elapse d r) k = map_option (\<lambda>e. (fst e, snd e - d))
      (if \<exists>v t. bus_view r k = Some (v, t) \<and> d < t then bus_view r k else None)"
    using filt [where P = "\<lambda>k. \<exists>v t. dict_get (br_strings r) k = Some (v, t) \<and> d < t" and xs = "br_strings r"]
    by (auto simp: bus_elapse_def bus_view_def shift)
  then show ?thesis by (auto split: option.splits)
qed

interpretation bus: policy_bus bus_kv br_up bus_view bus_elapse bus_keys
proof
  fix r :: bus_ref and pre :: string
  assume "br_up r"
  then show "\<exists>keys. scan_keys bus_keys (pre @ ''*'') r = (Inr keys, r) \<and> (\<forall>k \<in> set keys. \<exists>rest. k = pre @ rest) \<and>
      (\<forall>rest. pre @ rest \<notin> set keys \<longrightarrow> bus_view r (pre @ rest) = None)"
    by (auto simp: bus_keys_def bus_view_def butlast_append map_of_eq_None_iff) (metis append_take_drop_id)
qed (auto simp: bus_kv_def bus_keys_def bus_view_def bus_elapse_view [unfolded bus_view_def] dict_simps fun_eq_iff split: if_splits)

interpretation bus_policies: read_cache bus_kv br_up bus_view bus_elapse
  "\<lambda>(tenant_id, route). policy_key tenant_id route" policy_query POLICY_CACHE_TTL_S
  "\<lambda>t (tenant_id, route). fetch_matching_policy (db t) tenant_id route" rep "(=)" for db rep
  by (rule policy_cache [OF bus.redis_kv_axioms]) (simp add: keeps_policies_def)

subsection \<open>Properties\<close>

lemma listener_running:
  assumes "policy_bus K kv_up kv_view kv_elapse D"
    and "\<forall>s \<in> set ss. list_all orderly (bs_messages s) \<and> (\<forall>e. bs_subscribe s = Inl e \<or> bs_end s = Inl e \<longrightarrow> is_redis_error e)"
  shows "fst (listen_for_invalidations D show_other ss r) = Inr ()"
  using assms(2)
proof (induction ss arbitrary: r)
  case (Cons s ss)
  obtain x r' where x: "listen_once D show_other s r = (x, r')" by (metis surj_pair)
  with Cons policy_bus.listen_once_errors [OF assms(1), of s show_other r] show ?case by (cases x) auto
qed simp

text \<open>
  C35: What the listener survives. As long as every message that is JSON is a JSON object, the listener
  keeps running through any number of messages (malformed ones and ones without a tenant included), failures of Redis
  while subscribing, listening or deleting, and reconnections. A single message that is JSON but not an object stops it for
  good: the exception is none of those the listener catches.
\<close>

theorem listener_survives_orderly_messages:
  assumes "policy_bus K kv_up kv_view kv_elapse D"
  shows "((\<forall>s \<in> set ss. (\<forall>m \<in> set (bs_messages s). bm_type m = ''message'' \<longrightarrow> (\<forall>v. loads (bm_data m) = Inr v \<longrightarrow> (\<exists>kvs. v = JObj kvs))) \<and>
        (\<forall>e. bs_subscribe s = Inl e \<or> bs_end s = Inl e \<longrightarrow> is_redis_error e)) \<longrightarrow>
      fst (listen_for_invalidations D show_other ss r) = Inr ()) \<and>
    (loads (bm_data m) = Inr v \<and> bm_type m = ''message'' \<and> (\<forall>kvs. v \<noteq> JObj kvs) \<longrightarrow>
      listen_for_invalidations D show_other (\<lparr>bs_subscribe = Inr (), bs_messages = m # ms, bs_end = ending\<rparr> # ss) r = (Inl TypeError, r))"
proof (intro conjI impI)
  assume "\<forall>s \<in> set ss. (\<forall>m \<in> set (bs_messages s). bm_type m = ''message'' \<longrightarrow> (\<forall>v. loads (bm_data m) = Inr v \<longrightarrow> (\<exists>kvs. v = JObj kvs))) \<and>
        (\<forall>e. bs_subscribe s = Inl e \<or> bs_end s = Inl e \<longrightarrow> is_redis_error e)"
  then show "fst (listen_for_invalidations D show_other ss r) = Inr ()"
    by (intro listener_running [OF assms]) (auto simp: orderly_def list_all_iff)
next
  assume "loads (bm_data m) = Inr v \<and> bm_type m = ''message'' \<and> (\<forall>kvs. v \<noteq> JObj kvs)"
  then show "listen_for_invalidations D show_other (\<lparr>bs_subscribe = Inr (), bs_messages = m # ms, bs_end = ending\<rparr> # ss) r = (Inl TypeError, r)"
    by (cases v) (simp_all add: listen_once_def handle_message_def json_item_def)
qed

theorem listener_survives_orderly_messages_witness:
  "fst (listen_for_invalidations bus_keys (\<lambda>_. [])
     [\<lparr>bs_subscribe = Inr (), bs_messages = [\<lparr>bm_type = ''subscribe'', bm_data = ''1''\<rparr>, \<lparr>bm_type = ''message'', bm_data = ''{''\<rparr>],
       bs_end = Inl RedisConnectionError\<rparr>] \<lparr>br_up = True, br_strings = []\<rparr>) = Inr () \<and>
   listen_for_invalidations bus_keys (\<lambda>_. [])
     [\<lparr>bs_subscribe = Inr (), bs_messages = [\<lparr>bm_type = ''message'', bm_data = ''[]''\<rparr>], bs_end = Inr ()\<rparr>]
     \<lparr>br_up = True, br_strings = []\<rparr> = (Inl TypeError, \<lparr>br_up = True, br_strings = []\<rparr>)"
proof
  have "loads ''{'' = Inl ValueError" by code_simp
  then show "fst (listen_for_invalidations bus_keys (\<lambda>_. [])
     [\<lparr>bs_subscribe = Inr (), bs_messages = [\<lparr>bm_type = ''subscribe'', bm_data = ''1''\<rparr>, \<lparr>bm_type = ''message'', bm_data = ''{''\<rparr>],
       bs_end = Inl RedisConnectionError\<rparr>] \<lparr>br_up = True, br_strings = []\<rparr>) = Inr ()"
    by (intro listener_survives_orderly_messages [OF bus.policy_bus_axioms, THEN conjunct1, rule_format]) auto
  have "loads ''[]'' = Inr (JArr [])" by code_simp
  then show "listen_for_invalidations bus_keys (\<lambda>_. [])
     [\<lparr>bs_subscribe = Inr (), bs_messages = [\<lparr>bm_type = ''message'', bm_data = ''[]''\<rparr>], bs_end = Inr ()\<rparr>]
     \<lparr>br_up = True, br_strings = []\<rparr> = (Inl TypeError, \<lparr>br_up = True, br_strings = []\<rparr>)"
    by (intro listener_survives_orderly_messages [OF bus.policy_bus_axioms, THEN conjunct2, rule_format]) auto
qed

text \<open>The lookup after an invalidation asks the database.\<close>

lemma get_policy_miss:
  assumes "redis_kv K kv_up kv_view kv_elapse" "kv_view r (policy_key tid route) = None"
  shows "fst (get_policy K rep db tid route r) = fetch_matching_policy db tid route"
proof (cases "kv_up r")
  case False
  then show ?thesis by (simp add: get_policy_def redis_kv.read_through_down [OF assms(1)])
next
  case True
  have "cached_text (kv_get K (policy_key tid route) r) = Inr None"
    using redis_kv.get_up [OF assms(1) True, of "policy_key tid route"] assms(2) by (simp add: cached_text_def)
  moreover have "fst (store_text K (policy_key tid route) t POLICY_CACHE_TTL_S r) = Inr ()" for t
    using redis_kv.set_up [OF assms(1) True, of POLICY_CACHE_TTL_S "policy_key tid route" t]
    by (auto simp: store_text_def POLICY_CACHE_TTL_S_def)
  ultimately show ?thesis
    by (auto simp: get_policy_def read_through_def split: sum.splits option.splits prod.splits) (metis fst_conv sum.distinct(1))
qed

text \<open>The message of a successful update, handled on a reachable server, flushes the tenant's cached policies and nothing else.\<close>

lemma update_message_flushes:
  assumes "policy_bus K kv_up kv_view kv_elapse D"
    and "update_policy uuid_of pub rep policy_id u tenant now commit rows r\<^sub>0 = (Inr v, rows', r\<^sub>1)"
    and "item_str ''id'' tenant = Inr tid" "no_glob tid" "kv_up r"
  obtains data r' where "pub INVALIDATION_CHANNEL data r\<^sub>0 = (Inr (), r\<^sub>1)"
    "handle_message D show_other \<lparr>bm_type = ''message'', bm_data = data\<rparr> r = (Inr (), r')" "kv_up r'"
    "\<forall>route. kv_view r' (policy_key tid route) = None"
    "\<forall>k. (\<nexists>route. k = policy_key tid route) \<longrightarrow> kv_view r' k = kv_view r k"
proof -
  obtain pid row where row: "filter (locked_row pid tid (pu_expected_version u)) rows = [row]"
    "pub INVALIDATION_CHANNEL (dumps rep (invalidation_json (set_policy (pu_rate_limit_rps u) now row))) r\<^sub>0 = (Inr (), r\<^sub>1)"
    using assms(2,3) by (auto elim!: update_policy_success)
  let ?row = "set_policy (pu_rate_limit_rps u) now row"
  have tenant: "pr_tenant_id ?row = tid" using filter_singletonD [OF row(1)] by (simp add: locked_row_def set_policy_def)
  have "json_ok (invalidation_json ?row)" by (simp add: invalidation_json_def)
  note data = loads_dumps [OF this, of rep]
  obtain r' where r': "invalidate_tenant_cache D tid r = (Inr (), r')" "kv_up r'" "\<forall>route. kv_view r' (policy_key tid route) = None"
    "\<forall>k. (\<nexists>route. k = policy_key tid route) \<longrightarrow> kv_view r' k = kv_view r k"
    using policy_bus.invalidate_up [OF assms(1,5,4)] by blast
  have "handle_message D show_other \<lparr>bm_type = ''message'', bm_data = dumps rep (invalidation_json ?row)\<rparr> r = (Inr (), r')"
    using data tenant r'(1) by (simp add: handle_message_def json_item_def invalidation_json_def format_json_def del: dumps.simps)
  with row(2) r'(2-4) that show ?thesis by blast
qed

text \<open>
  C8: Hot reload. Lookups of any tenants are in flight when a listener handles, on a reachable server, the message that a successful
  update publishes, none of them a lookup of the tenant between its read of the database and its write of the cache. The
  handler returns normally and leaves every key but the tenant's cached policies alone; and from then on, however the lookups
  go on interleaving with each other, time and outages, every result that is still to come for a route of the tenant is
  what the query answers on the updated table, for as long as the table stays as the update left it.
\<close>

theorem update_reaches_lookups:
  assumes "policy_bus K kv_up kv_view kv_elapse D" "keeps_policies kv_view env" "0 \<le> delay"
    and "update_policy uuid_of pub rep policy_id u tenant now commit rows r\<^sub>0 = (Inr v, rows', r\<^sub>1)"
    and "item_str ''id'' tenant = Inr tid" "no_glob tid" "CHR '':'' \<notin> set tid"
    and "policy_lookups K rep db kv_elapse env delay (t\<^sub>0, r\<^sub>s, \<lambda>_. None) T r fl" "kv_up r"
    and "\<forall>i route c s v. fl i \<noteq> Some (Fetched (tid, route) c s v)"
    and "\<forall>s \<ge> T. db s = Inr rows'"
  shows "\<exists>data r'. pub INVALIDATION_CHANNEL data r\<^sub>0 = (Inr (), r\<^sub>1) \<and>
    handle_message D show_other \<lparr>bm_type = ''message'', bm_data = data\<rparr> r = (Inr (), r') \<and>
    (\<forall>k. (\<nexists>route. k = policy_key tid route) \<longrightarrow> kv_view r' k = kv_view r k) \<and>
    (\<forall>t r'' fl' i route c a x. policy_lookups K rep db kv_elapse env delay (T, r', fl) t r'' fl' \<longrightarrow>
       fl' i = Some (Answered (tid, route) c a x) \<longrightarrow> fl' i \<noteq> fl i \<longrightarrow> x = fetch_matching_policy (Inr rows') tid route)"
proof -
  have kv: "redis_kv K kv_up kv_view kv_elapse" using assms(1) by (simp add: policy_bus_def)
  obtain data r' where r': "pub INVALIDATION_CHANNEL data r\<^sub>0 = (Inr (), r\<^sub>1)"
    "handle_message D show_other \<lparr>bm_type = ''message'', bm_data = data\<rparr> r = (Inr (), r')" "kv_up r'"
    "\<forall>route. kv_view r' (policy_key tid route) = None"
    "\<forall>k. (\<nexists>route. k = policy_key tid route) \<longrightarrow> kv_view r' k = kv_view r k"
    by (rule update_message_flushes [OF assms(1,4,5,6,9), where show_other = show_other])
  have "x = fetch_matching_policy (Inr rows') tid route"
    if run: "policy_lookups K rep db kv_elapse env delay (T, r', fl) t r'' fl'" "fl' i = Some (Answered (tid, route) c a x)" "fl' i \<noteq> fl i"
    for t r'' fl' i route c a x
  proof -
    have "\<exists>s \<ge> T. s \<le> a \<and> a - s < of_int POLICY_CACHE_TTL_S + delay \<and> (case (tid, route) of (tenant_id, route) \<Rightarrow> fetch_matching_policy (db s) tenant_id route) = x"
      by (rule read_cache.lookups_after_flush [OF policy_cache [OF kv assms(2)] assms(8) run(1) assms(3) _ _ _ run(2,3), where Q = "\<lambda>q. fst q = tid"])
        (use r'(4) assms(10) in \<open>auto simp: policy_query_def policy_key_inj\<close>)
    with assms(11) show ?thesis by auto
  qed
  with r'(1,2,5) show ?thesis by blast
qed

text \<open>An update of a policy that a server still has cached with its old limit, and the message it publishes.\<close>

abbreviation tightened :: "policy_updated res \<times> policy_row list \<times> string" where
  "tightened \<equiv> update_policy Some (\<lambda>_ data _. (Inr (), data)) (\<lambda>_. []) ''p2'' \<lparr>pu_rate_limit_rps = 1, pu_expected_version = 3\<rparr>
     (JObj [(''id'', JStr ''acme'')]) 0 Committed two_policies []"

definition stale_server :: bus_ref where
  "stale_server = \<lparr>br_up = True, br_strings = [(policy_key ''acme'' ''/proxy/admin/x'',
     (''{\"rate_limit_rps\": 5, \"rate_limit_window_s\": 60, \"policy_version\": 3}'', 9))]\<rparr>"

abbreviation tightened_db :: "real \<Rightarrow> policy_row list res" where
  "tightened_db s \<equiv> Inr (if s < 1 then two_policies else fst (snd tightened))"

theorem update_reaches_lookups_witness:
  "\<exists>data r' r'' x. handle_message bus_keys (\<lambda>_. []) \<lparr>bm_type = ''message'', bm_data = data\<rparr> stale_server = (Inr (), r') \<and>
     policy_lookups bus_kv (\<lambda>_. []) tightened_db bus_elapse (=) 0 (1, r', [0 \<mapsto> Called (''acme'', ''/proxy/admin/x'') 1]) 1 r''
       [0 \<mapsto> Answered (''acme'', ''/proxy/admin/x'') 1 1 x] \<and>
     x = fetch_matching_policy (tightened_db 1) ''acme'' ''/proxy/admin/x''"
proof -
  let ?q = "(''acme'', ''/proxy/admin/x'')" and ?lookups = "policy_lookups bus_kv (\<lambda>_. []) tightened_db bus_elapse (=) 0"
  obtain v where v: "tightened = (Inr v, fst (snd tightened), snd (snd tightened))"
    by (simp add: two_policies_def update_policy_def sql_update_def locked_row_def set_policy_def int4_def item_str_def json_item_def)
  have acme: "item_str ''id'' (JObj [(''id'', JStr ''acme'')]) = Inr ''acme''" "no_glob ''acme''" "CHR '':'' \<notin> set ''acme''"
    by (simp_all add: item_str_def json_item_def no_glob_def)
  have "br_up stale_server" by (simp add: stale_server_def)
  have keeps: "keeps_policies bus_view (=)" by (simp add: keeps_policies_def)
  have run\<^sub>0: "?lookups (1, stale_server, \<lambda>_. None) 1 stale_server ((\<lambda>_. None)(0 \<mapsto> Called ?q 1))"
    by (intro run_call run_start) (simp_all add: policy_query_def)
  have quiet: "\<forall>i route c s v. ([0 \<mapsto> Called ?q 1] :: nat \<Rightarrow> _ option) i \<noteq> Some (Fetched (''acme'', route) c s v)"
    "\<forall>s \<ge> 1. tightened_db s = Inr (fst (snd tightened))" by simp_all
  from update_reaches_lookups [OF bus.policy_bus_axioms keeps order_refl v acme run\<^sub>0 \<open>br_up stale_server\<close> quiet, where show_other = "\<lambda>_. []"]
  obtain data r' where r': "handle_message bus_keys (\<lambda>_. []) \<lparr>bm_type = ''message'', bm_data = data\<rparr> stale_server = (Inr (), r')"
    "\<forall>t r'' fl' i route c a x. ?lookups (1, r', [0 \<mapsto> Called ?q 1]) t r'' fl' \<longrightarrow> fl' i = Some (Answered (''acme'', route) c a x) \<longrightarrow>
       fl' i \<noteq> [0 \<mapsto> Called ?q 1] i \<longrightarrow> x = fetch_matching_policy (Inr (fst (snd tightened))) ''acme'' route" by blast
  obtain x r'' where "read_through bus_kv (\<lambda>_. []) (policy_key ''acme'' ''/proxy/admin/x'') POLICY_CACHE_TTL_S
      (fetch_matching_policy (tightened_db 1) ''acme'' ''/proxy/admin/x'') r' = (x, r'')" by (metis surj_pair)
  then have run: "?lookups (1, r', [0 \<mapsto> Called ?q 1]) 1 r'' ([0 \<mapsto> Called ?q 1](0 \<mapsto> Answered ?q 1 1 x))"
    by (intro lookup_completes) simp_all
  have "x = fetch_matching_policy (Inr (fst (snd tightened))) ''acme'' ''/proxy/admin/x''"
    by (rule r'(2) [rule_format, OF run, of 0]) simp_all
  with r'(1) run show ?thesis by (intro exI [of _ data] exI [of _ r'] exI [of _ r''] exI [of _ x]) simp
qed

text \<open>
  C19: The window that the invalidation leaves open. On any server, take lookups in flight when the listener
  handles the message of a successful update, one of them a lookup of the tenant that has read from the database and has not yet
  written to the cache, and let the update change what the query answers for its route. The handler returns normally and every cached policy of
  the tenant is gone; but the lookups can go on so that at any time less than ten seconds later another lookup of the route is
  answered with the policy from before the update, although from the moment of the flush the query does not answer with it any more. With
  the flush \<open>delay\<close> after the read, the bound on the age of a policy is reached but for the last moment.
\<close>

theorem late_store_outlives_invalidation:
  assumes "policy_bus K kv_up kv_view kv_elapse D" "keeps_policies kv_view env" "0 \<le> delay"
    and "\<forall>d r. kv_up (kv_elapse d r) = kv_up r"
    and "update_policy uuid_of pub rep policy_id u tenant now commit rows r\<^sub>0 = (Inr v, rows', r\<^sub>1)"
    and "item_str ''id'' tenant = Inr tid" "no_glob tid"
    and "policy_lookups K rep db kv_elapse env delay (t\<^sub>0, r\<^sub>s, \<lambda>_. None) T r fl" "kv_up r"
    and "fl i = Some (Fetched (tid, route) c s old)" "T - s \<le> delay" "fl j = None"
    and "\<forall>s \<ge> T. db s = Inr rows'" "fetch_matching_policy (Inr rows') tid route \<noteq> Inr (Some old)"
    and "0 \<le> d" "d < 10"
  shows "\<exists>data r' r'' fl'. pub INVALIDATION_CHANNEL data r\<^sub>0 = (Inr (), r\<^sub>1) \<and>
    handle_message D show_other \<lparr>bm_type = ''message'', bm_data = data\<rparr> r = (Inr (), r') \<and>
    (\<forall>route. kv_view r' (policy_key tid route) = None) \<and>
    policy_lookups K rep db kv_elapse env delay (T, r', fl) (T + d) r'' fl' \<and>
    fl' j = Some (Answered (tid, route) (T + d) (T + d) (Inr (Some old))) \<and>
    fetch_matching_policy (db s) tid route = Inr (Some old) \<and>
    (\<forall>t \<ge> T. fetch_matching_policy (db t) tid route \<noteq> Inr (Some old))"
proof -
  have kv: "redis_kv K kv_up kv_view kv_elapse" using assms(1) by (simp add: policy_bus_def)
  note cache = policy_cache [OF kv assms(2), where db = db]
  note read = read_cache.fetched_answer [OF cache assms(8,3,10)]
  obtain data r' where r': "pub INVALIDATION_CHANNEL data r\<^sub>0 = (Inr (), r\<^sub>1)"
    "handle_message D show_other \<lparr>bm_type = ''message'', bm_data = data\<rparr> r = (Inr (), r')" "kv_up r'"
    "\<forall>route. kv_view r' (policy_key tid route) = None"
    "\<forall>k. (\<nexists>route. k = policy_key tid route) \<longrightarrow> kv_view r' k = kv_view r k"
    by (rule update_message_flushes [OF assms(1,5,6,7,9), where show_other = show_other])
  have "json_ok old" using fetch_json read(3) by fastforce
  then have "\<exists>r'' fl'. policy_lookups K rep db kv_elapse env delay (T, r', fl) (T + d) r'' fl' \<and>
      fl' j = Some (Answered (tid, route) (T + d) (T + d) (Inr (Some old)))"
    using assms(4,15,16) by (intro read_cache.late_store_served [OF cache assms(10,12) read(1) _ r'(3) _ assms(11)]) (simp_all add: POLICY_CACHE_TTL_S_def)
  with r' read(3) assms(13,14) show ?thesis by auto
qed

text \<open>The update of the previous witness, while a lookup holds the policy it read a second before the flush; nine seconds later.\<close>

theorem late_store_outlives_invalidation_witness:
  "\<exists>data r' r'' fl'. handle_message bus_keys (\<lambda>_. []) \<lparr>bm_type = ''message'', bm_data = data\<rparr> \<lparr>br_up = True, br_strings = []\<rparr> = (Inr (), r') \<and>
     policy_lookups bus_kv (\<lambda>_. []) tightened_db bus_elapse (=) 1
       (1, r', [0 \<mapsto> Fetched (''acme'', ''/proxy/admin/x'') 0 0 admin_policy]) (1 + 9) r'' fl' \<and>
     fl' 1 = Some (Answered (''acme'', ''/proxy/admin/x'') (1 + 9) (1 + 9) (Inr (Some admin_policy)))"
proof -
  let ?q = "(''acme'', ''/proxy/admin/x'')" and ?lookups = "policy_lookups bus_kv (\<lambda>_. []) tightened_db bus_elapse (=) 1"
  let ?r = "\<lparr>br_up = True, br_strings = []\<rparr>" and ?fl = "[0 \<mapsto> Fetched (''acme'', ''/proxy/admin/x'') 0 0 admin_policy]"
  have q: "policy_query ?q" by (simp add: policy_query_def)
  have "?lookups (0, ?r, \<lambda>_. None) 0 ?r ?fl"
    by (rule bus_policies.lookup_reads [OF q, where db = tightened_db]) (simp_all add: two_policies_admin bus_view_def)
  then have "?lookups (0, ?r, \<lambda>_. None) (0 + 1) (bus_elapse 1 ?r) ?fl" by (rule run_wait) simp
  moreover have "bus_elapse 1 ?r = ?r" by (simp add: bus_elapse_def)
  ultimately have before: "?lookups (0, ?r, \<lambda>_. None) 1 ?r ?fl" by simp
  obtain v where v: "tightened = (Inr v, fst (snd tightened), snd (snd tightened))"
    by (simp add: two_policies_def update_policy_def sql_update_def locked_row_def set_policy_def int4_def item_str_def json_item_def)
  have acme: "item_str ''id'' (JObj [(''id'', JStr ''acme'')]) = Inr ''acme''" "no_glob ''acme''"
    by (simp_all add: item_str_def json_item_def no_glob_def)
  have up: "\<forall>d r. br_up (bus_elapse d r) = br_up r" by (simp add: bus_elapse_def)
  have keeps: "keeps_policies bus_view (=)" by (simp add: keeps_policies_def)
  have changed: "\<forall>s \<ge> 1. tightened_db s = Inr (fst (snd tightened))"
    "fetch_matching_policy (Inr (fst (snd tightened))) ''acme'' ''/proxy/admin/x'' \<noteq> Inr (Some admin_policy)"
    by (simp_all add: fetch_matching_policy_def two_policies_def star_to_percent_def policy_json_def update_policy_def
        sql_update_def locked_row_def set_policy_def int4_def item_str_def json_item_def)
  from late_store_outlives_invalidation [OF bus.policy_bus_axioms keeps _ up v acme before _ _ _ _ changed,
      where i = 0 and j = 1 and c = 0 and s = 0 and d = 9 and show_other = "\<lambda>_. []"]
  show ?thesis by simp blast
qed

end
