(* ===== verification/Dashboard.thy ===== *)
theory Dashboard
  imports Policy_Invalidation
begin

section \<open>The dashboard fan-out\<close>

text \<open>
  \<open>gateway/app/routes/dashboard_ws.py\<close>: the set of connected WebSocket clients and the task that
  sends every bus message to all of them. The loop over the set awaits each send, and while it waits other
  coroutines may add or remove clients; Python's set iterator checks before each step that the set
  has the size it had at the start and raises \<open>RuntimeError\<close> otherwise. Both are part of the model.
\<close>

definition CHANNELS :: "string list" where
  "CHANNELS = [''dashboard:alerts'', ''dashboard:metrics'']"

text \<open>\<open>_connected_clients\<close> as a list without repetitions, in the order the set iterates.\<close>

type_synonym 'c clients = "'c list"

text \<open>\<open>dashboard_socket\<close>: the client is added after the handshake and removed when it disconnects.\<close>

definition socket_connected :: "'c \<Rightarrow> 'c clients \<Rightarrow> 'c clients" where
  "socket_connected c cs = (if c \<in> set cs then cs else cs @ [c])"

definition discard :: "'c \<Rightarrow> 'c clients \<Rightarrow> 'c clients" where
  "discard c cs = removeAll c cs"

text \<open>
  The loop over the clients. \<open>send c\<close> is the outcome of sending to \<open>c\<close>, \<open>meanwhile c\<close> what happens to the
  set while the task waits for it, \<open>used\<close> the size at the start. The result is the list of clients that
  failed, the set, and the clients a send was attempted to. When as many clients join as leave
  during one send, the iteration goes on over the clients of the start.
\<close>

fun broadcast :: "('c \<Rightarrow> unit res) \<Rightarrow> ('c \<Rightarrow> 'c clients \<Rightarrow> 'c clients) \<Rightarrow> nat \<Rightarrow> 'c list \<Rightarrow> 'c clients \<Rightarrow> 'c list \<Rightarrow> 'c list \<Rightarrow>
    'c list res \<times> 'c clients \<times> 'c list" where
  "broadcast send meanwhile used [] cs dead sent =
     (if length cs \<noteq> used then (Inl RuntimeError, cs, sent) else (Inr dead, cs, sent))"
| "broadcast send meanwhile used (c # todo) cs dead sent =
     (if length cs \<noteq> used then (Inl RuntimeError, cs, sent)
      else broadcast send meanwhile used todo (meanwhile c cs)
             (case send c of Inr _ \<Rightarrow> dead | Inl _ \<Rightarrow> dead @ [c]) (sent @ [c]))"

definition fanout_message :: "('c \<Rightarrow> unit res) \<Rightarrow> ('c \<Rightarrow> 'c clients \<Rightarrow> 'c clients) \<Rightarrow> bus_message \<Rightarrow> 'c clients \<Rightarrow>
    unit res \<times> 'c clients \<times> 'c list" where
  "fanout_message send meanwhile m cs =
     (if bm_type m \<noteq> ''message'' then (Inr (), cs, [])
      else case broadcast send meanwhile (length cs) cs cs [] [] of
             (Inl e, cs', sent) \<Rightarrow> (Inl e, cs', sent)
           | (Inr dead, cs', sent) \<Rightarrow> (Inr (), fold discard dead cs', sent))"

text \<open>
  \<open>fanout_loop\<close> over the messages of a subscription, each with the outcomes of its sends and what happens meanwhile;
  \<open>ending\<close> is how the subscription ends. The third component collects the sends per message.
\<close>

fun fanout_messages :: "(bus_message \<times> ('c \<Rightarrow> unit res) \<times> ('c \<Rightarrow> 'c clients \<Rightarrow> 'c clients)) list \<Rightarrow> unit res \<Rightarrow> 'c clients \<Rightarrow>
    unit res \<times> 'c clients \<times> 'c list list" where
  "fanout_messages [] ending cs = (ending, cs, [])"
| "fanout_messages ((m, send, meanwhile) # ms) ending cs =
     (case fanout_message send meanwhile m cs of
        (Inl e, cs', sent) \<Rightarrow> (Inl e, cs', [sent])
      | (Inr _, cs', sent) \<Rightarrow>
          (case fanout_messages ms ending cs' of (x, cs'', rest) \<Rightarrow> (x, cs'', sent # rest)))"

definition fanout_loop :: "unit res \<Rightarrow> (bus_message \<times> ('c \<Rightarrow> unit res) \<times> ('c \<Rightarrow> 'c clients \<Rightarrow> 'c clients)) list \<Rightarrow> unit res \<Rightarrow>
    'c clients \<Rightarrow> unit res \<times> 'c clients \<times> 'c list list" where
  "fanout_loop subscribed ms ending cs =
     (case subscribed of Inl e \<Rightarrow> (Inl e, cs, []) | Inr _ \<Rightarrow> fanout_messages ms ending cs)"

subsection \<open>Properties\<close>

lemma fold_discard: "fold discard dead cs = filter (\<lambda>c. c \<notin> set dead) cs"
  by (induction dead arbitrary: cs) (auto simp: discard_def removeAll_filter_not_eq intro: filter_cong)

text \<open>The loop runs to its end as long as no send changes the number of clients; who joined and left meanwhile shows in the set.\<close>

lemma broadcast_steady:
  assumes "\<And>c ys. length (meanwhile c ys) = length ys" and "length cs = used"
  shows "broadcast send meanwhile used todo cs dead sent =
    (Inr (dead @ filter (\<lambda>c. \<exists>e. send c = Inl e) todo), fold meanwhile todo cs, sent @ todo)"
  using assms by (induction todo arbitrary: cs dead sent) (auto split: sum.splits)

lemma fanout_steady:
  assumes "\<And>c ys. length (meanwhile c ys) = length ys"
  shows "fanout_message send meanwhile \<lparr>bm_type = ''message'', bm_data = d\<rparr> cs =
    (Inr (), filter (\<lambda>c. c \<in> set cs \<longrightarrow> (\<exists>u. send c = Inr u)) (fold meanwhile cs cs), cs)"
proof -
  have "(\<exists>u. send c = Inr u) \<longleftrightarrow> (\<nexists>e. send c = Inl e)" for c by (cases "send c") auto
  then show ?thesis
    by (auto simp: fanout_message_def broadcast_steady [OF assms refl] fold_discard intro: filter_cong)
qed

lemma fold_quiet: "(\<And>c ys. meanwhile c ys = ys) \<Longrightarrow> fold meanwhile xs cs = cs"
  by (induction xs) simp_all

text \<open>
  C36: One dead client does not cost the others a message, as long as nobody comes or goes during the broadcast: then every
  connected client is sent the message, exactly the clients whose send failed are dropped, and the
  task goes on. But if the number of clients changes while a send is in progress, the iteration
  over the set raises and the fan-out task ends: the remaining clients of this message and all clients of
  later ones get nothing.
\<close>

theorem broadcast_reaches_all_or_stops:
  "((\<forall>c cs. meanwhile c cs = cs) \<longrightarrow>
      fanout_message send meanwhile \<lparr>bm_type = ''message'', bm_data = d\<rparr> cs =
        (Inr (), filter (\<lambda>c. \<exists>u. send c = Inr u) cs, cs)) \<and>
   (cs = before @ c # after \<and> (\<forall>x \<in> set before. \<forall>ys. meanwhile x ys = ys) \<and> length (meanwhile c cs) \<noteq> length cs \<longrightarrow>
      fanout_loop (Inr ()) ((\<lparr>bm_type = ''message'', bm_data = d\<rparr>, send, meanwhile) # ms) ending cs =
        (Inl RuntimeError, meanwhile c cs, [before @ [c]]))"
proof (intro conjI impI)
  assume quiet: "\<forall>c cs. meanwhile c cs = cs"
  have "fanout_message send meanwhile \<lparr>bm_type = ''message'', bm_data = d\<rparr> cs =
      (Inr (), filter (\<lambda>c. c \<in> set cs \<longrightarrow> (\<exists>u. send c = Inr u)) (fold meanwhile cs cs), cs)"
    by (rule fanout_steady) (simp add: quiet)
  also have "fold meanwhile cs cs = cs" by (rule fold_quiet) (simp add: quiet)
  finally show "fanout_message send meanwhile \<lparr>bm_type = ''message'', bm_data = d\<rparr> cs = (Inr (), filter (\<lambda>c. \<exists>u. send c = Inr u) cs, cs)"
    by (simp cong: filter_cong)
next
  assume a: "cs = before @ c # after \<and> (\<forall>x \<in> set before. \<forall>ys. meanwhile x ys = ys) \<and> length (meanwhile c cs) \<noteq> length cs"
  have "broadcast send meanwhile (length cs) (xs @ c # after) cs dead sent = (Inl RuntimeError, meanwhile c cs, sent @ xs @ [c])"
    if "\<forall>x \<in> set xs. \<forall>ys. meanwhile x ys = ys" for xs dead sent
    using that a
  proof (induction xs arbitrary: dead sent)
    case Nil
    then show ?case by (cases after) auto
  qed auto
  then have "broadcast send meanwhile (length cs) (before @ c # after) cs [] [] = (Inl RuntimeError, meanwhile c cs, before @ [c])"
    using a by auto
  then show "fanout_loop (Inr ()) ((\<lparr>bm_type = ''message'', bm_data = d\<rparr>, send, meanwhile) # ms) ending cs =
        (Inl RuntimeError, meanwhile c cs, [before @ [c]])"
    using a by (simp add: fanout_loop_def fanout_message_def)
qed

text \<open>A client that joins while the first of two is being served.\<close>

theorem broadcast_reaches_all_or_stops_witness:
  "fanout_message (\<lambda>c. if c = 2 then Inl ValueError else Inr ()) (\<lambda>_ cs. cs) \<lparr>bm_type = ''message'', bm_data = []\<rparr> [1, 2, 3::nat] =
     (Inr (), filter (\<lambda>c. \<exists>u. (if c = 2 then Inl ValueError else Inr ()) = (Inr u :: unit res)) [1, 2, 3], [1, 2, 3]) \<and>
   fanout_loop (Inr ()) [(\<lparr>bm_type = ''message'', bm_data = []\<rparr>, \<lambda>_. Inr (), \<lambda>_. socket_connected 3)] (Inr ()) [1, 2::nat] =
     (Inl RuntimeError, socket_connected 3 [1, 2], [[] @ [1]])"
proof
  show "fanout_message (\<lambda>c. if c = 2 then Inl ValueError else Inr ()) (\<lambda>_ cs. cs) \<lparr>bm_type = ''message'', bm_data = []\<rparr> [1, 2, 3::nat] =
     (Inr (), filter (\<lambda>c. \<exists>u. (if c = 2 then Inl ValueError else Inr ()) = (Inr u :: unit res)) [1, 2, 3], [1, 2, 3])"
    by (rule conjunct1 [OF broadcast_reaches_all_or_stops, rule_format]) simp
  show "fanout_loop (Inr ()) [(\<lparr>bm_type = ''message'', bm_data = []\<rparr>, \<lambda>_. Inr (), \<lambda>_. socket_connected 3)] (Inr ()) [1, 2::nat] =
     (Inl RuntimeError, socket_connected 3 [1, 2], [[] @ [1]])"
    by (rule conjunct2 [OF broadcast_reaches_all_or_stops, rule_format, where after = "[2]"]) (simp add: socket_connected_def)
qed

end
