(* ===== verification/Lifespan.thy ===== *)
theory Lifespan
  imports Dashboard Proxy
begin

section \<open>The life of a gateway process\<close>

text \<open>
  \<open>gateway/app/main.py\<close>, with the module state of \<open>gateway/app/http_client.py\<close> and \<open>gateway/app/tracing.py\<close> that it sets up and
  tears down: the two background tasks (the invalidation listener and the dashboard fan-out), the set that keeps them alive, and
  what happens to them until the process ends. The HTTP client and the tracer provider are \<open>None\<close> before the
  start-up, \<open>Some True\<close> while they are usable and \<open>Some False\<close> after they were closed.
\<close>

datatype task = Listener | Fanout

text \<open>\<open>cancel()\<close> only requests the cancellation; the task ends when the event loop runs it next.\<close>

datatype task_status = Running | Cancelling | Cancelled | Finished "unit res"

record gateway_process =
  gp_provider :: "bool option"
  gp_client :: "bool option"
  gp_background :: "task list"
  gp_status :: "task \<Rightarrow> task_status option"
  gp_serving :: bool

definition process_start :: gateway_process where
  "process_start = \<lparr>gp_provider = None, gp_client = None, gp_background = [], gp_status = (\<lambda>_. None), gp_serving = False\<rparr>"

definition setup_tracing :: "gateway_process \<Rightarrow> gateway_process" where
  "setup_tracing p = p\<lparr>gp_provider := Some True\<rparr>"

definition shutdown_tracing :: "gateway_process \<Rightarrow> gateway_process" where
  "shutdown_tracing p = (case gp_provider p of None \<Rightarrow> p | Some _ \<Rightarrow> p\<lparr>gp_provider := Some False\<rparr>)"

definition startup_http_client :: "gateway_process \<Rightarrow> gateway_process" where
  "startup_http_client p = p\<lparr>gp_client := Some True\<rparr>"

definition shutdown_http_client :: "gateway_process \<Rightarrow> gateway_process" where
  "shutdown_http_client p = (case gp_client p of None \<Rightarrow> p | Some _ \<Rightarrow> p\<lparr>gp_client := Some False\<rparr>)"

definition create_task :: "task \<Rightarrow> gateway_process \<Rightarrow> gateway_process" where
  "create_task t p = p\<lparr>gp_status := (gp_status p)(t \<mapsto> Running), gp_background := List.insert t (gp_background p)\<rparr>"

definition cancel_task :: "task \<Rightarrow> gateway_process \<Rightarrow> gateway_process" where
  "cancel_task t p = (if gp_status p t = Some Running then p\<lparr>gp_status := (gp_status p)(t \<mapsto> Cancelling)\<rparr> else p)"

text \<open>\<open>lifespan\<close> before and after its \<open>yield\<close>.\<close>

definition lifespan_startup :: "gateway_process \<Rightarrow> gateway_process" where
  "lifespan_startup p = (fold create_task [Listener, Fanout] (startup_http_client (setup_tracing p)))\<lparr>gp_serving := True\<rparr>"

definition lifespan_shutdown :: "gateway_process \<Rightarrow> gateway_process" where
  "lifespan_shutdown p = shutdown_tracing (shutdown_http_client (fold cancel_task (gp_background p) (p\<lparr>gp_serving := False\<rparr>)))"

definition health :: "string \<Rightarrow> gateway_process \<Rightarrow> json" where
  "health version p = JObj [(''status'', JStr ''ok''), (''version'', JStr version)]"

text \<open>
  What happens to a process. The listener ends when \<open>listen_for_invalidations\<close> raises and the fan-out when \<open>fanout_loop\<close>
  returns or raises; the done callback, which runs some time later, drops the task from the set.
\<close>

inductive lifespan_step :: "'r key_ops \<Rightarrow> (json \<Rightarrow> string) \<Rightarrow> gateway_process \<Rightarrow> gateway_process \<Rightarrow> bool" for D show_other where
  start: "p = process_start \<Longrightarrow> lifespan_step D show_other p (lifespan_startup p)"
| listener_ends: "gp_status p Listener = Some Running \<Longrightarrow> listen_for_invalidations D show_other ss r = (Inl e, r') \<Longrightarrow>
     lifespan_step D show_other p (p\<lparr>gp_status := (gp_status p)(Listener \<mapsto> Finished (Inl e))\<rparr>)"
| fanout_ends: "gp_status p Fanout = Some Running \<Longrightarrow> fanout_loop subscribed ms ending (cs :: string clients) = (x, cs', sent) \<Longrightarrow>
     lifespan_step D show_other p (p\<lparr>gp_status := (gp_status p)(Fanout \<mapsto> Finished x)\<rparr>)"
| cancelled: "gp_status p t = Some Cancelling \<Longrightarrow>
     lifespan_step D show_other p (p\<lparr>gp_status := (gp_status p)(t \<mapsto> Cancelled)\<rparr>)"
| done_callback: "gp_status p t = Some Cancelled \<or> gp_status p t = Some (Finished x) \<Longrightarrow>
     lifespan_step D show_other p (p\<lparr>gp_background := removeAll t (gp_background p)\<rparr>)"
| stop: "gp_serving p \<Longrightarrow> lifespan_step D show_other p (lifespan_shutdown p)"

abbreviation lifespan_reach :: "'r key_ops \<Rightarrow> (json \<Rightarrow> string) \<Rightarrow> gateway_process \<Rightarrow> bool" where
  "lifespan_reach D show_other \<equiv> (lifespan_step D show_other)\<^sup>*\<^sup>* process_start"

lemmas lifespan_defs = lifespan_startup_def startup_http_client_def setup_tracing_def create_task_def process_start_def

subsection \<open>Start-up and shutdown\<close>

lemma cancel_all:
  "gp_status (fold cancel_task ts p) t =
     (if t \<in> set ts \<and> gp_status p t = Some Running then Some Cancelling else gp_status p t)"
  by (induction ts arbitrary: p) (auto simp: cancel_task_def)

lemma cancel_frame [simp]:
  "gp_client (fold cancel_task ts p) = gp_client p" "gp_provider (fold cancel_task ts p) = gp_provider p"
  "gp_background (fold cancel_task ts p) = gp_background p" "gp_serving (fold cancel_task ts p) = gp_serving p"
  by (induction ts arbitrary: p) (simp_all add: cancel_task_def)

lemma shutdown_fields:
  "gp_status (lifespan_shutdown p) = gp_status (fold cancel_task (gp_background p) p)"
  "gp_client (lifespan_shutdown p) = map_option (\<lambda>_. False) (gp_client p)"
  "gp_provider (lifespan_shutdown p) = map_option (\<lambda>_. False) (gp_provider p)"
  "gp_background (lifespan_shutdown p) = gp_background p" "gp_serving (lifespan_shutdown p) = False"
  by (auto simp: lifespan_shutdown_def shutdown_tracing_def shutdown_http_client_def cancel_all fun_eq_iff split: option.split)

lemma started_fields:
  "gp_client (lifespan_startup process_start) = Some True" "gp_provider (lifespan_startup process_start) = Some True"
  "gp_status (lifespan_startup process_start) = [Listener \<mapsto> Running, Fanout \<mapsto> Running]"
  "set (gp_background (lifespan_startup process_start)) = {Listener, Fanout}" "gp_serving (lifespan_startup process_start)"
  by (auto simp: lifespan_defs)

text \<open>
  While the process serves, the client and the tracer are usable and every running task is kept alive by the set; once it has
  stopped, both are closed and no task is left running.
\<close>

definition process_ok :: "gateway_process \<Rightarrow> bool" where
  "process_ok p \<longleftrightarrow> p = process_start \<or>
     (if gp_serving p
      then gp_client p = Some True \<and> gp_provider p = Some True \<and>
           (\<forall>t. gp_status p t = Some Running \<longrightarrow> t \<in> set (gp_background p)) \<and>
           (\<forall>t. gp_status p t = Some Running \<or> (\<exists>x. gp_status p t = Some (Finished x)))
      else gp_client p = Some False \<and> gp_provider p = Some False \<and> (\<forall>t. gp_status p t \<noteq> Some Running \<and> gp_status p t \<noteq> None))"

lemma process_ok_step:
  assumes "lifespan_step D show_other p p'" "process_ok p"
  shows "process_ok p'"
  using assms(1)
proof (cases rule: lifespan_step.cases)
  case start
  have "gp_status p' t = Some Running" "t \<in> set (gp_background p')" for t
    using start started_fields(3,4) by (cases t; simp)+
  with start started_fields(1,2,5) show ?thesis by (simp add: process_ok_def)
next
  case stop
  then have "p \<noteq> process_start" by (auto simp: process_start_def)
  with assms(2) stop have p: "gp_client p = Some True" "gp_provider p = Some True"
    "\<And>t. gp_status p t = Some Running \<Longrightarrow> t \<in> set (gp_background p)" "\<And>t. gp_status p t \<noteq> None"
    by (auto simp: process_ok_def)
  then show ?thesis by (auto simp: process_ok_def stop(1) shutdown_fields cancel_all)
next
  case (listener_ends ss r e r')
  then have "p \<noteq> process_start" by (auto simp: process_start_def)
  with listener_ends assms(2) show ?thesis by (auto simp: process_ok_def split: if_splits)
next
  case (fanout_ends subscribed ms ending cs x cs' sent)
  then have "p \<noteq> process_start" by (auto simp: process_start_def)
  with fanout_ends assms(2) show ?thesis by (auto simp: process_ok_def split: if_splits)
next
  case (cancelled t)
  then have "p \<noteq> process_start" by (auto simp: process_start_def)
  with cancelled assms(2) show ?thesis by (auto simp: process_ok_def split: if_splits) (metis option.inject task_status.distinct(1,9))+
next
  case (done_callback t x)
  then have "p \<noteq> process_start" by (auto simp: process_start_def)
  with done_callback assms(2) show ?thesis by (auto simp: process_ok_def split: if_splits)
qed

lemma process_ok_reach: "lifespan_reach D show_other p \<Longrightarrow> process_ok p"
  by (induction rule: rtranclp_induct) (auto simp: process_ok_def [of process_start] intro: process_ok_step)


text \<open>
  C38: A process sets up before it serves and cleans up when it stops. In every state a process can reach, through tasks ending, callbacks
  and cancellations in any order: while it serves, the HTTP client and the tracer are usable, so that a request never
  finds the client missing, and every running background task is held by the set, so that it cannot be garbage collected;
  once it has stopped, the client is closed, the spans are flushed, and both tasks have ended or been told to.
\<close>

theorem process_life:
  assumes "lifespan_reach D show_other p"
  shows "(gp_serving p \<longrightarrow> gp_client p = Some True \<and> gp_provider p = Some True \<and>
      get_http_client (if gp_client p = Some True then Some send else None) = Inr send \<and>
      (\<forall>t. gp_status p t = Some Running \<longrightarrow> t \<in> set (gp_background p))) \<and>
    (\<not> gp_serving p \<and> p \<noteq> process_start \<longrightarrow> gp_client p = Some False \<and> gp_provider p = Some False \<and>
      (\<forall>t. gp_status p t \<in> {Some Cancelling, Some Cancelled} \<or> (\<exists>x. gp_status p t = Some (Finished x))))"
proof -
  have "process_ok p" by (rule process_ok_reach [OF assms])
  moreover have "\<not> gp_serving process_start" by (simp add: process_start_def)
  moreover have "gp_status p t \<in> {Some Cancelling, Some Cancelled} \<or> (\<exists>x. gp_status p t = Some (Finished x))"
    if "gp_status p t \<noteq> Some Running \<and> gp_status p t \<noteq> None" for t
    using that by (cases "the (gp_status p t)") auto
  ultimately show ?thesis by (cases "gp_serving p") (simp_all add: process_ok_def get_http_client_def, blast+)
qed

theorem process_life_witness:
  "gp_client (lifespan_startup process_start) = Some True \<and> gp_client (lifespan_shutdown (lifespan_startup process_start)) = Some False \<and>
   (\<exists>x. gp_status (lifespan_shutdown (lifespan_startup process_start)) Fanout \<in> {Some Cancelling, Some Cancelled, Some (Finished x)})"
proof -
  let ?p = "lifespan_startup process_start" and ?step = "lifespan_step bus_keys (\<lambda>_. [])"
  have one: "lifespan_reach bus_keys (\<lambda>_. []) ?p" by (rule r_into_rtranclp) (rule lifespan_step.start [OF refl])
  have "?step ?p (lifespan_shutdown ?p)" by (rule lifespan_step.stop) (rule started_fields(5))
  with one have two: "lifespan_reach bus_keys (\<lambda>_. []) (lifespan_shutdown ?p)" by (rule rtranclp.rtrancl_into_rtrancl)
  have "lifespan_shutdown ?p \<noteq> process_start" by (metis map_option_is_None option.distinct(1) process_start_def gateway_process.select_convs(2) shutdown_fields(2) started_fields(1))
  with process_life [OF one] process_life [OF two] started_fields(5) show ?thesis by (auto simp: shutdown_fields(5))
qed

subsection \<open>Tasks that end\<close>

text \<open>The listener does not end because of Redis.\<close>

lemma listener_outlives_redis: "listen_for_invalidations D show_other ss r = (Inl e, r') \<Longrightarrow> \<not> is_redis_error e"
  by (induction ss arbitrary: r) (auto split: prod.splits sum.splits if_splits)

text \<open>Nothing starts a task again.\<close>

lemma finished_stays:
  assumes "(lifespan_step D show_other)\<^sup>*\<^sup>* p p'" "gp_status p t = Some (Finished x)"
  shows "gp_status p' t = Some (Finished x)"
  using assms
proof (induction rule: rtranclp_induct)
  case (step p' p'')
  from step.hyps(2) step.IH [OF step.prems] show ?case
    by (cases rule: lifespan_step.cases) (auto simp: process_start_def shutdown_fields cancel_all)
qed

text \<open>
  C39: Background tasks are not supervised. When the connection to Redis breaks, the listener reconnects, but the fan-out of a
  serving process ends; whatever happens then, the fan-out never runs again in this process, which goes on serving and
  reports itself healthy. The listener, in turn, only ever ends of an error that is none of Redis.
\<close>

theorem redis_blip_ends_fanout:
  assumes "lifespan_reach D show_other p" "gp_serving p" "gp_status p Fanout = Some Running"
  shows "fst (listen_for_invalidations D show_other [\<lparr>bs_subscribe = Inr (), bs_messages = [], bs_end = Inl RedisConnectionError\<rparr>] r) = Inr () \<and>
    (\<exists>p'. lifespan_step D show_other p p' \<and> gp_serving p' \<and> gp_status p' Fanout = Some (Finished (Inl RedisConnectionError)) \<and>
      (\<forall>p''. (lifespan_step D show_other)\<^sup>*\<^sup>* p' p'' \<longrightarrow> gp_status p'' Fanout = Some (Finished (Inl RedisConnectionError)) \<and>
         health version p'' = JObj [(''status'', JStr ''ok''), (''version'', JStr version)])) \<and>
    (\<forall>p' x. (lifespan_step D show_other)\<^sup>*\<^sup>* p p' \<and> gp_status p' Listener = Some (Finished x) \<longrightarrow> (\<exists>e. x = Inl e \<and> \<not> is_redis_error e))"
proof (intro conjI allI impI)
  show "fst (listen_for_invalidations D show_other [\<lparr>bs_subscribe = Inr (), bs_messages = [], bs_end = Inl RedisConnectionError\<rparr>] r) = Inr ()"
    by (simp add: listen_once_def)
  let ?p = "p\<lparr>gp_status := (gp_status p)(Fanout \<mapsto> Finished (Inl RedisConnectionError))\<rparr>"
  have "fanout_loop (Inr ()) [] (Inl RedisConnectionError) [] = (Inl RedisConnectionError, [] :: string list, [])" by (simp add: fanout_loop_def)
  with assms(3) have "lifespan_step D show_other p ?p" by (rule lifespan_step.fanout_ends)
  moreover have "gp_status ?p Fanout = Some (Finished (Inl RedisConnectionError))" by simp
  ultimately show "\<exists>p'. lifespan_step D show_other p p' \<and> gp_serving p' \<and> gp_status p' Fanout = Some (Finished (Inl RedisConnectionError)) \<and>
      (\<forall>p''. (lifespan_step D show_other)\<^sup>*\<^sup>* p' p'' \<longrightarrow> gp_status p'' Fanout = Some (Finished (Inl RedisConnectionError)) \<and>
         health version p'' = JObj [(''status'', JStr ''ok''), (''version'', JStr version)])"
    using assms(2) finished_stays [of D show_other ?p] by (intro exI [of _ ?p]) (auto simp: health_def)
next
  fix p' x assume "(lifespan_step D show_other)\<^sup>*\<^sup>* p p' \<and> gp_status p' Listener = Some (Finished x)"
  moreover have "gp_status p' Listener = Some (Finished x) \<longrightarrow> (\<exists>e. x = Inl e \<and> \<not> is_redis_error e)" if "lifespan_reach D show_other p'" for p'
    using that
  proof (induction rule: rtranclp_induct)
    case (step p' p'')
    from step.hyps(2) step.IH show ?case
      by (cases rule: lifespan_step.cases) (auto simp: shutdown_fields cancel_all started_fields dest: listener_outlives_redis split: if_splits)
  qed (simp add: process_start_def)
  ultimately show "\<exists>e. x = Inl e \<and> \<not> is_redis_error e" using assms(1) rtranclp_trans by metis
qed

theorem redis_blip_ends_fanout_witness:
  "\<exists>p'. lifespan_step bus_keys (\<lambda>_. []) (lifespan_startup process_start) p' \<and> gp_serving p' \<and>
     gp_status p' Fanout = Some (Finished (Inl RedisConnectionError))"
proof -
  have "lifespan_reach bus_keys (\<lambda>_. []) (lifespan_startup process_start)"
    by (rule r_into_rtranclp) (rule lifespan_step.start [OF refl])
  moreover have "gp_status (lifespan_startup process_start) Fanout = Some Running" by (simp add: started_fields)
  ultimately show ?thesis
    using redis_blip_ends_fanout [OF _ started_fields(5), THEN conjunct2, THEN conjunct1, of bus_keys "\<lambda>_. []"] by blast
qed

end
