(* ===== verification/App.thy ===== *)
theory App
  imports Gateway_Properties Admin Lifespan
begin

section \<open>The application\<close>

text \<open>
  \<open>gateway/app/main.py\<close>, the routers it includes and \<open>gateway/app/routes/metrics.py\<close>: which handler answers a request, and the whole HTTP
  surface of the gateway as one function. The matching of a path against a template is Starlette's and an argument, with the
  documented behaviour in the locale \<open>path_templates\<close>; so are the rendering of JSON and of errors, the answer to a request
  that no route takes, and \<open>generate_latest()\<close>. (A request that lacks a header or body the handler declares, and one for FastAPI's own documentation pages, is
  answered by FastAPI before any of this code runs.)
\<close>

subsection \<open>Routes\<close>

datatype endpoint = ProxyPath | UpdatePolicy | DashboardSocket | MetricsPage | HealthCheck

datatype scope = Http string | WebSocket

record route =
  rt_scopes :: "scope list"
  rt_template :: string
  rt_endpoint :: endpoint

definition proxy_router :: "route list" where
  "proxy_router = [\<lparr>rt_scopes = map Http [''GET'', ''POST'', ''PUT'', ''DELETE'', ''PATCH''], rt_template = ''/proxy/{path:path}'', rt_endpoint = ProxyPath\<rparr>]"

definition admin_router :: "route list" where
  "admin_router = [\<lparr>rt_scopes = [Http ''PATCH''], rt_template = ''/admin'' @ ''/policies/{policy_id}'', rt_endpoint = UpdatePolicy\<rparr>]"

definition dashboard_ws_router :: "route list" where
  "dashboard_ws_router = [\<lparr>rt_scopes = [WebSocket], rt_template = ''/ws/dashboard'', rt_endpoint = DashboardSocket\<rparr>]"

definition metrics_router :: "route list" where
  "metrics_router = [\<lparr>rt_scopes = [Http ''GET''], rt_template = ''/metrics'', rt_endpoint = MetricsPage\<rparr>]"

text \<open>In the order of registration.\<close>

definition app_routes :: "route list" where
  "app_routes = proxy_router @ admin_router @ dashboard_ws_router @ metrics_router @
     [\<lparr>rt_scopes = [Http ''GET''], rt_template = ''/health'', rt_endpoint = HealthCheck\<rparr>]"

text \<open>The first route that matches, with the value of its parameter.\<close>

datatype resolved = Handled endpoint string | NotHandled

fun resolve :: "(string \<Rightarrow> string \<Rightarrow> string option) \<Rightarrow> scope \<Rightarrow> string \<Rightarrow> route list \<Rightarrow> resolved" where
  "resolve matches sc path [] = NotHandled"
| "resolve matches sc path (rt # rts) =
     (case matches (rt_template rt) path of
        Some param \<Rightarrow> if sc \<in> set (rt_scopes rt) then Handled (rt_endpoint rt) param else resolve matches sc path rts
      | None \<Rightarrow> resolve matches sc path rts)"

subsection \<open>Requests\<close>

text \<open>The libraries, the state, and what one request draws and finds: its key, its body, clocks, the databases, the upstream.\<close>

record 'r app_env =
  ae_services :: "'r services"
  ae_matches :: "string \<Rightarrow> string \<Rightarrow> string option"
  ae_uuid_of :: "string \<Rightarrow> string option"
  ae_publish :: "string \<Rightarrow> string \<Rightarrow> 'r \<Rightarrow> unit res \<times> 'r"
  ae_json_response :: "json \<Rightarrow> http_response"
  ae_unhandled :: "http_request \<Rightarrow> http_response res"
  ae_error_body :: "string \<Rightarrow> string"
  ae_generate_latest :: "'r gateway \<Rightarrow> string"
  ae_content_type :: string

record 'r app_state =
  st_gateway :: "'r gateway"
  st_tenants :: "tenant_row list"
  st_policies :: "policy_row list"
  st_sent :: "outbound list"
  st_process :: gateway_process

record app_call =
  ca_request_id :: string
  ca_api_key :: string
  ca_update :: policy_update
  ca_readings :: readings
  ca_proxy_readings :: proxy_readings
  ca_client :: "http_client option"
  ca_db :: "unit res"
  ca_admin_db :: "unit res"
  ca_now :: real
  ca_commit :: commit_outcome

definition VERSION :: string where
  "VERSION = ''0.1.0''"

definition metrics :: "'r app_env \<Rightarrow> 'r app_state \<Rightarrow> http_response" where
  "metrics E s = \<lparr>rs_status_code = 200, rs_headers = [(''content-type'', ae_content_type E)],
     rs_content = ae_generate_latest E (st_gateway s)\<rparr>"

definition updated_json :: "policy_updated \<Rightarrow> json" where
  "updated_json u = JObj [(''policy_id'', JStr (up_policy_id u)), (''rate_limit_rps'', JInt (up_rate_limit_rps u)),
     (''policy_version'', JInt (up_policy_version u))]"

text \<open>A table, as a session of an engine that may be unreachable sees it.\<close>

definition session_rows :: "unit res \<Rightarrow> 'a list \<Rightarrow> 'a list res" where
  "session_rows db rows = res_bind db (\<lambda>_. Inr rows)"

text \<open>The dependencies of the admin handler: the tenant, then a session of the admin engine.\<close>

definition admin_route :: "'r app_env \<Rightarrow> app_call \<Rightarrow> string \<Rightarrow> 'r app_state \<Rightarrow> http_response res \<times> 'r app_state" where
  "admin_route E c policy_id s =
     (let V = ae_services E; g = st_gateway s
      in case get_tenant (sv_kv V) (sv_repr V) (sv_sha256 V) (session_rows (ca_db c) (st_tenants s)) (ca_api_key c) (gw_redis g) of
           (Inl e, r) \<Rightarrow> (Inl e, s\<lparr>st_gateway := g\<lparr>gw_redis := r\<rparr>\<rparr>)
         | (Inr tenant, r) \<Rightarrow>
             (case ca_admin_db c of
                Inl e \<Rightarrow> (Inl e, s\<lparr>st_gateway := g\<lparr>gw_redis := r\<rparr>\<rparr>)
              | Inr _ \<Rightarrow>
                  (case update_policy (ae_uuid_of E) (ae_publish E) (sv_repr V) policy_id (ca_update c) tenant (ca_now c) (ca_commit c)
                          (st_policies s) r of
                     (x, rows, r') \<Rightarrow> (res_bind x (\<lambda>u. Inr (ae_json_response E (updated_json u))),
                        s\<lparr>st_gateway := g\<lparr>gw_redis := r'\<rparr>, st_policies := rows\<rparr>))))"

definition proxied :: "'r app_env \<Rightarrow> app_call \<Rightarrow> string \<Rightarrow> http_request \<Rightarrow> 'r app_state \<Rightarrow> http_response res \<times> 'r app_state" where
  "proxied E c path q s =
     (case proxy_route (ae_services E) (session_rows (ca_db c) (st_tenants s)) (session_rows (ca_db c) (st_policies s))
             (ca_readings c) (ca_proxy_readings c) (ca_client c) (ca_api_key c) path q (st_gateway s) of
        (x, g, sent) \<Rightarrow> (x, s\<lparr>st_gateway := g, st_sent := st_sent s @ sent\<rparr>))"

text \<open>Without a route the answer is Starlette's.\<close>

definition route_request :: "'r app_env \<Rightarrow> app_call \<Rightarrow> http_request \<Rightarrow> 'r app_state \<Rightarrow> http_response res \<times> 'r app_state" where
  "route_request E c q s =
     (case resolve (ae_matches E) (Http (rq_method q)) (rq_url_path q) app_routes of
        Handled ProxyPath path \<Rightarrow> proxied E c path q s
      | Handled UpdatePolicy policy_id \<Rightarrow> admin_route E c policy_id s
      | Handled MetricsPage _ \<Rightarrow> (Inr (metrics E s), s)
      | Handled HealthCheck _ \<Rightarrow> (Inr (ae_json_response E (health VERSION (st_process s))), s)
      | _ \<Rightarrow> (ae_unhandled E q, s))"

text \<open>The application with its middleware.\<close>

definition app :: "'r app_env \<Rightarrow> app_call \<Rightarrow> http_request \<Rightarrow> 'r app_state \<Rightarrow> http_response res \<times> 'r app_state" where
  "app E c = dispatch (ae_error_body E) (ca_request_id c) (route_request E c)"

subsection \<open>Which handler\<close>

lemma app_templates:
  "list_all (\<lambda>rt. rt_template rt \<in> set [''/proxy/'' @ ''{path:path}'', ''/admin/policies/'' @ ''{policy_id}'',
     ''/ws/dashboard'', ''/metrics'', ''/health'']) app_routes"
  by code_simp

lemma distinct_starts:
  assumes "rt \<in> set app_routes" "rt' \<in> set app_routes" "take 2 (rt_template rt) = take 2 (rt_template rt')"
  shows "rt = rt'"
proof -
  have "distinct (map (\<lambda>rt. take 2 (rt_template rt)) app_routes)" by code_simp
  with assms show ?thesis unfolding distinct_map inj_on_def by blast
qed

text \<open>
  What Starlette documents of path templates, for paths without a line break: a literal matches itself, a parameter at the end one
  non-empty segment, and a path parameter at the end whatever remains.
\<close>

locale path_templates =
  fixes matches :: "string \<Rightarrow> string \<Rightarrow> string option"
  assumes literal: "CHR 0x0A \<notin> set path \<Longrightarrow> CHR ''{'' \<notin> set pre \<Longrightarrow> matches pre path = (if path = pre then Some [] else None)"
    and segment: "CHR 0x0A \<notin> set path \<Longrightarrow> CHR ''{'' \<notin> set pre \<Longrightarrow> matches (pre @ ''{policy_id}'') path =
      (let rest = drop (length pre) path in if take (length pre) path = pre \<and> rest \<noteq> [] \<and> CHR ''/'' \<notin> set rest then Some rest else None)"
    and remainder: "CHR 0x0A \<notin> set path \<Longrightarrow> CHR ''{'' \<notin> set pre \<Longrightarrow> matches (pre @ ''{path:path}'') path =
      (if take (length pre) path = pre then Some (drop (length pre) path) else None)"
begin

lemma matching_start:
  assumes "CHR 0x0A \<notin> set path" "rt \<in> set app_routes" "matches (rt_template rt) path \<noteq> None"
  shows "take 2 (rt_template rt) = take 2 path"
proof -
  have start: "take 2 (pre @ suf) = take 2 path" if "take (length pre) path = pre" "2 \<le> length pre" for pre suf :: string
    using that by (metis take_append diff_is_0_eq take0 append_Nil2 take_take min.absorb1)
  from app_templates assms(2) consider
      "rt_template rt = ''/proxy/'' @ ''{path:path}''" | "rt_template rt = ''/admin/policies/'' @ ''{policy_id}''"
    | "rt_template rt \<in> {''/ws/dashboard'', ''/metrics'', ''/health''}" by (fastforce simp only: list_all_iff list.set insert_iff empty_iff)
  then show ?thesis
  proof cases
    case 1
    have "CHR ''{'' \<notin> set ''/proxy/''" by simp
    from remainder [OF assms(1) this] assms(3) 1 have "take (length ''/proxy/'') path = ''/proxy/''" by (metis (no_types))
    from start [OF this, of "''{path:path}''"] 1 show ?thesis by simp
  next
    case 2
    have "CHR ''{'' \<notin> set ''/admin/policies/''" by simp
    from segment [OF assms(1) this] assms(3) 2 have "take (length ''/admin/policies/'') path = ''/admin/policies/''"
      unfolding Let_def by (metis (no_types))
    from start [OF this, of "''{policy_id}''"] 2 show ?thesis by simp
  next
    case 3
    then have "CHR ''{'' \<notin> set (rt_template rt)" by auto
    from literal [OF assms(1) this] assms(3) show ?thesis by (metis (no_types))
  qed
qed

lemma one_route:
  assumes "CHR 0x0A \<notin> set path" "rt \<in> set app_routes" "rt' \<in> set app_routes"
    and "matches (rt_template rt) path \<noteq> None" "matches (rt_template rt') path \<noteq> None"
  shows "rt = rt'"
  using matching_start [OF assms(1)] assms(2-5) by (intro distinct_starts) simp_all

end

lemma resolve_iff:
  assumes "\<And>rt rt'. rt \<in> set rts \<Longrightarrow> rt' \<in> set rts \<Longrightarrow> matches (rt_template rt) path \<noteq> None \<Longrightarrow>
    matches (rt_template rt') path \<noteq> None \<Longrightarrow> rt = rt'"
  shows "resolve matches sc path rts = Handled ep param \<longleftrightarrow>
    (\<exists>rt \<in> set rts. matches (rt_template rt) path = Some param \<and> sc \<in> set (rt_scopes rt) \<and> rt_endpoint rt = ep)"
  using assms
proof (induction rts)
  case (Cons rt rts)
  then have IH: "resolve matches sc path rts = Handled ep param \<longleftrightarrow>
      (\<exists>rt \<in> set rts. matches (rt_template rt) path = Some param \<and> sc \<in> set (rt_scopes rt) \<and> rt_endpoint rt = ep)" by auto
  show ?case
  proof (cases "matches (rt_template rt) path")
    case (Some p)
    then have only: "rt' = rt" if "rt' \<in> set rts" "matches (rt_template rt') path = Some param" for rt'
      using Cons.prems [of rt' rt] that by simp
    have "resolve matches sc path rts \<noteq> Handled ep param" if "sc \<notin> set (rt_scopes rt)"
      using IH only that by auto
    with Some only show ?thesis by (cases "sc \<in> set (rt_scopes rt)") auto
  qed (simp add: IH)
qed simp

context path_templates
begin

lemma router_order_irrelevant:
  assumes "CHR 0x0A \<notin> set path" "mset rts = mset app_routes"
  shows "resolve matches sc path rts = resolve matches sc path app_routes"
proof -
  have same: "set rts = set app_routes" using assms(2) by (rule mset_eq_setD)
  have "resolve matches sc path rts = Handled ep param \<longleftrightarrow> resolve matches sc path app_routes = Handled ep param" for ep param
    using resolve_iff [of rts matches path sc ep param] resolve_iff [of app_routes matches path sc ep param]
      one_route [OF assms(1)] unfolding same by blast
  then show ?thesis by (metis resolved.exhaust)
qed

lemma resolve_proxy:
  assumes "CHR 0x0A \<notin> set path" "m \<in> {''GET'', ''POST'', ''PUT'', ''DELETE'', ''PATCH''}"
  shows "resolve matches (Http m) (''/proxy/'' @ path) app_routes = Handled ProxyPath path"
proof -
  have "CHR 0x0A \<notin> set (''/proxy/'' @ path)" "CHR ''{'' \<notin> set ''/proxy/''" using assms(1) by auto
  from remainder [OF this] have "matches (''/proxy/'' @ ''{path:path}'') (''/proxy/'' @ path) = Some path" by simp
  with assms(2) show ?thesis by (auto simp: app_routes_def proxy_router_def)
qed

end

text \<open>A matcher for the templates of the application.\<close>

definition template_match :: "string \<Rightarrow> string \<Rightarrow> string option" where
  "template_match t path =
     (let pre = takeWhile (\<lambda>c. c \<noteq> CHR ''{'') t; param = dropWhile (\<lambda>c. c \<noteq> CHR ''{'') t; rest = drop (length pre) path
      in if param = [] then (if path = pre then Some [] else None)
         else if take (length pre) path \<noteq> pre then None
         else if param = ''{path:path}'' then Some rest
         else if rest \<noteq> [] \<and> CHR ''/'' \<notin> set rest then Some rest else None)"

interpretation ref_templates: path_templates template_match
proof
  fix path pre :: string
  assume pre: "CHR ''{'' \<notin> set pre"
  then have cut: "takeWhile (\<lambda>c. c \<noteq> CHR ''{'') (pre @ suf) = pre @ takeWhile (\<lambda>c. c \<noteq> CHR ''{'') suf"
    "dropWhile (\<lambda>c. c \<noteq> CHR ''{'') (pre @ suf) = dropWhile (\<lambda>c. c \<noteq> CHR ''{'') suf" for suf
    by (auto intro!: takeWhile_append2 dropWhile_append2)
  have "takeWhile (\<lambda>c. c \<noteq> CHR ''{'') pre = pre" "dropWhile (\<lambda>c. c \<noteq> CHR ''{'') pre = []"
    using pre by (auto simp: takeWhile_eq_all_conv)
  then show "template_match pre path = (if path = pre then Some [] else None)"
    unfolding template_match_def Let_def by (simp only: simp_thms if_True)
  show "template_match (pre @ ''{policy_id}'') path = (let rest = drop (length pre) path in
      if take (length pre) path = pre \<and> rest \<noteq> [] \<and> CHR ''/'' \<notin> set rest then Some rest else None)"
    "template_match (pre @ ''{path:path}'') path = (if take (length pre) path = pre then Some (drop (length pre) path) else None)"
    by (simp_all add: template_match_def cut Let_def)
qed

subsection \<open>What a request may do\<close>

lemma dispatch_state: "snd (dispatch render i call_next q g) = snd (call_next (q\<lparr>rq_request_id := i\<rparr>) g)"
  by (auto simp: dispatch_def split: prod.split sum.split exn.split)

text \<open>A key that no tenant has and the cache does not hold is refused without a trace.\<close>

lemma get_tenant_unknown:
  assumes "redis_kv K kv_up kv_view kv_elapse" "kv_up r \<Longrightarrow> kv_view r (tenant_key (hash_key sha key)) = None"
    and "\<forall>t \<in> set rows. tn_api_key_hash t \<noteq> hash_key sha key"
  shows "get_tenant K rep sha (session_rows db rows) key r =
    (res_bind db (\<lambda>_. Inl (HTTPException 401 ''invalid API key'' [])), r)"
proof -
  have none: "lookup_tenant_by_key_hash (session_rows db rows) (hash_key sha key) = res_bind db (\<lambda>_. Inr None)"
    using assms(3) by (cases db) (auto simp: lookup_tenant_by_key_hash_def session_rows_def filter_empty_conv split: list.split)
  then have "\<nexists>v. lookup_tenant_by_key_hash (session_rows db rows) (hash_key sha key) = Inr (Some v)" by (cases db) auto
  then have "read_through K rep (tenant_key (hash_key sha key)) AUTH_CACHE_TTL_S
      (lookup_tenant_by_key_hash (session_rows db rows) (hash_key sha key)) r = (res_bind db (\<lambda>_. Inr None), r)"
    using redis_kv.read_through_down [OF assms(1)] redis_kv.read_through_miss [OF assms(1)] assms(2) none by (metis (no_types))
  then show ?thesis by (cases db) (simp_all add: prod_eq_iff get_tenant_parts tenant_result_def)
qed

text \<open>A gateway on the reference server with the seeded tenant, and a request to it.\<close>

definition ref_app :: "redis_ref app_env" where
  "ref_app = \<lparr>ae_services = ref_services, ae_matches = template_match, ae_uuid_of = Some, ae_publish = (\<lambda>_ _ r. (Inr (), r)),
     ae_json_response = (\<lambda>v. \<lparr>rs_status_code = 200, rs_headers = [], rs_content = dumps (\<lambda>_. []) v\<rparr>),
     ae_unhandled = (\<lambda>_. Inl (HTTPException 404 ''Not Found'' [])), ae_error_body = (\<lambda>s. s), ae_generate_latest = (\<lambda>_. []), ae_content_type = ''text/plain''\<rparr>"

definition ref_app_state :: "redis_ref app_state" where
  "ref_app_state = \<lparr>st_gateway = idle_gateway True, st_tenants = [acme_row], st_policies = two_policies, st_sent = [],
     st_process = lifespan_startup process_start\<rparr>"

definition call_with :: "string \<Rightarrow> app_call" where
  "call_with key = \<lparr>ca_request_id = ''r1'', ca_api_key = key, ca_update = \<lparr>pu_rate_limit_rps = 9, pu_expected_version = 3\<rparr>,
     ca_readings = check_readings, ca_proxy_readings = second_readings, ca_client = Some (\<lambda>_. Inr gzipped), ca_db = Inr (),
     ca_admin_db = Inr (), ca_now = 0, ca_commit = Committed\<rparr>"

definition patch_request :: http_request where
  "patch_request = any_request\<lparr>rq_method := ''PATCH'', rq_url_path := ''/admin/policies/p2''\<rparr>"

text \<open>
  C14: Without a valid key nothing happens. Let the key a request presents belong to no tenant, and let no tenant be cached under it.
  Whatever the request, to whichever path, with Redis or the database reachable or not: the tables, the caches, the limiters, the
  counters and the events stay as they were and nothing is sent upstream. With the database reachable, a proxied request and a policy
  update are answered with 401.
\<close>

theorem unknown_key_changes_nothing:
  assumes "redis_kv (sv_kv (ae_services E)) kv_up kv_view kv_elapse"
    and "kv_up (gw_redis (st_gateway s)) \<Longrightarrow>
      kv_view (gw_redis (st_gateway s)) (tenant_key (hash_key (sv_sha256 (ae_services E)) (ca_api_key c))) = None"
    and "\<forall>t \<in> set (st_tenants s). tn_api_key_hash t \<noteq> hash_key (sv_sha256 (ae_services E)) (ca_api_key c)"
  shows "snd (app E c q s) = s \<and>
    (\<forall>ep param. resolve (ae_matches E) (Http (rq_method q)) (rq_url_path q) app_routes = Handled ep param \<and>
       ep \<in> {ProxyPath, UpdatePolicy} \<and> ca_db c = Inr () \<longrightarrow>
       (\<exists>resp. fst (app E c q s) = Inr resp \<and> rs_status_code resp = 401))"
proof -
  note refused = get_tenant_unknown [OF assms]
  let ?unknown = "res_bind (ca_db c) (\<lambda>_. Inl (HTTPException 401 ''invalid API key'' []))"
  have admin: "admin_route E c policy_id s = (?unknown, s)" for policy_id
    by (cases "ca_db c") (simp_all add: admin_route_def Let_def refused)
  have "proxy_route (ae_services E) (session_rows (ca_db c) (st_tenants s)) policies rd pd client (ca_api_key c) path q (st_gateway s) =
      (?unknown, st_gateway s, [])" for policies rd pd client path q
    by (cases "ca_db c") (simp_all add: proxy_route_def refused)
  then have prox: "proxied E c path q s = (?unknown, s)" for path q by (simp add: proxied_def)
  have "snd (app E c q s) = s"
    by (auto simp: app_def dispatch_state route_request_def admin prox split: resolved.split endpoint.split)
  moreover have "\<exists>resp. fst (app E c q s) = Inr resp \<and> rs_status_code resp = 401"
    if "resolve (ae_matches E) (Http (rq_method q)) (rq_url_path q) app_routes = Handled ep param" "ep \<in> {ProxyPath, UpdatePolicy}"
      "ca_db c = Inr ()" for ep param
    using that by (auto simp: app_def dispatch_def route_request_def admin prox set_header_def error_response_def)
  ultimately show ?thesis by blast
qed

theorem unknown_key_changes_nothing_witness:
  "snd (app ref_app (call_with ''guess'') any_request ref_app_state) = ref_app_state \<and>
   (\<exists>resp. fst (app ref_app (call_with ''guess'') any_request ref_app_state) = Inr resp \<and> rs_status_code resp = 401)"
proof -
  have "redis_kv (sv_kv (ae_services ref_app)) ref_up ref_strings ref_kv_elapse"
    using ref.redis_kv_axioms by (simp add: ref_app_def)
  note refused = unknown_key_changes_nothing [OF this, of ref_app_state "call_with ''guess''" any_request]
  have "resolve template_match (Http ''GET'') (''/proxy/'' @ ''x'') app_routes = Handled ProxyPath ''x''"
    by (rule ref_templates.resolve_proxy) simp_all
  with refused show ?thesis
    by (simp add: ref_app_def ref_app_state_def call_with_def any_request_def hash_key_def ref_services_def acme_row_def)
qed

text \<open>
  C13: A tenant reaches only what is its own. A request authenticated as a tenant, to whichever path, leaves the policies of all
  other tenants and the tenants table as they are; what it sends upstream goes to the tenant's own base URL; and the event
  it leaves, if any, is booked under the tenant.
\<close>

theorem app_isolates_tenants:
  assumes "get_tenant (sv_kv (ae_services E)) (sv_repr (ae_services E)) (sv_sha256 (ae_services E))
      (session_rows (ca_db c) (st_tenants s)) (ca_api_key c) (gw_redis (st_gateway s)) = (Inr (tenant_json t), r)"
    and "app E c q s = (x, s')"
  shows "st_tenants s' = st_tenants s \<and>
    filter (\<lambda>row. pr_tenant_id row \<noteq> tn_id t) (st_policies s') = filter (\<lambda>row. pr_tenant_id row \<noteq> tn_id t) (st_policies s) \<and>
    (\<exists>sent. st_sent s' = st_sent s @ sent \<and> (\<forall>out \<in> set sent. \<exists>path. ob_url out = tn_upstream_base_url t @ ''/'' @ path)) \<and>
    (gw_emitter (st_gateway s') = gw_emitter (st_gateway s) \<or>
     (\<exists>e. gw_emitter (st_gateway s') = emit_event e (gw_emitter (st_gateway s)) \<and> re_tenant_id e = tn_id t))"
proof -
  let ?q = "q\<lparr>rq_request_id := ca_request_id c\<rparr>"
  have s': "s' = snd (route_request E c ?q s)" using assms(2) dispatch_state by (metis app_def snd_conv)
  show ?thesis
  proof (cases "resolve (ae_matches E) (Http (rq_method ?q)) (rq_url_path ?q) app_routes")
    case NotHandled
    then show ?thesis using s' by (simp add: route_request_def)
  next
    case (Handled ep param)
    show ?thesis
    proof (cases ep)
      case ProxyPath
      obtain y g' sent where p: "limited_proxy (ae_services E) (session_rows (ca_db c) (st_policies s)) (ca_readings c) (ca_proxy_readings c)
          (ca_client c) param ?q (tenant_json t) ((st_gateway s)\<lparr>gw_redis := r\<rparr>) = (y, g', sent)" by (metis prod_cases3)
      then have "s' = s\<lparr>st_gateway := g', st_sent := st_sent s @ sent\<rparr>"
        using s' Handled ProxyPath assms(1) by (simp add: route_request_def proxied_def proxy_route_def)
      moreover have "\<forall>out \<in> set sent. \<exists>path. ob_url out = tn_upstream_base_url t @ ''/'' @ path"
        using limited_proxy_sent [OF p] by (auto simp: forwarded_def)
      ultimately show ?thesis using limited_proxy_emits [OF p] by auto
    next
      case UpdatePolicy
      obtain y rows' r' where u: "update_policy (ae_uuid_of E) (ae_publish E) (sv_repr (ae_services E)) param (ca_update c) (tenant_json t)
          (ca_now c) (ca_commit c) (st_policies s) r = (y, rows', r')" by (metis prod_cases3)
      with s' Handled UpdatePolicy assms(1) update_policy_others [OF tenant_items(1) u] show ?thesis
        by (cases "ca_admin_db c") (simp_all add: route_request_def admin_route_def Let_def)
    qed (use s' Handled in \<open>simp_all add: route_request_def\<close>)
  qed
qed

theorem app_isolates_tenants_witness:
  "\<exists>x s'. app ref_app (call_with ''h:sk'') patch_request (ref_app_state\<lparr>st_gateway := warm_gateway\<rparr>) = (x, s') \<and>
     filter (\<lambda>row. pr_tenant_id row \<noteq> ''acme'') (st_policies s') = [] \<and> st_tenants s' = [acme_row]"
proof -
  obtain x s' where out: "app ref_app (call_with ''h:sk'') patch_request (ref_app_state\<lparr>st_gateway := warm_gateway\<rparr>) = (x, s')"
    by (metis surj_pair)
  let ?s = "ref_app_state\<lparr>st_gateway := warm_gateway\<rparr>"
  have "ref_up (gw_redis warm_gateway)" by (simp add: warm_gateway_def)
  moreover have "ref_strings (gw_redis warm_gateway) (tenant_key (hash_key (sv_sha256 ref_services) ''h:sk'')) =
      Some (dumps (sv_repr ref_services) (tenant_json acme_row), 30)"
    by (simp add: warm_gateway_def ref_services_def hash_key_def tenant_key_def policy_key_def)
  ultimately have "get_tenant (sv_kv (ae_services ref_app)) (sv_repr (ae_services ref_app)) (sv_sha256 (ae_services ref_app))
      (session_rows (ca_db (call_with ''h:sk'')) (st_tenants ?s)) (ca_api_key (call_with ''h:sk'')) (gw_redis (st_gateway ?s)) =
      (Inr (tenant_json acme_row), gw_redis warm_gateway)"
    using ref_world.get_tenant_cached by (simp add: ref_app_def call_with_def)
  from app_isolates_tenants [OF this out] out show ?thesis
    by (auto simp: ref_app_state_def two_policies_def acme_row_def)
qed

end
