(* ===== verification/Logging.thy ===== *)
theory Logging
  imports Gateway_Properties
begin

section \<open>Logging\<close>

text \<open>
  \<open>gateway/app/logging_config.py\<close>, the log calls of the gateway, and the context variable that
  \<open>gateway/app/middleware/request_id.py\<close> binds: which lines a request leaves, and that each of them carries the identifier of the
  request. The processors are structlog's and arguments; what the code relies on is the locale \<open>structlog\<close>. The levels and the
  copying of contexts to new tasks are the standard library's.
\<close>

subsection \<open>Levels\<close>

text \<open>
  The attributes of the module \<open>logging\<close> whose names \<open>str.upper\<close> can produce: the levels, a format string, and a
  dictionary. \<open>upper_char\<close> is \<open>str.upper\<close> on letters; no attribute contains another character that has an upper case, or the
  \<open>SS\<close> that the sharp s becomes.
\<close>

datatype logging_attribute = Level int | FormatString | StyleTable

definition logging_attributes :: "(string, logging_attribute) dict" where
  "logging_attributes = [(''CRITICAL'', Level 50), (''FATAL'', Level 50), (''ERROR'', Level 40), (''WARNING'', Level 30),
     (''WARN'', Level 30), (''INFO'', Level 20), (''DEBUG'', Level 10), (''NOTSET'', Level 0),
     (''BASIC_FORMAT'', FormatString), (''_STYLES'', StyleTable)]"

definition upper_char :: "char \<Rightarrow> char" where
  "upper_char c = (let n = of_char c :: nat in if 97 \<le> n \<and> n \<le> 122 then char_of (n - 32) else c)"

definition py_upper :: "string \<Rightarrow> string" where
  "py_upper s = map upper_char s"

text \<open>\<open>setLevel\<close> accepts an integer or the name of a level; any other string is a \<open>ValueError\<close>, any other value a \<open>TypeError\<close>.\<close>

definition set_level :: "logging_attribute \<Rightarrow> int res" where
  "set_level a = (case a of Level n \<Rightarrow> Inr n | FormatString \<Rightarrow> Inl ValueError | StyleTable \<Rightarrow> Inl TypeError)"

text \<open>The level of the root logger, which the loggers of the gateway inherit.\<close>

definition configure_logging :: "string \<Rightarrow> int res" where
  "configure_logging log_level =
     set_level (case dict_get logging_attributes (py_upper log_level) of None \<Rightarrow> Level 20 | Some a \<Rightarrow> a)"

subsection \<open>Calls and lines\<close>

text \<open>A call of a logger, of structlog or of the standard library, whose \<open>extra\<close> are the fields.\<close>

record log_call =
  lc_native :: bool
  lc_logger :: string
  lc_level :: int
  lc_event :: string
  lc_fields :: "(string, json) dict"

datatype log_site =
    TenantCacheUnavailable
  | PolicyCacheUnavailable string
  | RedisUnavailable string string
  | ProxyRequestCompleted string string int real
  | EventEmitFailed
  | PolicyCacheInvalidated json json
  | FailedToProcessInvalidation
  | InvalidationListenerReconnecting

fun log_call_at :: "log_site \<Rightarrow> log_call" where
  "log_call_at TenantCacheUnavailable =
     \<lparr>lc_native = False, lc_logger = ''shieldstream.auth'', lc_level = 30, lc_event = ''tenant_cache_unavailable'', lc_fields = []\<rparr>"
| "log_call_at (PolicyCacheUnavailable tenant_id) =
     \<lparr>lc_native = False, lc_logger = ''shieldstream.policy'', lc_level = 30, lc_event = ''policy_cache_unavailable'',
      lc_fields = [(''tenant_id'', JStr tenant_id)]\<rparr>"
| "log_call_at (RedisUnavailable tenant_id route) =
     \<lparr>lc_native = False, lc_logger = ''shieldstream.ratelimit'', lc_level = 40, lc_event = ''redis_unavailable'',
      lc_fields = [(''tenant_id'', JStr tenant_id), (''route'', JStr route)]\<rparr>"
| "log_call_at (ProxyRequestCompleted tenant_id endpoint status_code latency_ms) =
     \<lparr>lc_native = True, lc_logger = ''shieldstream.proxy'', lc_level = 20, lc_event = ''proxy_request_completed'',
      lc_fields = [(''tenant_id'', JStr tenant_id), (''endpoint'', JStr endpoint), (''status_code'', JInt status_code),
        (''latency_ms'', JFloat (Fin latency_ms))]\<rparr>"
| "log_call_at EventEmitFailed =
     \<lparr>lc_native = False, lc_logger = ''shieldstream.events'', lc_level = 40, lc_event = ''event_emit_failed'', lc_fields = []\<rparr>"
| "log_call_at (PolicyCacheInvalidated tenant_id new_version) =
     \<lparr>lc_native = False, lc_logger = ''shieldstream.policy_invalidation'', lc_level = 20, lc_event = ''policy_cache_invalidated'',
      lc_fields = [(''tenant_id'', tenant_id), (''new_version'', new_version)]\<rparr>"
| "log_call_at FailedToProcessInvalidation =
     \<lparr>lc_native = False, lc_logger = ''shieldstream.policy_invalidation'', lc_level = 40, lc_event = ''failed_to_process_invalidation'',
      lc_fields = []\<rparr>"
| "log_call_at InvalidationListenerReconnecting =
     \<lparr>lc_native = False, lc_logger = ''shieldstream.policy_invalidation'', lc_level = 30, lc_event = ''invalidation_listener_reconnecting'',
      lc_fields = []\<rparr>"

type_synonym event_dict = "(string, json) dict"

text \<open>The functions of structlog; \<open>start_event\<close> is the dictionary a call enters the processors with.\<close>

record processors =
  bind_contextvars :: "string \<Rightarrow> json \<Rightarrow> event_dict \<Rightarrow> event_dict"
  clear_contextvars :: "event_dict \<Rightarrow> event_dict"
  start_event :: "log_call \<Rightarrow> event_dict"
  merge_contextvars :: "event_dict \<Rightarrow> event_dict \<Rightarrow> event_dict"
  add_log_level :: "log_call \<Rightarrow> event_dict \<Rightarrow> event_dict"
  add_logger_name :: "log_call \<Rightarrow> event_dict \<Rightarrow> event_dict"
  extra_adder :: "log_call \<Rightarrow> event_dict \<Rightarrow> event_dict"
  time_stamper :: "real \<Rightarrow> event_dict \<Rightarrow> event_dict"

definition SHARED_PROCESSORS :: "processors \<Rightarrow> event_dict \<Rightarrow> real \<Rightarrow> log_call \<Rightarrow> (event_dict \<Rightarrow> event_dict) list" where
  "SHARED_PROCESSORS S ctx now c =
     [merge_contextvars S ctx, add_log_level S c, add_logger_name S c, extra_adder S c, time_stamper S now]"

text \<open>What the JSON renderer gets: a call of structlog runs the processors at once, one of the standard library in the formatter.\<close>

definition log_line :: "processors \<Rightarrow> event_dict \<Rightarrow> real \<Rightarrow> log_call \<Rightarrow> event_dict" where
  "log_line S ctx now c = fold (\<lambda>p ev. p ev) (SHARED_PROCESSORS S ctx now c) (start_event S c)"

text \<open>
  The documented behaviour: the fields of the call go before the context, the keywords of structlog are in the dictionary from the start,
  \<open>extra\<close> is added later and overrides, and the other processors set one key each.
\<close>

locale structlog =
  fixes S :: processors
  assumes bind: "dict_get (bind_contextvars S k v ctx) k' = (if k' = k then Some v else dict_get ctx k')"
    and clear: "dict_get (clear_contextvars S ctx) k = None"
    and start: "dict_get (start_event S c) k =
      (if k = ''event'' then Some (JStr (lc_event c)) else if lc_native c then dict_get (lc_fields c) k else None)"
    and merge: "dict_get (merge_contextvars S ctx ev) k = (case dict_get ev k of None \<Rightarrow> dict_get ctx k | Some v \<Rightarrow> Some v)"
    and level: "k \<noteq> ''level'' \<Longrightarrow> dict_get (add_log_level S c ev) k = dict_get ev k"
    and logger: "k \<noteq> ''logger'' \<Longrightarrow> dict_get (add_logger_name S c ev) k = dict_get ev k"
    and extra: "dict_get (extra_adder S c ev) k =
      (if lc_native c then dict_get ev k else case dict_get (lc_fields c) k of None \<Rightarrow> dict_get ev k | Some v \<Rightarrow> Some v)"
    and stamp: "k \<noteq> ''timestamp'' \<Longrightarrow> dict_get (time_stamper S now ev) k = dict_get ev k"
begin

lemma line_field:
  assumes "k \<notin> {''event'', ''level'', ''logger'', ''timestamp''}"
  shows "dict_get (log_line S ctx now c) k = (case dict_get (lc_fields c) k of None \<Rightarrow> dict_get ctx k | Some v \<Rightarrow> Some v)"
  using assms
  by (simp add: log_line_def SHARED_PROCESSORS_def start merge level logger extra stamp split: option.split)

end

text \<open>No call of the gateway has a field of that name itself.\<close>

lemma log_site_fields: "dict_get (lc_fields (log_call_at site)) ''request_id'' = None"
  by (cases site) simp_all

lemma log_site_levels: "20 \<le> lc_level (log_call_at site)"
  by (cases site) simp_all

subsection \<open>Contexts\<close>

text \<open>
  Every task has a context of its own, which a task it creates gets a copy of. \<open>ls_request\<close> says for which request a
  task works: the one \<open>dispatch\<close> was entered for, inherited by the tasks created meanwhile (the one \<open>call_next\<close> runs the handler in, and
  those that emit events), until \<open>dispatch\<close> is left. \<open>ls_lines\<close> are the lines written, with the request they belong to.
\<close>

record log_state =
  ls_context :: "nat \<Rightarrow> event_dict"
  ls_tasks :: "nat set"
  ls_request :: "nat \<Rightarrow> string option"
  ls_lines :: "(string option \<times> event_dict) list"

definition log_start :: log_state where
  "log_start = \<lparr>ls_context = (\<lambda>_. []), ls_tasks = {}, ls_request = (\<lambda>_. None), ls_lines = []\<rparr>"

definition dispatch_begin :: "processors \<Rightarrow> nat \<Rightarrow> string \<Rightarrow> log_state \<Rightarrow> log_state" where
  "dispatch_begin S t request_id s = s\<lparr>ls_context := (ls_context s)(t := bind_contextvars S ''request_id'' (JStr request_id) (ls_context s t)),
     ls_request := (ls_request s)(t := Some request_id)\<rparr>"

definition dispatch_end :: "processors \<Rightarrow> nat \<Rightarrow> log_state \<Rightarrow> log_state" where
  "dispatch_end S t s = s\<lparr>ls_context := (ls_context s)(t := clear_contextvars S (ls_context s t)), ls_request := (ls_request s)(t := None)\<rparr>"

definition write_line :: "processors \<Rightarrow> int \<Rightarrow> nat \<Rightarrow> real \<Rightarrow> log_call \<Rightarrow> log_state \<Rightarrow> log_state" where
  "write_line S threshold t now c s =
     (if threshold \<le> lc_level c then s\<lparr>ls_lines := ls_lines s @ [(ls_request s t, log_line S (ls_context s t) now c)]\<rparr> else s)"

inductive log_step :: "processors \<Rightarrow> int \<Rightarrow> log_state \<Rightarrow> log_state \<Rightarrow> bool" for S threshold where
  new_task: "t \<notin> ls_tasks s \<Longrightarrow> log_step S threshold s
     (s\<lparr>ls_tasks := insert t (ls_tasks s), ls_context := (ls_context s)(t := []), ls_request := (ls_request s)(t := None)\<rparr>)"
| create_task: "t \<in> ls_tasks s \<Longrightarrow> t' \<notin> ls_tasks s \<Longrightarrow> log_step S threshold s
     (s\<lparr>ls_tasks := insert t' (ls_tasks s), ls_context := (ls_context s)(t' := ls_context s t),
        ls_request := (ls_request s)(t' := ls_request s t)\<rparr>)"
| dispatch_begins: "t \<in> ls_tasks s \<Longrightarrow> ls_request s t = None \<Longrightarrow> log_step S threshold s (dispatch_begin S t request_id s)"
| dispatch_ends: "t \<in> ls_tasks s \<Longrightarrow> ls_request s t \<noteq> None \<Longrightarrow> log_step S threshold s (dispatch_end S t s)"
| writes: "t \<in> ls_tasks s \<Longrightarrow> log_step S threshold s (write_line S threshold t now (log_call_at site) s)"

text \<open>A context holds the identifier of the request its task works for, and so does every line.\<close>

definition log_ok :: "log_state \<Rightarrow> bool" where
  "log_ok s \<longleftrightarrow> (\<forall>t. dict_get (ls_context s t) ''request_id'' = map_option JStr (ls_request s t)) \<and>
     (\<forall>(owner, line) \<in> set (ls_lines s). dict_get line ''request_id'' = map_option JStr owner)"

context structlog
begin

lemma log_step_ok: "log_step S threshold s s' \<Longrightarrow> log_ok s \<Longrightarrow> log_ok s'"
  by (induction rule: log_step.induct)
    (auto simp: log_ok_def dispatch_begin_def dispatch_end_def write_line_def bind clear line_field log_site_fields split: if_splits)

lemma log_reach_ok: "(log_step S threshold)\<^sup>*\<^sup>* log_start s \<Longrightarrow> log_ok s"
proof (induction rule: rtranclp_induct)
  case base
  show ?case by (simp add: log_ok_def log_start_def)
qed (rule log_step_ok)

end

text \<open>
  C20: Every line can be traced to its request. However the requests and their tasks interleave on the event loop, a line written for a request,
  by structlog or by the standard library, by the handler or by a task it started, carries the identifier of that request, the one the
  client gets in its answer; and a line written for no request, by a background task or after the answer, carries none. With the level
  the settings default to, and with any that is not the name of a higher one, no line is suppressed.
\<close>

theorem log_lines_correlate:
  assumes "structlog S" "(log_step S threshold)\<^sup>*\<^sup>* log_start s"
  shows "(\<forall>(owner, line) \<in> set (ls_lines s). dict_get line ''request_id'' = map_option JStr owner) \<and>
    (configure_logging log_level = Inr threshold \<and> py_upper log_level \<notin> {''CRITICAL'', ''FATAL'', ''ERROR'', ''WARNING'', ''WARN''} \<longrightarrow>
     (\<forall>site t now. ls_lines (write_line S threshold t now (log_call_at site) s) =
        ls_lines s @ [(ls_request s t, log_line S (ls_context s t) now (log_call_at site))]))"
proof (intro conjI impI allI)
  show "\<forall>(owner, line) \<in> set (ls_lines s). dict_get line ''request_id'' = map_option JStr owner"
    using structlog.log_reach_ok [OF assms] by (simp add: log_ok_def)
next
  fix site t now
  assume "configure_logging log_level = Inr threshold \<and> py_upper log_level \<notin> {''CRITICAL'', ''FATAL'', ''ERROR'', ''WARNING'', ''WARN''}"
  then have "threshold \<le> 20"
    by (auto simp: configure_logging_def logging_attributes_def set_level_def split: if_splits option.splits)
  with log_site_levels [of site] show "ls_lines (write_line S threshold t now (log_call_at site) s) =
      ls_lines s @ [(ls_request s t, log_line S (ls_context s t) now (log_call_at site))]"
    by (simp add: write_line_def)
qed

text \<open>Processors that do what structlog documents.\<close>

definition plain_processors :: processors where
  "plain_processors = \<lparr>bind_contextvars = dict_set, clear_contextvars = (\<lambda>_. []),
     start_event = (\<lambda>c. dict_set ''event'' (JStr (lc_event c)) (if lc_native c then lc_fields c else [])),
     merge_contextvars = (\<lambda>ctx ev. ev @ ctx),
     add_log_level = (\<lambda>c. dict_set ''level'' (JInt (lc_level c))), add_logger_name = (\<lambda>c. dict_set ''logger'' (JStr (lc_logger c))),
     extra_adder = (\<lambda>c ev. if lc_native c then ev else lc_fields c @ ev),
     time_stamper = (\<lambda>now. dict_set ''timestamp'' (JFloat (Fin now)))\<rparr>"

interpretation plain: structlog plain_processors
  by unfold_locales (auto simp: plain_processors_def dict_simps map_add_def split: option.splits)

theorem log_lines_correlate_witness:
  "\<exists>s. (log_step plain_processors 20)\<^sup>*\<^sup>* log_start s \<and> ls_lines s = [(Some ''r1'', log_line plain_processors [(''request_id'', JStr ''r1'')] 0 (log_call_at TenantCacheUnavailable))] \<and>
     dict_get (snd (hd (ls_lines s))) ''request_id'' = Some (JStr ''r1'')"
proof -
  let ?s1 = "log_start\<lparr>ls_tasks := {0}\<rparr>"
  let ?s2 = "dispatch_begin plain_processors 0 ''r1'' ?s1"
  let ?s3 = "write_line plain_processors 20 0 0 (log_call_at TenantCacheUnavailable) ?s2"
  have "log_step plain_processors 20 log_start ?s1"
    using log_step.new_task [of 0 log_start plain_processors 20] by (simp add: log_start_def fun_upd_idem)
  moreover have "log_step plain_processors 20 ?s1 ?s2" by (rule log_step.dispatch_begins) (simp_all add: log_start_def)
  moreover have "log_step plain_processors 20 ?s2 ?s3" by (rule log_step.writes) (simp add: dispatch_begin_def)
  ultimately have reach: "(log_step plain_processors 20)\<^sup>*\<^sup>* log_start ?s3"
    by (meson converse_rtranclp_into_rtranclp rtranclp.rtrancl_refl)
  note correlated = log_lines_correlate [OF plain.structlog_axioms reach, THEN conjunct1]
  have "ls_lines ?s3 = [(Some ''r1'', log_line plain_processors [(''request_id'', JStr ''r1'')] 0 (log_call_at TenantCacheUnavailable))]"
    by (simp add: write_line_def dispatch_begin_def log_start_def plain_processors_def)
  with correlated reach show ?thesis by (intro exI [of _ ?s3]) simp
qed

subsection \<open>The lines of a request\<close>













subsubsection \<open>Only lines are added\<close>





subsubsection \<open>Outages\<close>
















end
