(* ===== verification/Tracing.thy ===== *)
theory Tracing
  imports Events Analytics_Delivery
begin

section \<open>Traces across processes\<close>

text \<open>
  \<open>gateway/app/tracing.py\<close> and \<open>consumers/analytics/tracing.py\<close>: the context of the gateway's span travels in the event and
  becomes the parent of the consumer's span. OpenTelemetry's \<open>inject\<close> and \<open>extract\<close> are arguments: \<open>inject\<close> adds entries for the
  active context to a carrier, \<open>extract\<close> reads a context from one. (The provider that the gateway's \<open>setup_tracing\<close> and
  \<open>shutdown_tracing\<close> install and flush is in \<open>Lifespan\<close>.)
\<close>

text \<open>The consumer's provider: where it exports to, and whether it still does.\<close>

record tracer_provider =
  tp_service :: string
  tp_endpoint :: string
  tp_open :: bool

definition otlp_endpoint :: "(string, string) dict \<Rightarrow> string" where
  "otlp_endpoint environ =
     (case dict_get environ ''OTEL_EXPORTER_OTLP_ENDPOINT'' of None \<Rightarrow> ''http://jaeger:4317'' | Some v \<Rightarrow> v)"

definition analytics_setup_tracing :: "(string, string) dict \<Rightarrow> tracer_provider option \<Rightarrow> tracer_provider option" where
  "analytics_setup_tracing environ _ =
     Some \<lparr>tp_service = ''shieldstream.analytics-consumer'', tp_endpoint = otlp_endpoint environ, tp_open = True\<rparr>"

definition analytics_shutdown_tracing :: "tracer_provider option \<Rightarrow> tracer_provider option" where
  "analytics_shutdown_tracing provider = (case provider of None \<Rightarrow> None | Some p \<Rightarrow> Some (p\<lparr>tp_open := False\<rparr>))"

text \<open>The context of the active span, as the gateway puts it into an event.\<close>

definition current_traceparent :: "((string, string) dict \<Rightarrow> (string, string) dict) \<Rightarrow> string" where
  "current_traceparent inject =
     (let carrier = inject [] in case dict_get carrier ''traceparent'' of None \<Rightarrow> [] | Some v \<Rightarrow> v)"

text \<open>The span that is started: its name and its parent context, \<open>None\<close> for a span of its own.\<close>

definition span_for_event :: "((string, string) dict \<Rightarrow> 'ctx) \<Rightarrow> string \<Rightarrow> string \<times> 'ctx option" where
  "span_for_event extract traceparent =
     (let ctx = (if traceparent \<noteq> [] then Some (extract [(''traceparent'', traceparent)]) else None)
      in (''analytics.ingest_event'', ctx))"

text \<open>
  The spans of the main loop: one for each event among the messages of its read of new entries, which is that of \<open>read_new\<close>. The reads of
  \<open>recover_own_pending\<close> and \<open>adopt_orphaned_pending\<close> start none.
\<close>

definition ingest_spans :: "((string, string) dict \<Rightarrow> 'ctx) \<Rightarrow> stream_entry list \<Rightarrow> (string \<times> 'ctx option) list" where
  "ingest_spans extract messages = map (\<lambda>event. span_for_event extract (pe_traceparent event)) (parsed messages)"

definition iteration_spans :: "'r stream_ops \<Rightarrow> ((string, string) dict \<Rightarrow> 'ctx) \<Rightarrow> string \<Rightarrow> loop_state \<Rightarrow> 'r \<Rightarrow> (string \<times> 'ctx option) list" where
  "iteration_spans X extract consumer st r =
     (case fst (xreadgroup_new X GROUP consumer STREAM (max 1 (BATCH_SIZE - length (ls_batch st))) r) of
        Inl e \<Rightarrow> []
      | Inr messages \<Rightarrow> ingest_spans extract messages)"

text \<open>
  A propagator of the W3C trace context. A context holds a span (\<open>span_of\<close>) and other things; \<open>header_of\<close> is the
  text that the standard prescribes for its span. \<open>inject\<close> writes the header of the active span into whatever carrier it is given,
  and no header if no span is active. \<open>extract\<close> reads the span from the header, whatever else is in the carrier.
\<close>

locale trace_propagator =
  fixes inject :: "'ctx option \<Rightarrow> (string, string) dict \<Rightarrow> (string, string) dict"
    and extract_ctx :: "(string, string) dict \<Rightarrow> 'ctx"
    and header_of :: "'ctx \<Rightarrow> string" and span_of :: "'ctx \<Rightarrow> 'span"
  assumes inject_none: "dict_get (inject None carrier) ''traceparent'' = dict_get carrier ''traceparent''"
    and inject_some: "dict_get (inject (Some ctx) carrier) ''traceparent'' = Some (header_of ctx)"
    and header_text: "header_of ctx \<noteq> []"
    and extract_span: "dict_get carrier ''traceparent'' = Some (header_of ctx) \<Longrightarrow> span_of (extract_ctx carrier) = span_of ctx"
begin

lemma traceparent_text: "current_traceparent (inject active) = (case active of None \<Rightarrow> [] | Some ctx \<Rightarrow> header_of ctx)"
  by (simp add: current_traceparent_def inject_none inject_some split: option.split)

lemma span_continues:
  "map_prod id (map_option span_of) (span_for_event extract_ctx (current_traceparent (inject active))) =
     (''analytics.ingest_event'', map_option span_of active)"
  by (simp add: traceparent_text span_for_event_def header_text extract_span split: option.split)

end

text \<open>A propagator for contexts that are pairs of a span, a string, and baggage; the header is the span after the version.\<close>

definition version_inject :: "(string \<times> string) option \<Rightarrow> (string, string) dict \<Rightarrow> (string, string) dict" where
  "version_inject active carrier =
     (case active of None \<Rightarrow> carrier | Some (sp, baggage) \<Rightarrow> dict_set ''traceparent'' (''00-'' @ sp) (dict_set ''baggage'' baggage carrier))"

definition version_extract :: "(string, string) dict \<Rightarrow> string \<times> string" where
  "version_extract carrier =
     (case dict_get carrier ''traceparent'' of None \<Rightarrow> [] | Some v \<Rightarrow> drop 3 v,
      case dict_get carrier ''baggage'' of None \<Rightarrow> [] | Some v \<Rightarrow> v)"

interpretation version: trace_propagator version_inject version_extract "\<lambda>(sp, baggage). ''00-'' @ sp" fst
  by unfold_locales (auto simp: version_inject_def version_extract_def dict_simps split: option.splits prod.splits)

lemma traceparents_of_events:
  assumes "\<And>i. i \<in> set ids \<Longrightarrow> content i = to_redis_fields rep (ev i) \<and> (\<exists>p. parse_event (to_redis_fields rep (ev i)) = Some p)"
  shows "map pe_traceparent (events_of content ids) = map (\<lambda>i. re_traceparent (ev i)) ids"
  using assms
proof (induction ids)
  case (Cons i ids)
  then obtain p where p: "parse_event (to_redis_fields rep (ev i)) = Some p" "content i = to_redis_fields rep (ev i)" by auto
  with Cons parsed_event_traceparent [OF p(1)] show ?case by (simp add: events_of_def List.map_filter_simps)
qed simp

text \<open>
  C21: One trace from the request to its analysis, for the entries the main loop reads. Let the new entries be events that gateways
  wrote, each with the text that \<open>current_traceparent\<close> gave there. When the main loop of the analytics consumer reads them, every entry read joins the
  batch, and for each that was not trimmed before, in order, the loop starts one span, whose parent is the span that was active
  in the gateway when the event was made; for an event made with no active span it starts a span without a parent. (An entry
  that is read again after a restart, or adopted from another consumer, gets no span; one that failed to be read here, neither.)
\<close>

theorem trace_continues:
  assumes "trace_propagator inject extract header_of span_of"
    and "redis_stream X STREAM GROUP content delivered trimmed pending serving"
    and "read_new X consumer st (r, d) = (Inr st', (r', d'))"
    and "\<forall>i \<in> delivered r' - delivered r. content i = to_redis_fields rep (ev i) \<and>
      re_traceparent (ev i) = current_traceparent (inject (active i)) \<and>
      float_of_str (rep (re_latency_ms (ev i))) = Some (re_latency_ms (ev i))"
  shows "\<exists>new. distinct new \<and> set new = delivered r' - delivered r \<and> ls_batch_ids st' = ls_batch_ids st @ new \<and>
    map (map_prod id (map_option span_of)) (iteration_spans X extract consumer st r) =
      map (\<lambda>i. (''analytics.ingest_event'', map_option span_of (active i))) (filter (\<lambda>i. i \<notin> trimmed r) new)"
proof -
  obtain messages where read: "xreadgroup_new X GROUP consumer STREAM (max 1 (BATCH_SIZE - length (ls_batch st))) r = (Inr messages, r')"
    and ids: "ls_batch_ids st' = ls_batch_ids st @ map fst messages"
    using assms(3) by (auto simp: read_new_def split: prod.splits sum.splits)
  obtain new where new: "distinct new" "set new \<inter> delivered r = {}" "delivered r' = delivered r \<union> set new"
    "messages = map (as_delivered content (trimmed r)) new"
    using redis_stream.new_views [OF assms(2) read] by auto
  then have fresh: "set new = delivered r' - delivered r" by auto
  let ?seen = "filter (\<lambda>i. i \<notin> trimmed r) new"
  have ev: "content i = to_redis_fields rep (ev i)" "re_traceparent (ev i) = current_traceparent (inject (active i))"
    "\<exists>p. parse_event (to_redis_fields rep (ev i)) = Some p" if "i \<in> set new" for i
    using assms(4) that event_parses [of rep "ev i"] unfolding fresh by auto
  have "map pe_traceparent (parsed messages) = map (\<lambda>i. re_traceparent (ev i)) ?seen"
    unfolding new(4) parsed_delivered using ev by (intro traceparents_of_events) auto
  from arg_cong [OF this, of "map (\<lambda>text. map_prod id (map_option span_of) (span_for_event extract text))"]
  have "map (map_prod id (map_option span_of)) (iteration_spans X extract consumer st r) =
      map (\<lambda>i. map_prod id (map_option span_of) (span_for_event extract (re_traceparent (ev i)))) ?seen"
    unfolding iteration_spans_def read by (simp add: ingest_spans_def comp_def)
  also have "\<dots> = map (\<lambda>i. (''analytics.ingest_event'', map_option span_of (active i))) ?seen"
    by (intro map_cong refl) (simp add: ev(2) trace_propagator.span_continues [OF assms(1)])
  finally have spans: "map (map_prod id (map_option span_of)) (iteration_spans X extract consumer st r) =
      map (\<lambda>i. (''analytics.ingest_event'', map_option span_of (active i))) ?seen" .
  have "map fst messages = new" by (simp add: new(4) as_delivered_def comp_def)
  with new(1) fresh ids spans show ?thesis by (intro exI [of _ new]) simp
qed

text \<open>Three new entries: one that was trimmed, one made under a span and one made under none.\<close>

definition traced_event :: "string \<Rightarrow> request_event" where
  "traced_event i = (if i = entry_id 1 then blocked_request\<lparr>re_traceparent := current_traceparent (version_inject (Some (''abc'', ''x'')))\<rparr>
     else blocked_request)"

abbreviation traced_ops :: "ref_stream stream_ops" where
  "traced_ops \<equiv> ref_stream_ops (\<lambda>i. to_redis_fields (\<lambda>_. ''0.0'') (traced_event i))"

definition traced_server :: ref_stream where
  "traced_server = \<lparr>rs_up = True, rs_len = 3, rs_next = 0, rs_gone = 1, rs_pel = []\<rparr>"

definition idle_loop :: loop_state where
  "idle_loop = \<lparr>ls_batch = [], ls_batch_ids = [], ls_last_flush = 0, ls_last_orphan_sweep = 0, ls_consumer_lag = None\<rparr>"

theorem trace_continues_witness:
  "map (map_prod id (map_option fst)) (iteration_spans traced_ops version_extract ''c1'' idle_loop traced_server) =
     [(''analytics.ingest_event'', Some ''abc''), (''analytics.ingest_event'', None)]"
proof -
  have zero: "float_of_str ''0.0'' = Some (Fin 0)"
    by (simp add: float_of_str_def py_strip_def is_space_def split_sign_def py_lower_def lower_char_def
        decimal_literal_def digit_or_underscore_def digit_val_def float_part_def exponent_part_def)
  let ?act = "\<lambda>i. if i = entry_id 1 then Some (''abc'', ''x'') else None"
  obtain st' r' where read: "read_new traced_ops ''c1'' idle_loop (traced_server, ()) = (Inr st', (r', ()))" "ls_batch_ids st' = map entry_id [0, 1, 2]"
    by (simp add: read_new_def ref_stream_ops_def traced_server_def idle_loop_def BATCH_SIZE_def as_delivered_def comp_def upt_rec numeral_eq_Suc)
  have "\<forall>i \<in> rs_delivered r' - rs_delivered traced_server. to_redis_fields (\<lambda>_. ''0.0'') (traced_event i) = to_redis_fields (\<lambda>_. ''0.0'') (traced_event i) \<and>
      re_traceparent (traced_event i) = current_traceparent (version_inject (?act i)) \<and>
      float_of_str ((\<lambda>_. ''0.0'') (re_latency_ms (traced_event i))) = Some (re_latency_ms (traced_event i))"
    by (simp add: traced_event_def zero blocked_request_def current_traceparent_def version_inject_def)
  from trace_continues [OF version.trace_propagator_axioms ref_stream.redis_stream_axioms read(1) this] read(2)
  show ?thesis
    by (auto simp: rs_trimmed_def traced_server_def idle_loop_def)
qed

end
