(* ===== verification/Configuration.thy ===== *)
theory Configuration
  imports Logging Tracing
begin

section \<open>Settings and start-up\<close>

text \<open>
  What the processes read from their environment before anything else runs: \<open>gateway/app/config.py\<close>, the clients that
  \<open>gateway/app/redis_client.py\<close> and \<open>gateway/app/db.py\<close> make of it when they are imported, the call of \<open>configure_logging\<close> in
  \<open>gateway/app/main.py\<close>, and the module constants of the two consumers. Which text pydantic finds for a field (in the environment or in
  \<open>.env\<close>), how it reads a Boolean, and whether a URL is acceptable are arguments.
\<close>

subsection \<open>The gateway\<close>

record settings =
  se_redis_url :: string
  se_database_url :: string
  se_admin_database_url :: string
  se_log_level :: string
  se_rate_limit_fail_open :: bool

text \<open>Pydantic's \<open>ValidationError\<close> is a \<open>ValueError\<close>.\<close>

definition required_field :: "(string \<Rightarrow> string option) \<Rightarrow> string \<Rightarrow> string res" where
  "required_field source k = (case source k of None \<Rightarrow> Inl ValueError | Some v \<Rightarrow> Inr v)"

definition Settings :: "(string \<Rightarrow> string option) \<Rightarrow> (string \<Rightarrow> bool option) \<Rightarrow> settings res" where
  "Settings source parse_bool =
     res_bind (required_field source ''redis_url'') (\<lambda>redis_url.
     res_bind (required_field source ''database_url'') (\<lambda>database_url.
     res_bind (required_field source ''admin_database_url'') (\<lambda>admin_database_url.
     res_bind (case source ''rate_limit_fail_open'' of
         None \<Rightarrow> Inr True
       | Some v \<Rightarrow> (case parse_bool v of None \<Rightarrow> Inl ValueError | Some b \<Rightarrow> Inr b)) (\<lambda>rate_limit_fail_open.
     Inr \<lparr>se_redis_url = redis_url, se_database_url = database_url, se_admin_database_url = admin_database_url,
          se_log_level = (case source ''log_level'' of None \<Rightarrow> ''info'' | Some v \<Rightarrow> v),
          se_rate_limit_fail_open = rate_limit_fail_open\<rparr>))))"

text \<open>The two Redis clients: that of the requests gives up after 0.2 seconds, that of the subscriptions never.\<close>

record redis_client =
  rc_url :: string
  rc_socket_connect_timeout :: "real option"
  rc_socket_timeout :: "real option"

definition request_redis :: "settings \<Rightarrow> redis_client" where
  "request_redis st = \<lparr>rc_url = se_redis_url st, rc_socket_connect_timeout = Some (2 / 10), rc_socket_timeout = Some (2 / 10)\<rparr>"

definition pubsub_redis :: "settings \<Rightarrow> redis_client" where
  "pubsub_redis st = \<lparr>rc_url = se_redis_url st, rc_socket_connect_timeout = None, rc_socket_timeout = None\<rparr>"

text \<open>The engines with their pools; \<open>create_async_engine\<close> does not connect yet.\<close>

record engine =
  en_url :: string
  en_pool_size :: nat
  en_max_overflow :: nat

definition tenant_engine :: "settings \<Rightarrow> engine" where
  "tenant_engine st = \<lparr>en_url = se_database_url st, en_pool_size = 30, en_max_overflow = 20\<rparr>"

definition admin_engine :: "settings \<Rightarrow> engine" where
  "admin_engine st = \<lparr>en_url = se_admin_database_url st, en_pool_size = 2, en_max_overflow = 2\<rparr>"

text \<open>Importing \<open>app.main\<close>: the settings, the clients, the engines, then the level of the root logger.\<close>

definition import_main :: "(string \<Rightarrow> string option) \<Rightarrow> (string \<Rightarrow> bool option) \<Rightarrow> (redis_client \<Rightarrow> unit res) \<Rightarrow> (engine \<Rightarrow> unit res) \<Rightarrow>
    (settings \<times> int) res" where
  "import_main source parse_bool from_url create_async_engine =
     res_bind (Settings source parse_bool) (\<lambda>st.
     res_bind (from_url (request_redis st)) (\<lambda>_.
     res_bind (from_url (pubsub_redis st)) (\<lambda>_.
     res_bind (create_async_engine (tenant_engine st)) (\<lambda>_.
     res_bind (create_async_engine (admin_engine st)) (\<lambda>_.
     res_bind (configure_logging (se_log_level st)) (\<lambda>level. Inr (st, level)))))))"

subsection \<open>The consumers\<close>

definition environ_item :: "(string, string) dict \<Rightarrow> string \<Rightarrow> string res" where
  "environ_item environ k = (case dict_get environ k of None \<Rightarrow> Inl KeyError | Some v \<Rightarrow> Inr v)"

text \<open>\<open>os.environ.get("CONSUMER_NAME") or socket.gethostname()\<close>: the empty name counts as none.\<close>

definition CONSUMER_NAME :: "(string, string) dict \<Rightarrow> string \<Rightarrow> string" where
  "CONSUMER_NAME environ hostname =
     (case dict_get environ ''CONSUMER_NAME'' of None \<Rightarrow> hostname | Some n \<Rightarrow> if n = [] then hostname else n)"

definition analytics_import :: "(string, string) dict \<Rightarrow> string \<Rightarrow> (string \<times> string \<times> string) res" where
  "analytics_import environ hostname =
     res_bind (environ_item environ ''REDIS_URL'') (\<lambda>redis_url.
     res_bind (environ_item environ ''DATABASE_URL'') (\<lambda>database_url.
     Inr (redis_url, database_url, CONSUMER_NAME environ hostname)))"

definition alert_import :: "(string, string) dict \<Rightarrow> string \<Rightarrow> (string \<times> string) res" where
  "alert_import environ hostname =
     res_bind (environ_item environ ''REDIS_URL'') (\<lambda>redis_url. Inr (redis_url, CONSUMER_NAME environ hostname))"

subsection \<open>What follows\<close>

lemma Settings_iff:
  "Settings source parse_bool = Inr st \<longleftrightarrow>
     source ''redis_url'' = Some (se_redis_url st) \<and> source ''database_url'' = Some (se_database_url st) \<and>
     source ''admin_database_url'' = Some (se_admin_database_url st) \<and>
     se_log_level st = (case source ''log_level'' of None \<Rightarrow> ''info'' | Some v \<Rightarrow> v) \<and>
     (case source ''rate_limit_fail_open'' of None \<Rightarrow> se_rate_limit_fail_open st
      | Some v \<Rightarrow> parse_bool v = Some (se_rate_limit_fail_open st))"
  by (cases st) (auto simp: Settings_def required_field_def res_bind_Inr_iff split: option.splits)

text \<open>
  A level that is no attribute of \<open>logging\<close> is taken for INFO without a word; two names that are attributes but no levels keep the
  gateway from starting.
\<close>

lemma configure_logging_cases:
  "configure_logging log_level = Inl ValueError \<longleftrightarrow> py_upper log_level = ''BASIC_FORMAT''"
  "configure_logging log_level = Inl TypeError \<longleftrightarrow> py_upper log_level = ''_STYLES''"
  "dict_get logging_attributes (py_upper log_level) = None \<Longrightarrow> configure_logging log_level = Inr 20"
  by (auto simp: configure_logging_def set_level_def logging_attributes_def split: if_splits)

text \<open>
  Misconfiguration stops a process before it serves. A gateway imports exactly if the three URLs are configured and accepted, the
  fail-open flag, if given, is a Boolean, and the log level is not one of the two attributes of \<open>logging\<close> that are no levels. Then it
  fails open and logs at INFO unless told otherwise. The analytics consumer imports exactly if its URLs are set; and the name of a
  consumer, which its recovery after a restart depends on, is never empty as long as the host has a name.
\<close>

theorem processes_start_configured:
  "((\<exists>level. import_main source parse_bool from_url create_async_engine = Inr (st, level)) \<longleftrightarrow>
     Settings source parse_bool = Inr st \<and> from_url (request_redis st) = Inr () \<and> from_url (pubsub_redis st) = Inr () \<and>
     create_async_engine (tenant_engine st) = Inr () \<and> create_async_engine (admin_engine st) = Inr () \<and>
     py_upper (se_log_level st) \<notin> {''BASIC_FORMAT'', ''_STYLES''}) \<and>
   (import_main source parse_bool from_url create_async_engine = Inr (st, level) \<longrightarrow>
     (source ''rate_limit_fail_open'' = None \<longrightarrow> se_rate_limit_fail_open st) \<and> (source ''log_level'' = None \<longrightarrow> level = 20)) \<and>
   (hostname \<noteq> [] \<longrightarrow> CONSUMER_NAME environ hostname \<noteq> []) \<and>
   ((\<exists>c. analytics_import environ hostname = Inr c) \<longleftrightarrow> {''REDIS_URL'', ''DATABASE_URL''} \<subseteq> dom (dict_get environ))"
proof (intro conjI)
  have "(\<exists>level. configure_logging l = Inr level) \<longleftrightarrow> py_upper l \<notin> {''BASIC_FORMAT'', ''_STYLES''}" for l
    by (auto simp: configure_logging_def set_level_def logging_attributes_def split: if_splits)
  then show "(\<exists>level. import_main source parse_bool from_url create_async_engine = Inr (st, level)) \<longleftrightarrow>
     Settings source parse_bool = Inr st \<and> from_url (request_redis st) = Inr () \<and> from_url (pubsub_redis st) = Inr () \<and>
     create_async_engine (tenant_engine st) = Inr () \<and> create_async_engine (admin_engine st) = Inr () \<and>
     py_upper (se_log_level st) \<notin> {''BASIC_FORMAT'', ''_STYLES''}"
    by (auto simp: import_main_def res_bind_Inr_iff)
  have "configure_logging ''info'' = Inr 20" by code_simp
  then show "import_main source parse_bool from_url create_async_engine = Inr (st, level) \<longrightarrow>
     (source ''rate_limit_fail_open'' = None \<longrightarrow> se_rate_limit_fail_open st) \<and> (source ''log_level'' = None \<longrightarrow> level = 20)"
    by (auto simp: import_main_def res_bind_Inr_iff Settings_iff)
qed (auto simp: CONSUMER_NAME_def analytics_import_def environ_item_def res_bind_Inr_iff split: option.splits)

end
