(* ===== verification/Schema.thy ===== *)
theory Schema
  imports Proxy_Properties Admin Migration
begin

section \<open>Roles, row-level security and seed data\<close>

text \<open>
  What the schema of \<open>Migration\<close> means for the statements the components run, and the seed script \<open>db/seed.py\<close>. The
  database server enforces grants, constraints and policies; what is modelled is what the migration declares.
\<close>

subsection \<open>Statements\<close>

text \<open>
  A statement of the code: the role it runs as (\<open>None\<close>: the owner of the tables), its table, the privileges it needs, the
  columns it names, the columns an \<open>INSERT\<close> supplies, and the target of \<open>ON CONFLICT\<close>. An \<open>UPDATE\<close>
  that reads columns in its condition, its right-hand sides or \<open>RETURNING\<close> needs \<open>SELECT\<close> too.
\<close>

record sql_statement =
  st_role :: "string option"
  st_table :: string
  st_privileges :: "privilege list"
  st_columns :: "string list"
  st_inserted :: "string list"
  st_conflict :: "string list option"

definition tenant_lookup_sql :: sql_statement where
  "tenant_lookup_sql = \<lparr>st_role = Some ''shieldstream_app'', st_table = ''tenants'', st_privileges = [SELECT],
     st_columns = [''id'', ''name'', ''upstream_base_url'', ''ip_hash_salt'', ''api_key_hash''], st_inserted = [], st_conflict = None\<rparr>"

definition policy_query_sql :: sql_statement where
  "policy_query_sql = \<lparr>st_role = Some ''shieldstream_app'', st_table = ''policies'', st_privileges = [SELECT],
     st_columns = [''rate_limit_rps'', ''rate_limit_window_s'', ''policy_version'', ''tenant_id'', ''route_pattern''],
     st_inserted = [], st_conflict = None\<rparr>"

definition policy_update_sql :: sql_statement where
  "policy_update_sql = \<lparr>st_role = Some ''shieldstream_worker'', st_table = ''policies'', st_privileges = [UPDATE, SELECT],
     st_columns = [''rate_limit_rps'', ''policy_version'', ''updated_at'', ''id'', ''tenant_id'', ''route_pattern''],
     st_inserted = [], st_conflict = None\<rparr>"

definition policy_exists_sql :: sql_statement where
  "policy_exists_sql = \<lparr>st_role = Some ''shieldstream_worker'', st_table = ''policies'', st_privileges = [SELECT],
     st_columns = [''id'', ''tenant_id''], st_inserted = [], st_conflict = None\<rparr>"

definition upsert_sql :: sql_statement where
  "upsert_sql = \<lparr>st_role = Some ''shieldstream_worker'', st_table = ''request_metrics'', st_privileges = [INSERT, UPDATE, SELECT],
     st_columns = [''total_requests'', ''status_2xx'', ''status_4xx'', ''status_5xx'', ''blocked_count'', ''p50_latency_ms'', ''p99_latency_ms''],
     st_inserted = [''bucket'', ''tenant_id'', ''endpoint'', ''method'', ''total_requests'', ''status_2xx'', ''status_4xx'', ''status_5xx'',
       ''blocked_count'', ''p50_latency_ms'', ''p99_latency_ms''],
     st_conflict = Some [''bucket'', ''tenant_id'', ''endpoint'', ''method'']\<rparr>"

definition seed_tenant_sql :: sql_statement where
  "seed_tenant_sql = \<lparr>st_role = None, st_table = ''tenants'', st_privileges = [INSERT, SELECT], st_columns = [''id''],
     st_inserted = [''name'', ''api_key_hash'', ''upstream_base_url''], st_conflict = None\<rparr>"

definition seed_policy_sql :: sql_statement where
  "seed_policy_sql = \<lparr>st_role = None, st_table = ''policies'', st_privileges = [INSERT], st_columns = [],
     st_inserted = [''tenant_id'', ''route_pattern'', ''rate_limit_rps'', ''rate_limit_window_s''], st_conflict = None\<rparr>"

definition statements :: "sql_statement list" where
  "statements = [tenant_lookup_sql, policy_query_sql, policy_update_sql, policy_exists_sql, upsert_sql, seed_tenant_sql, seed_policy_sql]"

text \<open>
  What the server checks of a statement before it runs: the table and the columns exist, the role has the privileges, an
  inserted row gets a value in every column that requires one, and a conflict target is a unique key.
\<close>

definition statement_ok :: "catalog \<Rightarrow> sql_statement \<Rightarrow> bool" where
  "statement_ok c st =
     (case map_of (ca_tables c) (st_table st) of
        None \<Rightarrow> False
      | Some d \<Rightarrow>
          set (st_columns st @ st_inserted st) \<subseteq> set (column_names d) \<and>
          (case st_role st of None \<Rightarrow> True
             | Some r \<Rightarrow> list_all (\<lambda>p. (r, st_table st, p) \<in> set (ca_grants c)) (st_privileges st)) \<and>
          (INSERT \<in> set (st_privileges st) \<longrightarrow>
             list_all (\<lambda>col. co_not_null col \<and> co_default col = None \<longrightarrow> co_name col \<in> set (st_inserted st)) (td_columns d)) \<and>
          (case st_conflict st of None \<Rightarrow> True | Some key \<Rightarrow> set key \<in> set ` set (unique_keys d)))"

text \<open>
  The policy \<open>tenant_isolation\<close>, \<open>tenant_id = current_setting('app.tenant_id', true)::uuid\<close>: a setting that
  was never made is \<open>NULL\<close> and matches no row, one that is not a UUID is an error. Without a \<open>WITH CHECK\<close>
  clause the same condition governs the rows written.
\<close>

definition tenant_isolation :: "(string \<Rightarrow> string option) \<Rightarrow> string option \<Rightarrow> string \<Rightarrow> bool res" where
  "tenant_isolation uuid_of setting row_tenant =
     (case setting of
        None \<Rightarrow> Inr False
      | Some s \<Rightarrow> (case uuid_of s of None \<Rightarrow> Inl DatabaseError | Some u \<Rightarrow> Inr (row_tenant = u)))"

text \<open>
  Which sessions row-level security binds. It binds no superuser and no role with \<open>BYPASSRLS\<close>; another role it binds where
  it is enabled, and the owner of the table where it is forced as well. Of the roles here only the owner may be a
  superuser (\<open>owner_superuser\<close>): the two that the migration creates are none, and the one that \<open>docker-compose.yml\<close> creates,
  and that owns the tables, is one.
\<close>

definition rls_applies :: "bool \<Rightarrow> catalog \<Rightarrow> string option \<Rightarrow> string \<Rightarrow> bool" where
  "rls_applies owner_superuser c role t \<longleftrightarrow> t \<in> set (ca_rls_enabled c) \<and>
     (case role of
        None \<Rightarrow> \<not> owner_superuser \<and> t \<in> set (ca_rls_forced c)
      | Some r \<Rightarrow> map_of (ca_roles c) r \<noteq> Some True)"

text \<open>The rows of a table that a session sees; where row-level security applies and there is no policy, none.\<close>

definition visible_rows :: "bool \<Rightarrow> catalog \<Rightarrow> (string \<Rightarrow> string option) \<Rightarrow> string option \<Rightarrow> string option \<Rightarrow> string \<Rightarrow> ('a \<Rightarrow> string) \<Rightarrow>
    'a list \<Rightarrow> 'a list res" where
  "visible_rows owner_superuser c uuid_of role setting t tenant_of rows =
     (if \<not> (case role of None \<Rightarrow> True | Some r \<Rightarrow> (r, t, SELECT) \<in> set (ca_grants c)) then Inl DatabaseError
      else if \<not> rls_applies owner_superuser c role t then Inr rows
      else if (''tenant_isolation'', t) \<notin> set (ca_policies c) then Inr []
      else res_filter (\<lambda>row. tenant_isolation uuid_of setting (tenant_of row)) rows)"

text \<open>What a session that the policy binds sees: the rows of its tenant, and none without one.\<close>

definition sees_own_tenant :: "(string option \<Rightarrow> 'a list res) \<Rightarrow> (string \<Rightarrow> string option) \<Rightarrow> ('a \<Rightarrow> string) \<Rightarrow> 'a list \<Rightarrow> bool" where
  "sees_own_tenant sees uuid_of tenant_of rows \<longleftrightarrow> sees None = Inr [] \<and>
     (\<forall>s u. uuid_of s = Some u \<longrightarrow> sees (Some s) = Inr (filter (\<lambda>row. tenant_of row = u) rows))"

lemma isolated_rows:
  "res_filter (\<lambda>row. tenant_isolation uuid_of None (tenant_of row)) rows = Inr []"
  "uuid_of s = Some u \<Longrightarrow> res_filter (\<lambda>row. tenant_isolation uuid_of (Some s) (tenant_of row)) rows = Inr (filter (\<lambda>row. tenant_of row = u) rows)"
proof -
  have "res_filter (\<lambda>row. tenant_isolation uuid_of None (tenant_of row)) rows = Inr (filter (\<lambda>_. False) rows)"
    by (rule res_filter_total) (simp add: tenant_isolation_def)
  then show "res_filter (\<lambda>row. tenant_isolation uuid_of None (tenant_of row)) rows = Inr []" by simp
  show "uuid_of s = Some u \<Longrightarrow> res_filter (\<lambda>row. tenant_isolation uuid_of (Some s) (tenant_of row)) rows = Inr (filter (\<lambda>row. tenant_of row = u) rows)"
    by (rule res_filter_total) (simp add: tenant_isolation_def)
qed

lemma upgraded_table:
  assumes "unused_names c" "(t, d) \<in> set schema_tables"
  shows "map_of (ca_tables (upgraded c)) t = Some d"
proof -
  have "\<not> has_relation c t" using assms(2) unused_relations [OF assms(1)] by (auto simp: schema_tables_def)
  then have "map_of (ca_tables c) t = None" by (simp add: has_relation_def has_table_def map_of_eq_None_iff)
  moreover have "map_of schema_tables t = Some d" using assms(2) by (auto simp: schema_tables_def)
  ultimately show ?thesis by (simp add: upgraded_def map_add_absent)
qed

lemma schema_statements:
  assumes "unused_names c"
  shows "list_all (statement_ok (upgraded c)) statements"
proof -
  have "map_of (ca_tables (upgraded c)) ''tenants'' = Some tenants" "map_of (ca_tables (upgraded c)) ''policies'' = Some policies"
    "map_of (ca_tables (upgraded c)) ''request_metrics'' = Some request_metrics"
    by (rule upgraded_table [OF assms]; simp add: schema_tables_def)+
  moreover have "list_all (\<lambda>e. e \<in> set (ca_grants (upgraded c)))
      [(''shieldstream_app'', ''tenants'', SELECT), (''shieldstream_app'', ''policies'', SELECT), (''shieldstream_worker'', ''policies'', SELECT),
       (''shieldstream_worker'', ''policies'', UPDATE), (''shieldstream_worker'', ''request_metrics'', SELECT),
       (''shieldstream_worker'', ''request_metrics'', INSERT), (''shieldstream_worker'', ''request_metrics'', UPDATE)]"
    by (simp add: upgraded_def)
  ultimately show ?thesis
    by (simp add: statements_def statement_ok_def tenant_lookup_sql_def policy_query_sql_def policy_update_sql_def policy_exists_sql_def
        upsert_sql_def seed_tenant_sql_def seed_policy_sql_def tenants_def policies_def request_metrics_def column_names_def unique_keys_def
        required_def defaulted_def nullable_def)
qed

lemma metrics_isolation:
  assumes "unused_names c" "t \<in> {''request_metrics'', ''request_metrics_hourly''}"
  shows "rls_applies su (upgraded c) (Some ''shieldstream_app'') t" "rls_applies su (upgraded c) None t \<longleftrightarrow> \<not> su"
    "\<not> rls_applies su (upgraded c) (Some ''shieldstream_worker'') t" "(''tenant_isolation'', t) \<in> set (ca_policies (upgraded c))"
    "(''shieldstream_app'', t, SELECT) \<in> set (ca_grants (upgraded c))" "(''shieldstream_worker'', t, SELECT) \<in> set (ca_grants (upgraded c))"
proof -
  have roles: "map_of (ca_roles c) ''shieldstream_app'' = None" "map_of (ca_roles c) ''shieldstream_worker'' = None"
    using assms(1) unfolding map_of_eq_None_iff unused_names_def has_role_def by simp_all
  then show "rls_applies su (upgraded c) (Some ''shieldstream_app'') t" "rls_applies su (upgraded c) None t \<longleftrightarrow> \<not> su"
    "\<not> rls_applies su (upgraded c) (Some ''shieldstream_worker'') t"
    using assms(2) by (auto simp: rls_applies_def upgraded_def map_add_absent)
  show "(''tenant_isolation'', t) \<in> set (ca_policies (upgraded c))" "(''shieldstream_app'', t, SELECT) \<in> set (ca_grants (upgraded c))"
    "(''shieldstream_worker'', t, SELECT) \<in> set (ca_grants (upgraded c))"
    using assms(2) by (auto simp: upgraded_def)
qed

text \<open>
  C37: The schema fits the code. After the upgrade of a database that does not use its names, every statement the components
  run is accepted: its table and columns exist, its role has the privileges it needs, every inserted row has the columns it
  must have, and the conflict target of the upsert is a key. The gateway's role can change neither tenants nor policies, and
  neither role can delete anything. Of the metrics, and of the hourly rollup, the gateway's role sees exactly the rows of
  the tenant the session is set to, and none when no tenant is set; the worker sees all. So does the owner if it is a superuser, as
  deployed, whatever the session is set to: forcing row-level security binds an owner only if it is not one, and then like the gateway's role.
\<close>

theorem access_rules_fit:
  assumes "unmigrated d" "run_migrations_online Upgrade_head d = (Inr (), d')" "c' = db_catalog d'"
  shows "list_all (statement_ok c') statements \<and>
    (\<forall>t p. (''shieldstream_app'', t, p) \<in> set (ca_grants c') \<and> t \<in> {''tenants'', ''policies''} \<longrightarrow> p = SELECT) \<and>
    (\<forall>r t. r \<in> {''shieldstream_app'', ''shieldstream_worker''} \<longrightarrow> (r, t, DELETE) \<notin> set (ca_grants c')) \<and>
    (\<forall>t \<in> {''request_metrics'', ''request_metrics_hourly''}.
       sees_own_tenant (\<lambda>setting. visible_rows su c' uuid_of (Some ''shieldstream_app'') setting t tenant_of rows) uuid_of tenant_of rows \<and>
       visible_rows su c' uuid_of (Some ''shieldstream_worker'') setting t tenant_of rows = Inr rows \<and>
       visible_rows True c' uuid_of None setting t tenant_of rows = Inr rows \<and>
       sees_own_tenant (\<lambda>setting. visible_rows False c' uuid_of None setting t tenant_of rows) uuid_of tenant_of rows)"
proof -
  define c where "c = with_version_table (db_catalog d)"
  have c: "catalog_ok c" "unused_names c" unfolding c_def by (rule unmigrated_version_table [OF assms(1)])+
  have c': "c' = upgraded c" using assms(2,3) upgrade_head [OF assms(1)] by (auto simp: c_def)
  have free: "(r, t, p) \<notin> set (ca_grants c)" if "r \<in> {''shieldstream_app'', ''shieldstream_worker''}" for r t p
    using unused_roles(3,4) [OF c] that by force
  show ?thesis
  proof (intro conjI allI impI ballI)
    show "list_all (statement_ok c') statements" using schema_statements [OF c(2)] by (simp add: c')
    show "p = SELECT" if "(''shieldstream_app'', t, p) \<in> set (ca_grants c') \<and> t \<in> {''tenants'', ''policies''}" for t p
      using that free [of "''shieldstream_app''" t p] by (auto simp: c' upgraded_def)
    show "(r, t, DELETE) \<notin> set (ca_grants c')" if "r \<in> {''shieldstream_app'', ''shieldstream_worker''}" for r t
      using free [OF that, of t DELETE] by (simp add: c' upgraded_def)
  qed (simp_all add: c' visible_rows_def metrics_isolation [OF c(2)] sees_own_tenant_def isolated_rows)
qed

theorem access_rules_fit_witness:
  "\<exists>d'. run_migrations_online Upgrade_head empty_database = (Inr (), d') \<and> list_all (statement_ok (db_catalog d')) statements \<and>
     visible_rows True (db_catalog d') Some (Some ''shieldstream_app'') (Some ''acme'') ''request_metrics'' fst [(''acme'', 1), (''globex'', 2::nat)] =
       Inr [(''acme'', 1)] \<and>
     visible_rows True (db_catalog d') Some None (Some ''acme'') ''request_metrics'' fst [(''acme'', 1), (''globex'', 2::nat)] =
       Inr [(''acme'', 1), (''globex'', 2)]"
proof -
  obtain d' where d': "run_migrations_online Upgrade_head empty_database = (Inr (), d')"
    using upgrade_head [OF empty_unmigrated] by blast
  from access_rules_fit [OF empty_unmigrated d' refl, of True Some fst "[(''acme'', 1), (''globex'', 2::nat)]" "Some ''acme''"]
  have "list_all (statement_ok (db_catalog d')) statements"
    "sees_own_tenant (\<lambda>setting. visible_rows True (db_catalog d') Some (Some ''shieldstream_app'') setting ''request_metrics'' fst
       [(''acme'', 1), (''globex'', 2::nat)]) Some fst [(''acme'', 1), (''globex'', 2)]"
    "visible_rows True (db_catalog d') Some None (Some ''acme'') ''request_metrics'' fst [(''acme'', 1), (''globex'', 2::nat)] =
       Inr [(''acme'', 1), (''globex'', 2)]" by blast+
  with d' show ?thesis by (simp add: sees_own_tenant_def)
qed

subsection \<open>Seeding\<close>

definition SEED_TENANTS :: "(string \<times> string) list" where
  "SEED_TENANTS = [(''acme-corp'', ''http://httpbin:80''), (''globex-inc'', ''http://httpbin:80'')]"

record seed_tables =
  sd_tenants :: "tenant_row list"
  sd_policies :: "policy_row list"

text \<open>
  One iteration of the loop in \<open>seed\<close>. \<open>token\<close> is the random part of the key; the identifiers, the salt
  and the time are the defaults the database draws.
\<close>

record seed_draw =
  dr_token :: string
  dr_tenant_id :: string
  dr_salt :: string
  dr_policy_id :: string
  dr_now :: real

definition seed_key :: "seed_draw \<Rightarrow> string" where
  "seed_key d = ''sk_test_'' @ dr_token d"

definition seed_tenant :: "(string \<Rightarrow> string) \<Rightarrow> (string \<times> string) \<times> seed_draw \<Rightarrow> seed_tables \<Rightarrow> seed_tables res" where
  "seed_tenant sha256_hex td s =
     (let ((name, upstream), d) = td;
          key_hash = hash_key sha256_hex (seed_key d);
          tenant = \<lparr>tn_id = dr_tenant_id d, tn_name = name, tn_api_key_hash = key_hash,
                    tn_upstream_base_url = upstream, tn_ip_hash_salt = dr_salt d\<rparr>;
          policy = \<lparr>pr_id = dr_policy_id d, pr_tenant_id = dr_tenant_id d, pr_route_pattern = ''/proxy/*'',
                    pr_rate_limit_rps = 100, pr_rate_limit_window_s = 60, pr_policy_version = 1, pr_updated_at = dr_now d\<rparr>
      in if dr_tenant_id d \<in> tn_id ` set (sd_tenants s) \<or> key_hash \<in> tn_api_key_hash ` set (sd_tenants s) \<or>
            dr_policy_id d \<in> pr_id ` set (sd_policies s)
         then Inl DatabaseError
         else Inr \<lparr>sd_tenants = sd_tenants s @ [tenant], sd_policies = sd_policies s @ [policy]\<rparr>)"

text \<open>The whole script runs in one transaction: an error undoes it.\<close>

fun seed_loop :: "(string \<Rightarrow> string) \<Rightarrow> ((string \<times> string) \<times> seed_draw) list \<Rightarrow> seed_tables \<Rightarrow> seed_tables res" where
  "seed_loop sha256_hex [] s = Inr s"
| "seed_loop sha256_hex (td # tds) s = res_bind (seed_tenant sha256_hex td s) (seed_loop sha256_hex tds)"

definition seed :: "(string \<Rightarrow> string) \<Rightarrow> seed_draw list \<Rightarrow> seed_tables \<Rightarrow> unit res \<times> seed_tables" where
  "seed sha256_hex draws s =
     (case seed_loop sha256_hex (zip SEED_TENANTS draws) s of Inl e \<Rightarrow> (Inl e, s) | Inr s' \<Rightarrow> (Inr (), s'))"

lemma seed_step:
  assumes "seed_tenant sha256_hex ((name, upstream), d) s = Inr s'"
  shows "sd_tenants s' = sd_tenants s @ [\<lparr>tn_id = dr_tenant_id d, tn_name = name, tn_api_key_hash = hash_key sha256_hex (seed_key d),
      tn_upstream_base_url = upstream, tn_ip_hash_salt = dr_salt d\<rparr>]"
    and "sd_policies s' = sd_policies s @ [\<lparr>pr_id = dr_policy_id d, pr_tenant_id = dr_tenant_id d, pr_route_pattern = ''/proxy/*'',
      pr_rate_limit_rps = 100, pr_rate_limit_window_s = 60, pr_policy_version = 1, pr_updated_at = dr_now d\<rparr>]"
    and "dr_tenant_id d \<notin> tn_id ` set (sd_tenants s)" "hash_key sha256_hex (seed_key d) \<notin> tn_api_key_hash ` set (sd_tenants s)"
  using assms by (auto simp: seed_tenant_def Let_def split: if_splits)

lemma proxy_glob: "glob ''/proxy/*'' (''/proxy/'' @ path)"
  using glob_star [OF glob_end, of path] by (simp add: glob_lit_step)

text \<open>
  The seeded keys work. When the seed script succeeds on empty tables, each key it prints authenticates as
  its tenant, with the seeded upstream, and the policy that applies to the tenant's proxy
  routes is the seeded one, 100 requests per 60 seconds; when it fails nothing is left behind.
\<close>

theorem seed_then_lookup:
  assumes "seed sha256_hex [d1, d2] \<lparr>sd_tenants = [], sd_policies = []\<rparr> = (x, s)"
  shows "case x of Inl _ \<Rightarrow> s = \<lparr>sd_tenants = [], sd_policies = []\<rparr>
    | Inr _ \<Rightarrow> list_all (\<lambda>((name, upstream), d).
        tenant_result (lookup_tenant_by_key_hash (Inr (sd_tenants s)) (hash_key sha256_hex (seed_key d))) =
          Inr (tenant_json \<lparr>tn_id = dr_tenant_id d, tn_name = name, tn_api_key_hash = hash_key sha256_hex (seed_key d),
            tn_upstream_base_url = upstream, tn_ip_hash_salt = dr_salt d\<rparr>) \<and>
        fetch_matching_policy (Inr (sd_policies s)) (dr_tenant_id d) (''/proxy/'' @ path) =
          Inr (Some (JObj [(''rate_limit_rps'', JInt 100), (''rate_limit_window_s'', JInt 60), (''policy_version'', JInt 1)])))
      [((''acme-corp'', ''http://httpbin:80''), d1), ((''globex-inc'', ''http://httpbin:80''), d2)]"
proof (cases "seed_loop sha256_hex (zip SEED_TENANTS [d1, d2]) \<lparr>sd_tenants = [], sd_policies = []\<rparr>")
  case (Inl e)
  with assms show ?thesis by (auto simp: seed_def)
next
  case (Inr s')
  with assms have s: "x = Inr ()" "s' = s" by (simp_all add: seed_def)
  from Inr obtain s1 where s1: "seed_tenant sha256_hex ((''acme-corp'', ''http://httpbin:80''), d1) \<lparr>sd_tenants = [], sd_policies = []\<rparr> = Inr s1"
    "seed_tenant sha256_hex ((''globex-inc'', ''http://httpbin:80''), d2) s1 = Inr s"
    using s(2) by (auto simp: SEED_TENANTS_def res_bind_Inr_iff)
  have plain: "plain_pattern (pr_route_pattern row)" if "row \<in> set (sd_policies s)" for row
    using that seed_step(2) [OF s1(1)] seed_step(2) [OF s1(2)] by (auto simp: plain_pattern_def)
  note facts = seed_step [OF s1(1)] seed_step [OF s1(2)]
  have fetch: "fetch_matching_policy (Inr (sd_policies s)) tid (''/proxy/'' @ path) =
      Inr (Some (JObj [(''rate_limit_rps'', JInt 100), (''rate_limit_window_s'', JInt 60), (''policy_version'', JInt 1)]))"
    if "tid \<in> {dr_tenant_id d1, dr_tenant_id d2}" for tid
  proof -
    have "fetch_matching_policy (Inr (sd_policies s)) tid (''/proxy/'' @ path) =
        (case sort_key (\<lambda>row. - int (length (pr_route_pattern row))) (filter (applies tid (''/proxy/'' @ path)) (sd_policies s)) of
           [] \<Rightarrow> Inr None | row # _ \<Rightarrow> Inr (Some (policy_json row)))"
      by (rule fetch_plain) (rule plain)
    with that facts proxy_glob [of path] show ?thesis by (auto simp: applies_def policy_json_def)
  qed
  show ?thesis
    using facts fetch by (simp add: s(1) lookup_tenant_by_key_hash_def tenant_result_def)
qed

theorem seed_then_lookup_witness:
  "\<exists>s. seed (\<lambda>k. k) [\<lparr>dr_token = ''a'', dr_tenant_id = ''t1'', dr_salt = ''s1'', dr_policy_id = ''p1'', dr_now = 0\<rparr>,
       \<lparr>dr_token = ''b'', dr_tenant_id = ''t2'', dr_salt = ''s2'', dr_policy_id = ''p2'', dr_now = 0\<rparr>] \<lparr>sd_tenants = [], sd_policies = []\<rparr> = (Inr (), s) \<and>
     fetch_matching_policy (Inr (sd_policies s)) ''t2'' ''/proxy/get'' =
       Inr (Some (JObj [(''rate_limit_rps'', JInt 100), (''rate_limit_window_s'', JInt 60), (''policy_version'', JInt 1)]))"
proof -
  let ?d1 = "\<lparr>dr_token = ''a'', dr_tenant_id = ''t1'', dr_salt = ''s1'', dr_policy_id = ''p1'', dr_now = 0\<rparr>"
  let ?d2 = "\<lparr>dr_token = ''b'', dr_tenant_id = ''t2'', dr_salt = ''s2'', dr_policy_id = ''p2'', dr_now = 0\<rparr>"
  obtain s where s: "seed (\<lambda>k. k) [?d1, ?d2] \<lparr>sd_tenants = [], sd_policies = []\<rparr> = (Inr (), s)"
    by (simp add: seed_def SEED_TENANTS_def seed_tenant_def hash_key_def seed_key_def)
  with seed_then_lookup [OF s, of "''get''"] show ?thesis by simp
qed

end
