(* ===== verification/Load_Shape.thy ===== *)
theory Load_Shape
  imports Rules
begin

section \<open>The load test\<close>

text \<open>
  \<open>loadtest/locustfile.py\<close> (whose user \<open>loadtest/chaos_locustfile.py\<close> reuses): how many simulated users run at a time, and what they
  send. The load is shown to stay between one and the peak while the test runs, to hold the peak for five minutes, and to end after
  seven; of the requests, exactly the probe sets off the alert consumer's rules.
\<close>

subsection \<open>The shape\<close>

definition RAMP_UP_S :: real where
  "RAMP_UP_S = 60"

definition HOLD_S :: real where
  "HOLD_S = 300"

definition RAMP_DOWN_S :: real where
  "RAMP_DOWN_S = 60"

definition PEAK_USERS :: int where
  "PEAK_USERS = 1000"

definition SPAWN_RATE :: int where
  "SPAWN_RATE = 50"

definition shape_tick :: "real \<Rightarrow> (int \<times> int) option" where
  "shape_tick run_time =
     (if run_time < RAMP_UP_S
      then Some (max 1 (round_half_even (of_int PEAK_USERS * (run_time / RAMP_UP_S))), SPAWN_RATE)
      else if run_time < RAMP_UP_S + HOLD_S then Some (PEAK_USERS, SPAWN_RATE)
      else
        (let run_total = RAMP_UP_S + HOLD_S + RAMP_DOWN_S
         in if run_time < run_total
            then Some (max 1 (round_half_even (of_int PEAK_USERS * ((run_total - run_time) / RAMP_DOWN_S))), SPAWN_RATE)
            else None))"

lemmas shape_defs = RAMP_UP_S_def HOLD_S_def RAMP_DOWN_S_def PEAK_USERS_def SPAWN_RATE_def

lemma shape_ends: "shape_tick t = None \<longleftrightarrow> 420 \<le> t"
  by (auto simp: shape_tick_def shape_defs)

lemma shape_within_peak:
  assumes "shape_tick t = Some (users, rate)"
  shows "1 \<le> users \<and> users \<le> PEAK_USERS"
proof -
  have "round_half_even (1000 * (t / 60)) \<le> 1000" if "t < 60" using that by (intro round_half_even_le) simp
  moreover have "round_half_even (1000 * ((420 - t) / 60)) \<le> 1000" if "360 \<le> t" using that by (intro round_half_even_le) simp
  ultimately show ?thesis using assms by (auto simp: shape_tick_def shape_defs split: if_splits)
qed

lemma shape_holds_peak: "60 \<le> t \<Longrightarrow> t < 360 \<Longrightarrow> shape_tick t = Some (PEAK_USERS, SPAWN_RATE)"
  by (simp add: shape_tick_def shape_defs)

subsection \<open>The users\<close>

text \<open>
  The requests of \<open>ShieldStreamUser\<close> with the weights of their tasks. The parameters of a request are encoded as
  \<open>urlencode\<close> does it: unreserved characters stay, a space becomes a plus sign, and any other character becomes its code.
\<close>

definition unreserved :: "char \<Rightarrow> bool" where
  "unreserved c \<longleftrightarrow> (let n = of_char c :: nat in (48 \<le> n \<and> n \<le> 57) \<or> (65 \<le> n \<and> n \<le> 90) \<or> (97 \<le> n \<and> n \<le> 122)) \<or>
     c \<in> set ''_.-~''"

definition hex_digit :: "nat \<Rightarrow> char" where
  "hex_digit n = ''0123456789ABCDEF'' ! n"

definition quote_plus :: "string \<Rightarrow> string" where
  "quote_plus s = concat (map (\<lambda>c. if unreserved c then [c] else if c = CHR '' '' then ''+''
     else [CHR ''%'', hex_digit (of_char c div 16), hex_digit (of_char c mod 16)]) s)"

definition urlencode :: "(string \<times> string) list \<Rightarrow> string" where
  "urlencode params = concat (map (\<lambda>(i, (k, v)). (if i = 0 then [] else ''&'') @ quote_plus k @ ''='' @ quote_plus v) (enumerate 0 params))"

record load_request =
  lr_method :: string
  lr_path :: string
  lr_query :: string
  lr_headers :: "(string \<times> string) list"
  lr_json :: "(string \<times> string) list option"

definition API_KEY :: "string option \<Rightarrow> string" where
  "API_KEY env = (case env of None \<Rightarrow> ''sk_test_loadtest_fixedkey_localdev'' | Some k \<Rightarrow> k)"

definition normal_get :: "string \<Rightarrow> load_request" where
  "normal_get api_key = \<lparr>lr_method = ''GET'', lr_path = ''/proxy/get'', lr_query = [], lr_headers = [(''X-API-Key'', api_key)],
     lr_json = None\<rparr>"

definition normal_post :: "string \<Rightarrow> load_request" where
  "normal_post api_key = \<lparr>lr_method = ''POST'', lr_path = ''/proxy/post'', lr_query = [], lr_headers = [(''X-API-Key'', api_key)],
     lr_json = Some [(''probe'', ''shieldstream-loadtest'')]\<rparr>"

definition sqli_probe :: "string \<Rightarrow> load_request" where
  "sqli_probe api_key = \<lparr>lr_method = ''GET'', lr_path = ''/proxy/get'', lr_query = urlencode [(''q'', CHR 0x27 # '' OR 1=1--'')],
     lr_headers = [(''X-API-Key'', api_key)], lr_json = None\<rparr>"

definition user_tasks :: "string \<Rightarrow> (nat \<times> load_request) list" where
  "user_tasks api_key = [(70, normal_get api_key), (25, normal_post api_key), (5, sqli_probe api_key)]"

lemma probe_query: "lr_query (sqli_probe k) = ''q=%27+OR+1%3D1--''"
  unfolding sqli_probe_def by (simp add: urlencode_def quote_plus_def unreserved_def hex_digit_def)

text \<open>
  Five tasks in a hundred are probes, and with a user agent that sets off no rule itself exactly the probes do, as \<open>SQLI\<close>. On
  the wire it is the trailing comment that gives them away: the tautology they contain is not recognised.
\<close>

lemma load_mix:
  assumes "set (scan_event [] ua) = {}" "(w, req) \<in> set (user_tasks k)"
  shows "set (scan_event (lr_query req) ua) = (if req = sqli_probe k then {''SQLI''} else {})"
proof -
  have "scan_event ''q=%27+OR+1%3D1--'' [] = [''SQLI'']" by code_simp
  moreover have "normal_get k \<noteq> sqli_probe k" "normal_post k \<noteq> sqli_probe k"
    by (rule notI, drule arg_cong [of _ _ lr_query], simp add: probe_query normal_get_def normal_post_def)+
  ultimately show ?thesis
    using assms fields_scanned_separately [of "lr_query req" ua] fields_scanned_separately [of "[]" ua]
    by (auto simp: user_tasks_def probe_query normal_get_def normal_post_def)
qed

lemma load_weights: "sum_list (map fst (user_tasks k)) = 100" "fst (user_tasks k ! 2) = 5"
  by (simp_all add: user_tasks_def)

lemma load_probe_pattern: "search TRAILING_COMMENT (lr_query (sqli_probe k))" "\<not> search OR_TAUTOLOGY (lr_query (sqli_probe k))"
  unfolding probe_query by code_simp+

end
