(* ===== verification/Spec2Isabelle.thy ===== *)
theory Spec2Isabelle
  imports Analytics_Properties Alert_Properties App Configuration Schema Load_Shape
begin

section \<open>ShieldStream: a verification development\<close>

text \<open>
  ShieldStream is a multi-tenant security gateway. A request to \<open>/proxy/...\<close> is authenticated by its API key,
  rate limited by a policy of its tenant, forwarded to the tenant's upstream, and reported as an event on a Redis
  stream. Two consumers read the stream: one aggregates events into a metrics table, the other detects attacks and
  anomalies and publishes alerts. Operators update policies through an admin API whose changes are pushed to
  the gateways, and a dashboard receives alerts and metrics over WebSockets.

  \<^bold>\<open>Conventions.\<close> A Python function is a HOL function that takes the state it changes, the clock readings and random values it
  draws and the services it calls, and returns a result and the next state. Exceptions are values of \<open>exn\<close>, results are
  \<open>exn + 'a\<close>. Dictionaries are insertion-ordered association lists. Python's \<open>int\<close> is \<open>int\<close>, \<open>float\<close> is
  \<open>real\<close> (or \<open>pyfloat\<close> where infinities and NaN can occur), \<open>str\<close> is \<open>string\<close> over the first 256 code points;
  PostgreSQL's \<open>INT\<close> is checked at its width in the admin API. Coroutines run to completion between the points
  where the model says that something else may happen; where the code depends on interleaving (cached lookups, the analytics consumers,
  the event emitter, the dashboard, the life of a process) there are step relations or explicit interference.

  \<^bold>\<open>Services.\<close> Redis, PostgreSQL, httpx, SHA-256, \<open>repr\<close> of floats and the UUID parser are not part of the repository. They are
  parameters; what the code relies on are the laws of the locales \<open>redis_zset\<close>, \<open>redis_scripts\<close>, \<open>redis_kv\<close>
  (\<open>Redis_Spec\<close>), \<open>redis_stream\<close> (\<open>Redis_Stream\<close>), \<open>metrics_db\<close> (\<open>Analytics_Worker\<close>), \<open>gateway_world\<close>
  (\<open>Gateway_Limits\<close>), \<open>policy_bus\<close> (\<open>Policy_Invalidation\<close>), \<open>redis_xadd\<close> (\<open>Logging\<close>) and \<open>trace_propagator\<close> (\<open>Tracing\<close>). Functional reference servers (\<open>Redis_Ref\<close>,
  \<open>Stream_Ref\<close>, and one in \<open>Policy_Invalidation\<close>) interpret every one of them; the witnesses of the theorems run on these servers.
  SQL statements in the source are translated to functions on tables.

  \<^bold>\<open>The gateway.\<close>
  \<^item> \<open>Sliding_Log\<close>: the abstract sliding-window limiter, and the locale \<open>window_limiter\<close> with what follows for any
    implementation: it decides like the specification and no window exceeds the limit.
  \<^item> \<open>Rate_Limiter\<close> (\<open>gateway/app/lua/sliding_window.lua\<close>, \<open>gateway/app/rate_limiter.py\<close>): the script
    refines the specification, with expiry of keys; the client copes with the loss of the script cache; tenants are isolated.
  \<^item> \<open>Fallback_Limiter\<close> (\<open>gateway/app/fallback_limiter.py\<close>): refines the specification with ten times the limit for
    windows up to 300 seconds, and does not for longer ones.
  \<^item> \<open>Py_Json\<close>: \<open>json.dumps\<close> and \<open>json.loads\<close>, which round-trip on values without floats. The parser recurses with fuel
    \<open>2 * length + 1\<close>; the round trip shows that it suffices for every printed value, and each recursive call consumes
    a character or opens a value.
  \<^item> \<open>Read_Cache\<close>: the read-through cache \<open>auth.py\<close> and \<open>policy.py\<close> share, as one function and in the three stages between
    which the event loop may switch; the relation \<open>lookups_run\<close> has any number of lookups in flight. The locale \<open>read_cache\<close>
    shows that nothing older than the time to live and the delay of the lookup that stored it is served, that the database
    decides during an outage, and when a flush is final.
  \<^item> \<open>Policy\<close> (\<open>gateway/app/policy.py\<close>): the longest matching glob, with SQL's \<open>LIKE\<close>; staleness below ten seconds plus that delay.
  \<^item> \<open>Auth\<close> (\<open>gateway/app/auth.py\<close>): staleness below thirty seconds plus that delay; refusals are never stale.
  \<^item> \<open>Enforcement\<close> (\<open>gateway/app/middleware/rate_limit.py\<close>, \<open>gateway/app/metrics.py\<close>): the dependency with
    every branch, and the verdict on a request that decides its books; \<open>Gateway_Limits\<close>: the whole dependency as a \<open>window_limiter\<close>, with Redis reachable and during an outage; the
    window is that of the literal path, so requests to different paths are not limited together.
  \<^item> \<open>Proxy\<close>, \<open>Proxy_Properties\<close> (\<open>gateway/app/routes/proxy.py\<close>, \<open>gateway/app/http_client.py\<close>,
    \<open>gateway/app/middleware/request_id.py\<close>): each request is booked once, the API key is not forwarded, what is relayed.
    \<open>Gateway_Properties\<close>: the whole route answers during an outage of Redis, and of the database as far as the caches reach.
  \<^item> \<open>Events\<close> (\<open>gateway/app/events.py\<close>, \<open>gateway/app/event_emitter.py\<close>): both consumers parse what the
    gateway writes; the emitter accounts for every event.
  \<^item> \<open>Admin\<close> (\<open>gateway/app/routes/admin.py\<close>): optimistic locking loses no update, tenants are isolated;
    \<open>Policy_Invalidation\<close> (\<open>gateway/app/policy_invalidation.py\<close>): an update reaches the lookups of every replica that
    handles its message, the window a lookup in flight leaves open, and what stops the listener.
  \<^item> \<open>Dashboard\<close> (\<open>gateway/app/routes/dashboard_ws.py\<close>): the broadcast under joins and leaves.
  \<^item> \<open>Lifespan\<close> (\<open>gateway/app/main.py\<close>, with the module state of \<open>http_client.py\<close> and \<open>tracing.py\<close>): start-up and shutdown, and the
    background tasks in between, which nothing restarts.
  \<^item> \<open>Tracing\<close> (\<open>gateway/app/tracing.py\<close>, \<open>consumers/analytics/tracing.py\<close>): the trace context that travels in the event, and the
    spans the main loop of the analytics consumer starts for the new entries it reads; recovered and adopted ones get none.
  \<^item> \<open>Logging\<close> (\<open>gateway/app/logging_config.py\<close>, the log calls, and the context variable of \<open>middleware/request_id.py\<close>): the request path
    with its log calls in place, which adds nothing but lines, and which lines a request and its emit task leave; that each carries its identifier,
    over a step relation of tasks that copy contexts (locale \<open>structlog\<close>).
  \<^item> \<open>App\<close> (\<open>gateway/app/main.py\<close>, \<open>gateway/app/routes/metrics.py\<close>): the routes (locale \<open>path_templates\<close>) and the application with its
    middleware as one function; without a valid key nothing changes, and a tenant reaches only what is its own.
  \<^item> \<open>Configuration\<close> (\<open>gateway/app/config.py\<close>, \<open>gateway/app/redis_client.py\<close>, \<open>gateway/app/db.py\<close>, the constants of the consumers):
    what the environment must hold for a process to start.

  \<^bold>\<open>The consumers.\<close>
  \<^item> \<open>Py_Text\<close>: \<open>int()\<close>, \<open>float()\<close> and \<open>str()\<close> of numbers. \<open>Aggregate\<close> (\<open>consumers/analytics/aggregate.py\<close>):
    parsing, minute buckets, nearest-rank percentiles; the loop equals a grouping.
  \<^item> \<open>Metrics_Table\<close>: the table \<open>request_metrics\<close> and the upsert of \<open>consumers/analytics/worker.py\<close>: batches add
    up, replays count twice.
  \<^item> \<open>Analytics_Worker\<close>, \<open>Analytics_Delivery\<close>, \<open>Analytics_Properties\<close> (\<open>consumers/analytics/worker.py\<close>): consumers that start,
    iterate, fail, are killed and restart in any order never lose an acknowledged event (other consumers act between whole start-ups and
    iterations, not between the commands of one); recovery and start-up
    terminate; the batch is bounded; a timestamp outside the range of \<open>datetime\<close> wedges the consumer. The drain loops
    are partial functions with \<open>None\<close> for not returning, and their termination is proved.
  \<^item> \<open>Dedup\<close>, \<open>Rps_Window\<close>, \<open>Statistical\<close>, \<open>Rules\<close> (the modules of \<open>consumers/alerts\<close>): deduplication refines a
    specification that never forgets, no arrival is lost, baselines stay within the traffic and what the threshold means,
    and which strings the rules match. \<open>Rules\<close> has an executable matcher for the regular expressions used.
  \<^item> \<open>Alert_Worker\<close>, \<open>Alert_Properties\<close> (\<open>consumers/alerts/worker.py\<close>): every iteration acknowledges what it read.

  \<^bold>\<open>The database and the load test.\<close> \<open>Migration\<close> (\<open>db/alembic/versions/0001_initial_schema.py\<close>, \<open>db/alembic/env.py\<close>): upgrade and
  downgrade as statements on a catalog, run as Alembic does by the recorded revision; the upgrade can be repeated and undone. What Alembic and PostgreSQL do
  is modelled as documented, for a linear history. \<open>Schema\<close> (with \<open>db/seed.py\<close>): tables, grants and row-level
  security fit the statements the components run, with what the owner sees as a superuser and otherwise; seeded keys authenticate. \<open>Load_Shape\<close> (\<open>loadtest/locustfile.py\<close>): the load
  profile and the mix of requests.

  \<^bold>\<open>Across components.\<close> This theory follows a request to both ends: an attack reaches the dashboards, and every request reaches the metrics.

  \<^bold>\<open>Not modelled.\<close> What happens inside libraries the code only configures or calls: structlog's processors, OpenTelemetry's exporters and
  span attributes, connection pools, the exposition format of Prometheus and the buckets of histograms, FastAPI's validation of
  requests, the framing headers Starlette adds (where a theorem needs their behaviour, they are parameters with stated laws). The
  text format of the consumers' logs, the offline mode of the migration, which prints SQL, and rounding of floats. The
  TypeScript dashboard, the end-to-end tests and the deployment files are not part of the Python program.
\<close>

section \<open>From the request to the dashboard\<close>




section \<open>From the request to the metrics\<close>

text \<open>The row of \<open>request_metrics\<close> an event belongs to, and the five counts of a list of events.\<close>

definition request_key :: "request_event \<Rightarrow> metric_key" where
  "request_key e = (60 * (re_timestamp_ms e div 60000), re_tenant_id e, re_endpoint e, re_method e)"

definition request_counts :: "request_event list \<Rightarrow> int list" where
  "request_counts es = [int (length es), int (length (filter (\<lambda>e. 200 \<le> re_status_code e \<and> re_status_code e < 300) es)),
     int (length (filter (\<lambda>e. 400 \<le> re_status_code e \<and> re_status_code e < 500) es)),
     int (length (filter (\<lambda>e. 500 \<le> re_status_code e) es)), int (length (filter re_rate_limited es))]"

definition as_parsed :: "request_event \<Rightarrow> parsed_event" where
  "as_parsed e = \<lparr>pe_tenant_id = re_tenant_id e, pe_endpoint = re_endpoint e, pe_method = re_method e, pe_status_code = re_status_code e,
     pe_latency_ms = re_latency_ms e, pe_rate_limited = re_rate_limited e, pe_timestamp_ms = re_timestamp_ms e, pe_traceparent = re_traceparent e\<rparr>"

lemma parse_as_parsed:
  "float_of_str (rep (re_latency_ms e)) = Some (re_latency_ms e) \<Longrightarrow> parse_event (to_redis_fields rep e) = Some (as_parsed e)"
  by (simp add: parse_event_def parse_fields_def int_field_def float_field_def as_parsed_def)

lemma parsed_requests:
  "\<forall>(i, e) \<in> set ies. float_of_str (rep (re_latency_ms e)) = Some (re_latency_ms e) \<Longrightarrow>
   parsed (map (\<lambda>(i, e). (i, to_redis_fields rep e)) ies) = map as_parsed (map snd ies)"
  by (induction ies) (auto simp: parsed_def map_filter_simps parse_as_parsed)

lemma counts_as_parsed: "event_counts k (map as_parsed es) = request_counts (filter (\<lambda>e. request_key e = k) es)"
  by (simp add: event_counts_def request_counts_def event_key_def request_key_def as_parsed_def status_in_def Let_def filter_map comp_def)

text \<open>
  C11: Every request is counted. Take the stream entries of any requests the gateway booked, with latencies that read back and
  times that PostgreSQL can hold. With a server and a database that answer, flushing the batch of these entries succeeds and adds
  to each minute, tenant, endpoint and method exactly the number of its requests, of its 2xx, 4xx and 5xx answers and of its
  refusals.
\<close>

theorem requests_are_counted:
  assumes "redis_stream X STREAM GROUP content delivered trimmed pending serving" "metrics_db D table db_up storable"
    and "serving r" "db_up d"
    and "\<forall>(i, e) \<in> set ies. float_of_str (rep (re_latency_ms e)) = Some (re_latency_ms e) \<and>
      valid_timestamp (re_timestamp_ms e) \<and> storable (request_key e)"
  shows "\<exists>r' d'. flush_batch X D nan_order (parsed (map (\<lambda>(i, e). (i, to_redis_fields rep e)) ies)) (map fst ies) (r, d) = (Inr (), (r', d')) \<and>
    (\<forall>k. counters (table d' k) = add_counts (counters (table d k)) (request_counts (filter (\<lambda>e. request_key e = k) (map snd ies))))"
proof -
  note env = analytics_envI [OF assms(1,2)]
  have batch: "parsed (map (\<lambda>(i, e). (i, to_redis_fields rep e)) ies) = map as_parsed (map snd ies)"
    using assms(5) by (intro parsed_requests) auto
  have "analytics_env.event_ok storable e" if "e \<in> set (map as_parsed (map snd ies))" for e
    using that assms(5) by (fastforce simp: analytics_env.event_ok_def [OF env] as_parsed_def event_key_def request_key_def)
  from analytics_env.flush_succeeds [OF env assms(3,4) this] obtain r' d' where
    "flush_batch X D nan_order (map as_parsed (map snd ies)) (map fst ies) (r, d) = (Inr (), (r', d'))"
    "committed nan_order (map as_parsed (map snd ies)) (table d) (table d')" by metis
  then show ?thesis unfolding batch using committed_counters counts_as_parsed by metis
qed

theorem requests_are_counted_witness:
  "\<exists>r' d'. flush_batch sample_ops ref_db_ops (\<lambda>xs. xs) (parsed [(entry_id 0, to_redis_fields (\<lambda>_. ''0.0'') blocked_request)]) [entry_id 0]
       (one_pending, empty_db) = (Inr (), (r', d')) \<and> counters (rd_table d' (request_key blocked_request)) = [1, 0, 1, 0, 1]"
proof -
  have "float_of_str ''0.0'' = Some (Fin 0)"
    by (simp add: float_of_str_def py_strip_def is_space_def split_sign_def py_lower_def lower_char_def
        decimal_literal_def digit_or_underscore_def digit_val_def float_part_def exponent_part_def)
  then have "\<forall>(i, e) \<in> set [(entry_id 0, blocked_request)]. float_of_str ((\<lambda>_. ''0.0'') (re_latency_ms e)) = Some (re_latency_ms e) \<and>
      valid_timestamp (re_timestamp_ms e) \<and> True"
    by (simp add: blocked_request_def valid_timestamp_def MIN_TIMESTAMP_MS_def MAX_TIMESTAMP_MS_def)
  from requests_are_counted [OF ref_laws _ _ this, of one_pending empty_db "\<lambda>_. sample_fields" "\<lambda>xs. xs"]
  obtain r' d' where "flush_batch sample_ops ref_db_ops (\<lambda>xs. xs) (parsed [(entry_id 0, to_redis_fields (\<lambda>_. ''0.0'') blocked_request)]) [entry_id 0]
      (one_pending, empty_db) = (Inr (), (r', d'))"
    and "\<forall>k. counters (rd_table d' k) = add_counts (counters (rd_table empty_db k))
      (request_counts (filter (\<lambda>e. request_key e = k) (map snd [(entry_id 0, blocked_request)])))" by auto
  moreover from this(2) have "counters (rd_table d' (request_key blocked_request)) = [1, 0, 1, 0, 1]"
    by (simp only:) (simp add: request_counts_def blocked_request_def)
  ultimately show ?thesis by blast
qed

end
